(* ===== verification/Prelude.thy ===== *)
theory Prelude
  imports Main "HOL-Library.Word" "HOL-Library.AList"
begin

unbundle bit_operations_syntax

text \<open>
  Shared vocabulary of the development: the machine integers of the Rust sources, the
  outcome of a Rust call (a value, an error value, or a panic), state-and-error computations
  for functions that take \<^verbatim>\<open>&mut\<close> arguments and use \<^verbatim>\<open>?\<close>, and the generic facts on lists,
  association lists and maps that the component theories use.
\<close>

section \<open>Integers and bytes\<close>

type_synonym u8 = "8 word"
type_synonym u16 = "16 word"
type_synonym u32 = "32 word"
type_synonym u64 = "64 word"
type_synonym bytes = "u8 list"

named_theorems codec_simps \<open>evaluation of readers and writers on concrete buffers\<close>
named_theorems len_simps \<open>lengths of encoded items\<close>
named_theorems inv_intros \<open>an operation keeps its component's invariant\<close>

text \<open>\<^verbatim>\<open>usize::div_ceil\<close>: the quotient, plus one when there is a remainder.\<close>

definition div_ceil :: "nat \<Rightarrow> nat \<Rightarrow> nat" where
  "div_ceil a b = (if a mod b > 0 then a div b + 1 else a div b)"

text \<open>\<^verbatim>\<open>uN::checked_add\<close>: \<open>None\<close> on overflow.\<close>

definition checked_add :: "'w::len word \<Rightarrow> 'w word \<Rightarrow> 'w word option" where
  "checked_add a b = (if unat a + unat b < 2 ^ LENGTH('w) then Some (a + b) else None)"

lemma div_ceil_mult_ge: "0 < b \<Longrightarrow> a \<le> div_ceil a b * b"
proof -
  assume b: "0 < b"
  have e: "a = b * (a div b) + a mod b" by simp
  show ?thesis
  proof (cases "a mod b > 0")
    case True
    from b have "a mod b < b" by simp
    then have "a \<le> b * (a div b) + b" using e by linarith
    with True show ?thesis by (simp add: div_ceil_def algebra_simps)
  next
    case False
    then have "a \<le> b * (a div b)" using e by linarith
    with False show ?thesis by (simp add: div_ceil_def algebra_simps)
  qed
qed

lemma div_ceil_zero_iff: "0 < b \<Longrightarrow> div_ceil a b = 0 \<longleftrightarrow> a = 0"
  by (cases "a = 0") (auto simp: div_ceil_def div_eq_0_iff)

lemma div_ceil_small: "0 < a \<Longrightarrow> a \<le> b \<Longrightarrow> div_ceil a b = 1"
  by (cases "a = b") (auto simp: div_ceil_def)

lemma div_ceil_step: "0 < b \<Longrightarrow> b < a \<Longrightarrow> div_ceil a b = Suc (div_ceil (a - b) b)"
  by (auto simp: div_ceil_def le_div_geq le_mod_geq)

section \<open>Outcomes of a Rust call\<close>

text \<open>
  A fallible function returns \<^verbatim>\<open>Result\<close>; an \<^verbatim>\<open>assert!\<close>, an \<^verbatim>\<open>unwrap\<close> of an error or a read past
  the end of a buffer panics. All three are values here, so that the absence of panics is a
  theorem and not an assumption.
\<close>

datatype ('e, 'a) rust = Ok 'a | Err 'e | Panic

primrec is_ok :: "('e, 'a) rust \<Rightarrow> bool" where
  "is_ok (Ok x) = True"
| "is_ok (Err e) = False"
| "is_ok Panic = False"

primrec map_ok :: "('a \<Rightarrow> 'b) \<Rightarrow> ('e, 'a) rust \<Rightarrow> ('e, 'b) rust" where
  "map_ok f (Ok x) = Ok (f x)"
| "map_ok f (Err e) = Err e"
| "map_ok f Panic = Panic"

primrec map_err :: "('e \<Rightarrow> 'f) \<Rightarrow> ('e, 'a) rust \<Rightarrow> ('f, 'a) rust" where
  "map_err f (Ok x) = Ok x"
| "map_err f (Err e) = Err (f e)"
| "map_err f Panic = Panic"

text \<open>\<^verbatim>\<open>m?\<close> followed by the rest of the function.\<close>

primrec rbind :: "('e, 'a) rust \<Rightarrow> ('a \<Rightarrow> ('e, 'b) rust) \<Rightarrow> ('e, 'b) rust" where
  "rbind (Ok x) f = f x"
| "rbind (Err e) f = Err e"
| "rbind Panic f = Panic"

lemma rbind_eq_Ok: "rbind m f = Ok y \<longleftrightarrow> (\<exists>x. m = Ok x \<and> f x = Ok y)"
  by (cases m) auto

lemma map_ok_eq_Ok: "map_ok f m = Ok y \<longleftrightarrow> (\<exists>x. m = Ok x \<and> y = f x)"
  by (cases m) auto

lemma map_err_eq_Ok [simp]: "map_err f m = Ok y \<longleftrightarrow> m = Ok y"
  by (cases m) auto

text \<open>
  \<^verbatim>\<open>iter.map(f).collect::<Result<Vec<_>, _>>()\<close>: the first error ends the collection.
\<close>

fun collect_results :: "('a \<Rightarrow> ('e, 'b) rust) \<Rightarrow> 'a list \<Rightarrow> ('e, 'b list) rust" where
  "collect_results f [] = Ok []"
| "collect_results f (x # xs) =
     rbind (f x) (\<lambda>y. rbind (collect_results f xs) (\<lambda>ys. Ok (y # ys)))"

lemma collect_results_Ok:
  "collect_results f xs = Ok ys \<longleftrightarrow> list_all2 (\<lambda>x y. f x = Ok y) xs ys"
  by (induction xs arbitrary: ys) (auto simp: rbind_eq_Ok list_all2_Cons1)

lemma collect_results_total:
  "\<forall>x \<in> set xs. f x = Ok (g x) \<Longrightarrow> collect_results f xs = Ok (map g xs)"
  by (induction xs) auto

section \<open>Computations over a mutable argument\<close>

type_synonym ('s, 'e, 'a) comp = "'s \<Rightarrow> ('e, 'a) rust \<times> 's"

definition ret :: "'a \<Rightarrow> ('s, 'e, 'a) comp" where
  "ret x = (\<lambda>s. (Ok x, s))"

definition throw :: "'e \<Rightarrow> ('s, 'e, 'a) comp" where
  "throw e = (\<lambda>s. (Err e, s))"

definition panic :: "('s, 'e, 'a) comp" where
  "panic = (\<lambda>s. (Panic, s))"

definition sbind :: "('s, 'e, 'a) comp \<Rightarrow> ('a \<Rightarrow> ('s, 'e, 'b) comp) \<Rightarrow> ('s, 'e, 'b) comp" where
  "sbind m f = (\<lambda>s. case m s of
      (Ok x, t) \<Rightarrow> f x t
    | (Err e, t) \<Rightarrow> (Err e, t)
    | (Panic, t) \<Rightarrow> (Panic, t))"

definition gets :: "('s \<Rightarrow> 'a) \<Rightarrow> ('s, 'e, 'a) comp" where
  "gets f = (\<lambda>s. (Ok (f s), s))"

definition lift :: "('e, 'a) rust \<Rightarrow> ('s, 'e, 'a) comp" where
  "lift r = (\<lambda>s. (r, s))"

text \<open>\<^verbatim>\<open>assert!(c)\<close>.\<close>

definition assert_that :: "bool \<Rightarrow> ('s, 'e, unit) comp" where
  "assert_that c = (if c then ret () else panic)"

lemma sbind_Ok [codec_simps]: "m s = (Ok x, t) \<Longrightarrow> sbind m f s = f x t"
  by (simp add: sbind_def)

lemma sbind_Err [codec_simps]: "m s = (Err e, t) \<Longrightarrow> sbind m f s = (Err e, t)"
  by (simp add: sbind_def)

lemma sbind_Panic [codec_simps]: "m s = (Panic, t) \<Longrightarrow> sbind m f s = (Panic, t)"
  by (simp add: sbind_def)

lemma ret_run [simp]: "ret x s = (Ok x, s)"
  by (simp add: ret_def)

lemma throw_run [simp]: "throw e s = (Err e, s)"
  by (simp add: throw_def)

lemma panic_run [simp]: "panic s = (Panic, s)"
  by (simp add: panic_def)

lemma gets_run [simp]: "gets f s = (Ok (f s), s)"
  by (simp add: gets_def)

lemma lift_run [simp]: "lift r s = (r, s)"
  by (simp add: lift_def)

lemma assert_that_True [simp]: "assert_that True = ret ()"
  by (simp add: assert_that_def)

lemma assert_that_False [simp]: "assert_that False = panic"
  by (simp add: assert_that_def)

lemma sbind_gets [simp]: "sbind (gets g) f s = f (g s) s"
  by (simp add: sbind_def)

lemma sbind_ret [simp]: "sbind (ret x) f s = f x s"
  by (simp add: sbind_def)

lemma sbind_lift_Ok [simp]: "sbind (lift (Ok x)) f s = f x s"
  by (simp add: sbind_def)

lemma sbind_lift_Err [simp]: "sbind (lift (Err e)) f s = (Err e, s)"
  by (simp add: sbind_def)

lemma sbind_throw [simp]: "sbind (throw e) f s = (Err e, s)"
  by (simp add: sbind_def)

lemma sbind_eq_OkE:
  assumes "sbind m f s = (Ok y, t)"
  obtains x u where "m s = (Ok x, u)" and "f x u = (Ok y, t)"
  using assms by (auto simp: sbind_def split: prod.splits rust.splits)

text \<open>A computation that cannot panic, whatever it is run on.\<close>

definition no_panic :: "('s, 'e, 'a) comp \<Rightarrow> bool" where
  "no_panic m \<longleftrightarrow> (\<forall>s. fst (m s) \<noteq> Panic)"

section \<open>Iteration over hash maps\<close>

text \<open>
  A \<^verbatim>\<open>HashMap\<close> is a partial function; where the code iterates over one, the order is not
  determined by its contents. The iterating operations take the order as an argument, and
  the theorems hold for each order that lists every key once.
\<close>

definition iteration_order :: "('k \<rightharpoonup> 'v) \<Rightarrow> 'k list \<Rightarrow> bool" where
  "iteration_order m ks \<longleftrightarrow> distinct ks \<and> set ks = dom m"

lemma iteration_order_empty [simp]: "iteration_order Map.empty ks \<longleftrightarrow> ks = []"
  by (auto simp: iteration_order_def)

lemma iteration_orderD:
  "iteration_order m ks \<Longrightarrow> k \<in> set ks \<longleftrightarrow> m k \<noteq> None"
  by (auto simp: iteration_order_def dom_def)

lemma iteration_order_distinct: "iteration_order m ks \<Longrightarrow> distinct ks"
  by (simp add: iteration_order_def)

lemma map_remove_Some: "(m(k := None)) x = Some v \<longleftrightarrow> x \<noteq> k \<and> m x = Some v"
  by auto

section \<open>Association lists\<close>

lemma length_AList_update:
  "length (AList.update k v xs) = (if k \<in> fst ` set xs then length xs else Suc (length xs))"
  by (induction xs) auto

lemma length_AList_delete_less:
  "map_of xs k = Some v \<Longrightarrow> length (AList.delete k xs) < length xs"
proof (induction xs)
  case Nil
  then show ?case by simp
next
  case (Cons x xs)
  have "length (AList.delete k xs) \<le> length xs"
    by (simp add: AList.delete_eq)
  with Cons show ?case by (cases x) (auto split: if_splits)
qed

lemma set_map_fst_AList_update: "fst ` set (AList.update k v xs) = insert k (fst ` set xs)"
  by (induction xs) auto

lemma map_of_iff_set: "distinct (map fst xs) \<Longrightarrow> map_of xs k = Some v \<longleftrightarrow> (k, v) \<in> set xs"
  by (metis map_of_SomeD map_of_is_SomeI)

text \<open>Updating an entry with the value it has changes nothing but the order.\<close>

lemma set_AList_update_consistent:
  assumes "distinct (map fst xs)" and "inj_on fst (insert (k, v) (set xs))"
  shows "set (AList.update k v xs) = insert (k, v) (set xs)"
  using assms
proof (induction xs)
  case (Cons x xs)
  obtain a b where x: "x = (a, b)" by fastforce
  show ?case
  proof (cases "a = k")
    case True
    have "x = (k, v)"
      by (rule inj_onD [OF Cons.prems(2)]) (simp_all add: x True)
    then have "b = v" by (simp add: x)
    with True show ?thesis by (simp add: x)
  next
    case False
    moreover have "inj_on fst (insert (k, v) (set xs))"
      using Cons.prems(2) by (rule inj_on_subset) auto
    ultimately show ?thesis using Cons by (auto simp: x)
  qed
qed simp

text \<open>All or nothing over a list of options.\<close>

lemma those_map_Some [simp]: "those (map (\<lambda>i. Some (f i)) xs) = Some (map f xs)"
  by (induction xs) auto

lemma those_None: "None \<in> set xs \<Longrightarrow> those xs = None"
  by (induction xs) (auto split: option.splits)

lemma those_cong_Some:
  "(\<And>i. i \<in> set xs \<Longrightarrow> f i = Some (g i)) \<Longrightarrow> those (map f xs) = Some (map g xs)"
  by (induction xs) simp_all

section \<open>Slices cut into pieces\<close>

text \<open>\<^verbatim>\<open>slice.chunks(n)\<close> for \<open>n = Suc k\<close>: pieces of \<open>n\<close> bytes, the last one shorter.\<close>

function chunks_of :: "nat \<Rightarrow> bytes \<Rightarrow> bytes list" where
  "chunks_of k source =
     (if source = [] then [] else take (Suc k) source # chunks_of k (drop (Suc k) source))"
  by pat_completeness auto
termination
  by (relation "measure (\<lambda>(k, source). length source)") auto

declare chunks_of.simps [simp del]

lemma chunks_of_Nil [simp]: "chunks_of k [] = []"
  by (simp add: chunks_of.simps)

lemma chunks_of_step:
  "source \<noteq> [] \<Longrightarrow> chunks_of k source = take (Suc k) source # chunks_of k (drop (Suc k) source)"
  by (subst chunks_of.simps) simp

lemma concat_chunks_of [simp]: "concat (chunks_of k source) = source"
proof (induction k source rule: chunks_of.induct)
  case (1 k source)
  then show ?case by (cases "source = []") (simp_all add: chunks_of_step)
qed

lemma length_chunks_of: "length (chunks_of k source) = div_ceil (length source) (Suc k)"
proof (induction k source rule: chunks_of.induct)
  case (1 k source)
  show ?case
  proof (cases "length source \<le> Suc k")
    case True
    then show ?thesis
      by (cases "source = []") (simp_all add: chunks_of_step div_ceil_small, simp add: div_ceil_def)
  next
    case False
    then have "source \<noteq> []" by auto
    with 1 False div_ceil_step [of "Suc k" "length source"] show ?thesis
      by (simp add: chunks_of_step)
  qed
qed

lemma chunks_of_length:
  "c \<in> set (chunks_of k source) \<Longrightarrow> c \<noteq> [] \<and> length c \<le> Suc k"
proof (induction k source rule: chunks_of.induct)
  case (1 k source)
  then show ?case by (cases "source = []") (auto simp: chunks_of_step)
qed

section \<open>Machines and their invariants\<close>

text \<open>
  Every manager of the program is a task that takes events from a channel one at a time. The
  interface below is what such a task promises: an invariant that holds at the start and that
  each handler keeps. What follows for whole runs is proved once, here.
\<close>

locale event_machine =
  fixes step :: "'s \<Rightarrow> 'e \<Rightarrow> 's"
    and init :: "'s"
    and inv :: "'s \<Rightarrow> bool"
  assumes inv_init: "inv init"
    and inv_step: "inv s \<Longrightarrow> inv (step s e)"
begin

lemma run_inv: "inv s \<Longrightarrow> inv (foldl step s es)"
  by (induction es arbitrary: s) (auto intro: inv_step)

lemma reach_inv: "inv (foldl step init es)"
  by (rule run_inv [OF inv_init])

lemma run_append_inv: "inv (foldl step (foldl step init es) es')"
  by (rule run_inv [OF reach_inv])

end

text \<open>
  A machine whose invariant needs the events to satisfy a condition (an order of iteration,
  a fresh identifier) that may depend on the state.
\<close>

fun run_ok :: "('s \<Rightarrow> 'e \<Rightarrow> 's) \<Rightarrow> ('s \<Rightarrow> 'e \<Rightarrow> bool) \<Rightarrow> 's \<Rightarrow> 'e list \<Rightarrow> bool" where
  "run_ok step ok s [] = True"
| "run_ok step ok s (e # es) = (ok s e \<and> run_ok step ok (step s e) es)"

locale guarded_machine =
  fixes step :: "'s \<Rightarrow> 'e \<Rightarrow> 's"
    and ok :: "'s \<Rightarrow> 'e \<Rightarrow> bool"
    and inv :: "'s \<Rightarrow> bool"
  assumes inv_gstep: "inv s \<Longrightarrow> ok s e \<Longrightarrow> inv (step s e)"
begin

lemma grun_inv: "inv s \<Longrightarrow> run_ok step ok s es \<Longrightarrow> inv (foldl step s es)"
  by (induction es arbitrary: s) (auto intro: inv_gstep)

end

section \<open>Options\<close>

primrec unwrap_or :: "'a \<Rightarrow> 'a option \<Rightarrow> 'a" where
  "unwrap_or d None = d"
| "unwrap_or d (Some x) = x"

end
