(* ===== verification/Buffers.thy ===== *)
theory Buffers
  imports Prelude
begin

text \<open>
  Cursors over byte buffers, as the packet code uses them: big-endian integers
  (\<^verbatim>\<open>uN::to_be_bytes\<close>, \<^verbatim>\<open>uN::from_be_bytes\<close>), a write buffer with a limited capacity
  (\<^verbatim>\<open>BufMut\<close>) and a read cursor that consumes its front (\<^verbatim>\<open>Buf\<close>). Writing past the capacity
  and reading past the end panic, as documented for both traits. The byte order is the one
  that the tests of \<^verbatim>\<open>packet/serialize.rs\<close> and \<^verbatim>\<open>packet/deserialize.rs\<close> fix.
\<close>

section \<open>Big-endian integers\<close>

definition u16_to_be :: "u16 \<Rightarrow> bytes" where
  "u16_to_be x = [ucast (drop_bit 8 x), ucast x]"

definition u32_to_be :: "u32 \<Rightarrow> bytes" where
  "u32_to_be x =
     [ucast (drop_bit 24 x), ucast (drop_bit 16 x), ucast (drop_bit 8 x), ucast x]"

definition u64_to_be :: "u64 \<Rightarrow> bytes" where
  "u64_to_be x =
     [ucast (drop_bit 56 x), ucast (drop_bit 48 x), ucast (drop_bit 40 x), ucast (drop_bit 32 x),
      ucast (drop_bit 24 x), ucast (drop_bit 16 x), ucast (drop_bit 8 x), ucast x]"

text \<open>Reading folds the bytes from the most significant one.\<close>

definition of_be :: "bytes \<Rightarrow> 'w::len word" where
  "of_be bs = foldl (\<lambda>acc b. push_bit 8 acc OR ucast b) 0 bs"

lemma be_step:
  "push_bit 8 (drop_bit (k + 8) x) OR ucast (ucast (drop_bit k x) :: u8)
     = drop_bit k (x :: 'w::len word)"
  by (rule bit_word_eqI)
    (auto simp: bit_simps not_less dest: bit_imp_le_length [where ?'a = 'w])

lemma be_top:
  "LENGTH('w) \<le> k + 8 \<Longrightarrow> ucast (ucast (drop_bit k x) :: u8) = drop_bit k (x :: 'w::len word)"
  by (rule bit_word_eqI) (auto simp: bit_simps dest: bit_imp_le_length)

lemma of_be_u16_to_be [simp]: "(of_be (u16_to_be x) :: u16) = x"
  using be_top [of 8 x] be_step [of 0 x] by (simp add: of_be_def u16_to_be_def)

lemma of_be_u32_to_be [simp]: "(of_be (u32_to_be x) :: u32) = x"
  using be_top [of 24 x] be_step [of 16 x] be_step [of 8 x] be_step [of 0 x]
  by (simp add: of_be_def u32_to_be_def)

lemma of_be_u64_to_be [simp]: "(of_be (u64_to_be x) :: u64) = x"
  using be_top [of 56 x] be_step [of 48 x] be_step [of 40 x] be_step [of 32 x]
    be_step [of 24 x] be_step [of 16 x] be_step [of 8 x] be_step [of 0 x]
  by (simp add: of_be_def u64_to_be_def)

lemma length_u16_to_be [simp, len_simps]: "length (u16_to_be x) = 2"
  by (simp add: u16_to_be_def)

lemma length_u32_to_be [simp, len_simps]: "length (u32_to_be x) = 4"
  by (simp add: u32_to_be_def)

lemma length_u64_to_be [simp, len_simps]: "length (u64_to_be x) = 8"
  by (simp add: u64_to_be_def)

section \<open>Write buffers\<close>

record buf_mut =
  buf_data :: bytes
  buf_cap :: nat

definition remaining_mut :: "buf_mut \<Rightarrow> nat" where
  "remaining_mut b = buf_cap b - length (buf_data b)"

definition put_slice :: "bytes \<Rightarrow> (buf_mut, 'e, unit) comp" where
  "put_slice xs = (\<lambda>b. if length xs \<le> remaining_mut b
     then (Ok (), b\<lparr>buf_data := buf_data b @ xs\<rparr>) else (Panic, b))"

definition put_u8 :: "u8 \<Rightarrow> (buf_mut, 'e, unit) comp" where
  "put_u8 x = put_slice [x]"

definition put_u16 :: "u16 \<Rightarrow> (buf_mut, 'e, unit) comp" where
  "put_u16 x = put_slice (u16_to_be x)"

definition put_u32 :: "u32 \<Rightarrow> (buf_mut, 'e, unit) comp" where
  "put_u32 x = put_slice (u32_to_be x)"

definition put_u64 :: "u64 \<Rightarrow> (buf_mut, 'e, unit) comp" where
  "put_u64 x = put_slice (u64_to_be x)"

definition put_bytes :: "u8 \<Rightarrow> nat \<Rightarrow> (buf_mut, 'e, unit) comp" where
  "put_bytes x n = put_slice (replicate n x)"

text \<open>
  All writers have one contract: with room for \<open>xs\<close> they append exactly \<open>xs\<close>.
\<close>

definition writes :: "(buf_mut, 'e, unit) comp \<Rightarrow> bytes \<Rightarrow> bool" where
  "writes m xs \<longleftrightarrow> (\<forall>b. length xs \<le> remaining_mut b \<longrightarrow>
     m b = (Ok (), b\<lparr>buf_data := buf_data b @ xs\<rparr>))"

lemma writesD:
  "writes m xs \<Longrightarrow> length xs \<le> remaining_mut b \<Longrightarrow>
     m b = (Ok (), b\<lparr>buf_data := buf_data b @ xs\<rparr>)"
  by (simp add: writes_def)

lemma writes_put_slice: "writes (put_slice xs) xs"
  by (simp add: writes_def put_slice_def)

lemma writes_put_u8: "writes (put_u8 x) [x]"
  unfolding put_u8_def by (rule writes_put_slice)

lemma writes_put_u16: "writes (put_u16 x) (u16_to_be x)"
  unfolding put_u16_def by (rule writes_put_slice)

lemma writes_put_u32: "writes (put_u32 x) (u32_to_be x)"
  unfolding put_u32_def by (rule writes_put_slice)

lemma writes_put_u64: "writes (put_u64 x) (u64_to_be x)"
  unfolding put_u64_def by (rule writes_put_slice)

lemma writes_put_bytes: "writes (put_bytes x n) (replicate n x)"
  unfolding put_bytes_def by (rule writes_put_slice)

lemma writes_ret: "writes (ret ()) []"
  by (simp add: writes_def)

lemma remaining_mut_append [simp]:
  "remaining_mut (b\<lparr>buf_data := buf_data b @ xs\<rparr>) = remaining_mut b - length xs"
  by (simp add: remaining_mut_def)

lemma writes_sbind:
  assumes m: "writes m xs" and k: "writes k ys"
  shows "writes (sbind m (\<lambda>_. k)) (xs @ ys)"
  unfolding writes_def
proof (intro allI impI)
  fix b :: buf_mut
  assume l: "length (xs @ ys) \<le> remaining_mut b"
  let ?b = "b\<lparr>buf_data := buf_data b @ xs\<rparr>"
  from l have "m b = (Ok (), ?b)" by (intro writesD [OF m]) simp
  moreover from l have "k ?b = (Ok (), ?b\<lparr>buf_data := buf_data ?b @ ys\<rparr>)"
    by (intro writesD [OF k]) simp
  ultimately show "sbind m (\<lambda>_. k) b = (Ok (), b\<lparr>buf_data := buf_data b @ xs @ ys\<rparr>)"
    by (simp add: sbind_Ok)
qed

lemmas writes_intros = writes_put_slice writes_put_u8 writes_put_u16 writes_put_u32
  writes_put_u64 writes_put_bytes writes_ret writes_sbind

section \<open>Read cursors\<close>

definition advance :: "nat \<Rightarrow> (bytes, 'e, unit) comp" where
  "advance n = (\<lambda>raw. if n \<le> length raw then (Ok (), drop n raw) else (Panic, raw))"

definition copy_to_bytes :: "nat \<Rightarrow> (bytes, 'e, bytes) comp" where
  "copy_to_bytes n = (\<lambda>raw. if n \<le> length raw then (Ok (take n raw), drop n raw) else (Panic, raw))"

definition get_u8 :: "(bytes, 'e, u8) comp" where
  "get_u8 = sbind (copy_to_bytes 1) (\<lambda>bs. ret (of_be bs))"

definition get_u16 :: "(bytes, 'e, u16) comp" where
  "get_u16 = sbind (copy_to_bytes 2) (\<lambda>bs. ret (of_be bs))"

definition get_u32 :: "(bytes, 'e, u32) comp" where
  "get_u32 = sbind (copy_to_bytes 4) (\<lambda>bs. ret (of_be bs))"

lemma of_be_single [simp]: "(of_be [b] :: u8) = b"
  by (simp add: of_be_def)

lemma copy_to_bytes_append [codec_simps]:
  "length xs = n \<Longrightarrow> copy_to_bytes n (xs @ ys) = (Ok xs, ys)"
  by (simp add: copy_to_bytes_def)

lemma get_u8_Cons [codec_simps]: "get_u8 (b # raw) = (Ok b, raw)"
  by (simp add: get_u8_def sbind_def copy_to_bytes_def)

lemma get_u16_append [codec_simps]: "get_u16 (u16_to_be x @ raw) = (Ok x, raw)"
  by (simp add: get_u16_def sbind_def copy_to_bytes_append)

lemma get_u32_append [codec_simps]: "get_u32 (u32_to_be x @ raw) = (Ok x, raw)"
  by (simp add: get_u32_def sbind_def copy_to_bytes_append)

lemma advance_Cons [codec_simps]: "advance (Suc 0) (b # raw) = (Ok (), raw)"
  by (simp add: advance_def)

lemma get_u16_run:
  "get_u16 raw = (if 2 \<le> length raw then (Ok (of_be (take 2 raw)), drop 2 raw) else (Panic, raw))"
  by (simp add: get_u16_def sbind_def copy_to_bytes_def)

lemma get_u32_run:
  "get_u32 raw = (if 4 \<le> length raw then (Ok (of_be (take 4 raw)), drop 4 raw) else (Panic, raw))"
  by (simp add: get_u32_def sbind_def copy_to_bytes_def)

lemma get_u8_run:
  "get_u8 raw = (if 1 \<le> length raw then (Ok (of_be (take 1 raw)), drop 1 raw) else (Panic, raw))"
  by (simp add: get_u8_def sbind_def copy_to_bytes_def)

lemma sbind_get_u8: "1 \<le> length raw \<Longrightarrow> sbind get_u8 f raw = f (of_be (take 1 raw)) (drop 1 raw)"
  by (simp add: sbind_def get_u8_run)

lemma sbind_get_u16: "2 \<le> length raw \<Longrightarrow> sbind get_u16 f raw = f (of_be (take 2 raw)) (drop 2 raw)"
  by (simp add: sbind_def get_u16_run)

lemma sbind_get_u32: "4 \<le> length raw \<Longrightarrow> sbind get_u32 f raw = f (of_be (take 4 raw)) (drop 4 raw)"
  by (simp add: sbind_def get_u32_run)

lemma sbind_advance: "n \<le> length raw \<Longrightarrow> sbind (advance n) f raw = f () (drop n raw)"
  by (simp add: sbind_def advance_def)

lemma sbind_copy_to_bytes:
  "n \<le> length raw \<Longrightarrow> sbind (copy_to_bytes n) f raw = f (take n raw) (drop n raw)"
  by (simp add: sbind_def copy_to_bytes_def)

lemmas cursor_runs = sbind_get_u8 sbind_get_u16 sbind_get_u32 sbind_advance sbind_copy_to_bytes

section \<open>The interface of a fixed-width field\<close>

text \<open>
  What the header code relies on for every field it stores: an encoding of known width and a
  reader that gives back the value and leaves the rest of the buffer. A field can then be
  read back wherever it was written in front of other data.
\<close>

locale fixed_field =
  fixes enc :: "'a \<Rightarrow> bytes"
    and put :: "'a \<Rightarrow> (buf_mut, 'e, unit) comp"
    and get :: "(bytes, 'f, 'a) comp"
    and width :: nat
  assumes put_writes: "writes (put x) (enc x)"
    and get_enc: "get (enc x @ rest) = (Ok x, rest)"
    and enc_width: "length (enc x) = width"
begin

lemma write_then_read:
  assumes "width \<le> remaining_mut b"
  shows "\<exists>b'. put x b = (Ok (), b') \<and> get (drop (length (buf_data b)) (buf_data b') @ rest) = (Ok x, rest)"
  using writesD [OF put_writes, of x b] assms by (simp add: enc_width get_enc)

lemma enc_inject: "enc x = enc y \<longleftrightarrow> x = y"
proof
  assume "enc x = enc y"
  then have "get (enc x @ []) = get (enc y @ [])" by simp
  then show "x = y" by (simp only: get_enc) simp
qed simp

end

interpretation u8_field: fixed_field "\<lambda>x. [x]" put_u8 get_u8 1
  by unfold_locales (simp_all add: writes_put_u8 get_u8_Cons)

interpretation u16_field: fixed_field u16_to_be put_u16 get_u16 2
  by unfold_locales (simp_all add: writes_put_u16 get_u16_append)

interpretation u32_field: fixed_field u32_to_be put_u32 get_u32 4
  by unfold_locales (simp_all add: writes_put_u32 get_u32_append)

end
