(* ===== verification/Handles.thy ===== *)
theory Handles
  imports Prelude
begin

text \<open>
  Track handles and their allocator, \<^verbatim>\<open>livekit-datatrack/src/packet/handle.rs\<close>: a 16-bit
  value that is never zero in a valid packet, its conversions from and to the integers of the
  protocol, and the linear allocator of the local manager.
\<close>

section \<open>Handles\<close>

datatype handle = Handle u16

datatype handle_error = Reserved u16 | TooLarge

fun handle_try_from_u16 :: "u16 \<Rightarrow> (handle_error, handle) rust" where
  "handle_try_from_u16 value = (if value = 0 then Err (Reserved value) else Ok (Handle value))"

definition u16_try_from_u32 :: "u32 \<Rightarrow> (unit, u16) rust" where
  "u16_try_from_u32 value = (if unat value < 2 ^ 16 then Ok (ucast value) else Err ())"

definition handle_try_from_u32 :: "u32 \<Rightarrow> (handle_error, handle) rust" where
  "handle_try_from_u32 value =
     rbind (map_err (\<lambda>_. TooLarge) (u16_try_from_u32 value)) handle_try_from_u16"

fun u16_from_handle :: "handle \<Rightarrow> u16" where
  "u16_from_handle (Handle v) = v"

fun u32_from_handle :: "handle \<Rightarrow> u32" where
  "u32_from_handle (Handle v) = ucast v"

definition valid_handle :: "handle \<Rightarrow> bool" where
  "valid_handle h \<longleftrightarrow> u16_from_handle h \<noteq> 0"

lemma handle_try_from_u16_valid:
  "handle_try_from_u16 v = Ok h \<Longrightarrow> valid_handle h"
  by (auto simp: valid_handle_def split: if_splits)

lemma handle_u16_roundtrip: "valid_handle h \<Longrightarrow> handle_try_from_u16 (u16_from_handle h) = Ok h"
  by (cases h) (simp add: valid_handle_def)

lemma unat_ucast_u16_u32 [simp]: "unat (ucast (v :: u16) :: u32) = unat v"
proof -
  have "unat v < 2 ^ 16" using unsigned_less [of v, where ?'a = nat] by simp
  then have "unat v < 2 ^ 32" by simp
  then have "take_bit 32 (unat v) = unat v" by (rule take_bit_nat_eq_self)
  then show ?thesis by (simp add: unsigned_ucast_eq)
qed

lemma ucast_down_u16 [simp]: "ucast (ucast (v :: u16) :: u32) = v"
  by (rule bit_word_eqI) (auto simp: bit_simps dest: bit_imp_le_length)

lemma u16_lt: "unat (v :: u16) < 65536"
  using unsigned_less [of v] by simp

lemma handle_u32_roundtrip: "valid_handle h \<Longrightarrow> handle_try_from_u32 (u32_from_handle h) = Ok h"
  by (cases h) (simp add: handle_try_from_u32_def u16_try_from_u32_def u16_lt valid_handle_def)

lemma handle_try_from_u32_Ok_iff:
  "handle_try_from_u32 v = Ok h \<longleftrightarrow> v \<noteq> 0 \<and> unat v < 65536 \<and> h = Handle (ucast v)"
proof (cases "unat v < 65536")
  case True
  have "(ucast v :: u16) = 0 \<longleftrightarrow> v = 0"
  proof
    assume "(ucast v :: u16) = 0"
    then have "unat (ucast v :: u16) = 0" by simp
    with True have "unat v = 0" by (simp add: unsigned_ucast_eq take_bit_eq_mod)
    then show "v = 0" by (metis unsigned_0 unsigned_word_eqI)
  qed simp
  with True show ?thesis
    by (auto simp: handle_try_from_u32_def u16_try_from_u32_def split: if_splits)
next
  case False
  then show ?thesis by (simp add: handle_try_from_u32_def u16_try_from_u32_def)
qed

lemma handle_try_from_u32_inverse:
  assumes "handle_try_from_u32 v = Ok h"
  shows "u32_from_handle h = v" and "valid_handle h"
proof -
  from assms have v: "v \<noteq> 0" "unat v < 65536" and h: "h = Handle (ucast v)"
    by (simp_all add: handle_try_from_u32_Ok_iff)
  have "unat (ucast v :: u16) = unat v"
    using v(2) by (simp add: unsigned_ucast_eq take_bit_nat_eq_self)
  then have "unat (u32_from_handle h) = unat v" by (simp add: h)
  then show "u32_from_handle h = v" by (rule unsigned_word_eqI)
  then show "valid_handle h" using v(1) by (auto simp: valid_handle_def h)
qed

section \<open>The allocator\<close>

record handle_allocator =
  alloc_value :: u16

definition new_allocator :: handle_allocator where
  "new_allocator = \<lparr>alloc_value = 0\<rparr>"

definition allocator_get :: "handle_allocator \<Rightarrow> handle option \<times> handle_allocator" where
  "allocator_get a =
     (case checked_add (alloc_value a) 1 of
        None \<Rightarrow> (None, a)
      | Some v \<Rightarrow> (Some (Handle v), a\<lparr>alloc_value := v\<rparr>))"

text \<open>A sequence of \<open>n\<close> calls, with the results in order.\<close>

fun allocator_gets :: "nat \<Rightarrow> handle_allocator \<Rightarrow> handle option list \<times> handle_allocator" where
  "allocator_gets 0 a = ([], a)"
| "allocator_gets (Suc n) a =
     (let (h, a') = allocator_get a; (hs, a'') = allocator_gets n a' in (h # hs, a''))"

lemma unat_plus_one_u16: "unat (v :: u16) < 65535 \<Longrightarrow> unat (v + 1) = Suc (unat v)"
  by (simp add: unat_word_ariths)

lemma allocator_get_cases:
  "allocator_get a =
     (if unat (alloc_value a) < 65535
      then (Some (Handle (alloc_value a + 1)), a\<lparr>alloc_value := alloc_value a + 1\<rparr>)
      else (None, a))"
  by (simp add: allocator_get_def checked_add_def)

lemma allocator_get_Some:
  assumes "allocator_get a = (Some h, a')"
  shows "unat (u16_from_handle h) = Suc (unat (alloc_value a))"
    and "alloc_value a' = u16_from_handle h"
    and "valid_handle h"
proof -
  from assms have lt: "unat (alloc_value a) < 65535"
    and h: "h = Handle (alloc_value a + 1)" and a': "alloc_value a' = alloc_value a + 1"
    by (auto simp: allocator_get_cases split: if_splits)
  show u: "unat (u16_from_handle h) = Suc (unat (alloc_value a))"
    using unat_plus_one_u16 [OF lt] by (simp add: h)
  show "alloc_value a' = u16_from_handle h" by (simp add: h a')
  from u have "unat (u16_from_handle h) \<noteq> unat (0 :: u16)" by simp
  then show "valid_handle h" unfolding valid_handle_def by metis
qed

lemma allocator_get_None:
  "fst (allocator_get a) = None \<longleftrightarrow> unat (alloc_value a) = 65535"
  using u16_lt [of "alloc_value a"] by (auto simp: allocator_get_cases)

lemma allocator_gets_value:
  "allocator_gets n a = (hs, a') \<Longrightarrow>
     unat (alloc_value a') = min 65535 (unat (alloc_value a) + n)"
proof (induction n arbitrary: a hs)
  case 0
  then show ?case using u16_lt [of "alloc_value a"] by simp
next
  case (Suc n)
  obtain h b where g: "allocator_get a = (h, b)" by fastforce
  obtain hs' where r: "allocator_gets n b = (hs', a')"
    using Suc.prems g by (auto simp: Let_def split: prod.splits)
  from Suc.IH [OF r] show ?case
    using g u16_lt [of "alloc_value a"] unat_plus_one_u16 [of "alloc_value a"]
    by (auto simp: allocator_get_cases split: if_splits)
qed

text \<open>The handles that \<open>n\<close> calls give are the consecutive values after the current one.\<close>

lemma allocator_gets_values:
  "allocator_gets n a = (hs, a') \<Longrightarrow>
     map (\<lambda>h. unat (u16_from_handle h)) (List.map_filter id hs)
       = [Suc (unat (alloc_value a)) ..< Suc (min 65535 (unat (alloc_value a) + n))]"
proof (induction n arbitrary: a hs)
  case 0
  then show ?case using u16_lt [of "alloc_value a"] by (simp add: map_filter_simps)
next
  case (Suc n)
  obtain h b where g: "allocator_get a = (h, b)" by fastforce
  obtain hs' where r: "allocator_gets n b = (hs', a')" and hs: "hs = h # hs'"
    using Suc.prems g by (auto simp: Let_def split: prod.splits)
  show ?case
  proof (cases "unat (alloc_value a) < 65535")
    case True
    with g have h: "h = Some (Handle (alloc_value a + 1))"
      and b: "unat (alloc_value b) = Suc (unat (alloc_value a))"
      using unat_plus_one_u16 by (auto simp: allocator_get_cases)
    have k: "min 65535 (unat (alloc_value b) + n) = min 65535 (unat (alloc_value a) + Suc n)"
      unfolding b by simp
    note ih = Suc.IH [OF r, unfolded k b]
    have "Suc (unat (alloc_value a)) < Suc (min 65535 (unat (alloc_value a) + Suc n))"
      using True by simp
    from upt_conv_Cons [OF this] ih h True show ?thesis
      by (simp only: hs map_filter_simps list.map id_apply option.case u16_from_handle.simps
          unat_plus_one_u16 add_Suc add_Suc_right)
  next
    case False
    with g have "h = None" and "b = a" by (auto simp: allocator_get_cases)
    with Suc.IH [OF r] False show ?thesis
      using u16_lt [of "alloc_value a"] by (simp add: hs map_filter_simps)
  qed
qed

text \<open>
  Allocation never repeats a handle and never gives the reserved value: the handles that
  any number of calls on a fresh allocator return are distinct, valid, and as many as were
  asked for up to 65535; from then on every call reports exhaustion.
\<close>

lemma allocator_unique:
  "let (hs, a) = allocator_gets n new_allocator; got = List.map_filter id hs in
     distinct got \<and> (\<forall>h \<in> set got. valid_handle h) \<and> length got = min 65535 n
     \<and> (fst (allocator_get a) = None \<longleftrightarrow> 65535 \<le> n)"
proof -
  obtain hs a where g: "allocator_gets n new_allocator = (hs, a)" by fastforce
  let ?got = "List.map_filter id hs"
  let ?f = "\<lambda>h. unat (u16_from_handle h)"
  have v: "map ?f ?got = [1 ..< Suc (min 65535 n)]"
    using allocator_gets_values [OF g] by (simp add: new_allocator_def)
  then have "distinct (map ?f ?got)" by simp
  then have "distinct ?got" by (simp add: distinct_map)
  moreover have "valid_handle h" if "h \<in> set ?got" for h
  proof -
    from that have "?f h \<in> set (map ?f ?got)" by simp
    then have "?f h \<in> {1 ..< Suc (min 65535 n)}" unfolding v by (simp only: set_upt)
    then have "?f h \<noteq> 0" by (simp only: atLeastLessThan_iff) linarith
    then show ?thesis unfolding valid_handle_def by (metis unat_0)
  qed
  moreover have "length ?got = min 65535 n"
    using arg_cong [OF v, of length] by simp
  moreover have "fst (allocator_get a) = None \<longleftrightarrow> 65535 \<le> n"
    using allocator_gets_value [OF g] by (auto simp: allocator_get_None new_allocator_def)
  ultimately show ?thesis by (simp add: g)
qed

lemma allocator_unique_witness:
  "let (hs, a) = allocator_gets 70000 new_allocator; got = List.map_filter id hs in
     distinct got \<and> length got = 65535 \<and> fst (allocator_get a) = None"
  using allocator_unique [of 70000] by (auto simp: Let_def split: prod.splits)

end
