(* ===== verification/Clocks.thy ===== *)
theory Clocks
  imports Prelude
begin

text \<open>
  Packet timestamps and the clock that produces them,
  \<^verbatim>\<open>livekit-datatrack/src/packet/time.rs\<close>. An \<^verbatim>\<open>Instant\<close> is a number of nanoseconds;
  \<^verbatim>\<open>duration_since\<close> saturates at zero, as the standard library documents. The rate is the
  \<^verbatim>\<open>const RATE\<close> parameter of the source; the packetizer uses 90000.
\<close>

type_synonym instant = nat

datatype timestamp = Timestamp u32

definition from_ticks :: "u32 \<Rightarrow> timestamp" where
  "from_ticks ticks = Timestamp ticks"

primrec as_ticks :: "timestamp \<Rightarrow> u32" where
  "as_ticks (Timestamp t) = t"

text \<open>\<^verbatim>\<open>Timestamp::random\<close>: the random number is drawn by the \<^verbatim>\<open>rand\<close> crate and passed in.\<close>

definition timestamp_random :: "u32 \<Rightarrow> timestamp" where
  "timestamp_random r = from_ticks r"

definition is_before :: "timestamp \<Rightarrow> timestamp \<Rightarrow> bool" where
  "is_before a b \<longleftrightarrow> sint (as_ticks a - as_ticks b) < 0"

definition timestamp_wrapping_add :: "timestamp \<Rightarrow> u32 \<Rightarrow> timestamp" where
  "timestamp_wrapping_add a ticks = Timestamp (as_ticks a + ticks)"

record clock =
  epoch :: instant
  clock_base :: timestamp
  clock_prev :: timestamp

definition clock_with_epoch :: "instant \<Rightarrow> timestamp \<Rightarrow> clock" where
  "clock_with_epoch e base = \<lparr>epoch = e, clock_base = base, clock_prev = base\<rparr>"

text \<open>\<^verbatim>\<open>Clock::new\<close>, with \<^verbatim>\<open>Instant::now()\<close> passed in.\<close>

definition clock_new :: "instant \<Rightarrow> timestamp \<Rightarrow> clock" where
  "clock_new now base = clock_with_epoch now base"

definition tick_count :: "nat \<Rightarrow> nat \<Rightarrow> nat" where
  "tick_count rate nanos = (nanos * rate + 500000000) div 1000000000"

definition duration_to_ticks :: "nat \<Rightarrow> nat \<Rightarrow> u32" where
  "duration_to_ticks rate nanos = word_of_nat (tick_count rate nanos)"

definition clock_at :: "nat \<Rightarrow> clock \<Rightarrow> instant \<Rightarrow> timestamp \<times> clock" where
  "clock_at rate c t =
     (let elapsed = t - epoch c;
          ticks = duration_to_ticks rate elapsed;
          ts = timestamp_wrapping_add (clock_base c) ticks;
          ts = (if is_before ts (clock_prev c) then clock_prev c else ts)
      in (ts, c\<lparr>clock_prev := ts\<rparr>))"

text \<open>\<^verbatim>\<open>Clock::now\<close>.\<close>

definition clock_now :: "nat \<Rightarrow> clock \<Rightarrow> instant \<Rightarrow> timestamp \<times> clock" where
  "clock_now rate c now = clock_at rate c now"

section \<open>Rounding\<close>

text \<open>
  The tick count is the elapsed time times the rate, rounded to the nearest integer: the
  error is at most half a tick.
\<close>

lemma tick_count_nearest:
  "\<bar>int (tick_count rate nanos) * 1000000000 - int (nanos * rate)\<bar> \<le> 500000000"
proof -
  have "int (tick_count rate nanos) = int (nanos * rate + 500000000) div 1000000000"
    by (simp add: tick_count_def zdiv_int)
  then show ?thesis by linarith
qed

lemma tick_count_mono: "m \<le> n \<Longrightarrow> tick_count rate m \<le> tick_count rate n"
  by (simp add: tick_count_def div_le_mono)

lemma tick_count_0 [simp]: "tick_count rate 0 = 0"
  by (simp add: tick_count_def)

section \<open>The clock never runs backwards\<close>

lemma is_before_irrefl [simp]: "\<not> is_before a a"
  by (simp add: is_before_def)

lemma clock_at_frame [simp]:
  "epoch (snd (clock_at rate c t)) = epoch c"
  "clock_base (snd (clock_at rate c t)) = clock_base c"
  by (simp_all add: clock_at_def Let_def)

lemma clock_at_prev [simp]: "clock_prev (snd (clock_at rate c t)) = fst (clock_at rate c t)"
  by (simp add: clock_at_def Let_def)

lemma clock_at_not_before: "\<not> is_before (fst (clock_at rate c t)) (clock_prev c)"
  by (simp add: clock_at_def Let_def)

lemma sint_sub_word_of_nat:
  assumes "m \<le> n"
  shows "sint (word_of_nat n - word_of_nat m :: u32) = signed_take_bit 31 (int (n - m))"
proof -
  have "word_of_nat n - word_of_nat m = (word_of_nat (n - m) :: u32)"
    using assms by (simp add: of_nat_diff)
  then show ?thesis by (simp add: signed_of_nat)
qed

text \<open>
  Between two calls, what the clock reports depends on how far the tick count moved: less
  than \<open>2 ^ 31\<close> ticks forward and the new timestamp is exact.
\<close>

lemma clock_at_exact:
  assumes prev: "clock_prev c = timestamp_wrapping_add (clock_base c) (word_of_nat m)"
    and "m \<le> tick_count rate (t - epoch c)"
    and "tick_count rate (t - epoch c) - m < 2 ^ 31"
  shows "fst (clock_at rate c t)
    = timestamp_wrapping_add (clock_base c) (word_of_nat (tick_count rate (t - epoch c)))"
proof -
  let ?n = "tick_count rate (t - epoch c)"
  let ?d = "int (?n - m)"
  have "signed_take_bit 31 ?d = ?d"
    using assms(3) by (intro signed_take_bit_int_eq_self) (auto simp: nat_less_iff)
  then have "sint (word_of_nat ?n - word_of_nat m :: u32) = ?d"
    using sint_sub_word_of_nat [OF assms(2)] by simp
  then show ?thesis
    by (simp add: clock_at_def Let_def duration_to_ticks_def is_before_def prev
        timestamp_wrapping_add_def)
qed

lemma signed_take_bit_upper_half:
  assumes "2 ^ 31 \<le> (d :: int)" and "d < 2 ^ 32"
  shows "signed_take_bit 31 d = d - 2 ^ 32"
proof -
  have "signed_take_bit 31 d = take_bit 32 (d + 2 ^ 31) - 2 ^ 31"
    by (simp add: signed_take_bit_eq_take_bit_shift)
  also have "take_bit 32 (d + 2 ^ 31) = (d + 2 ^ 31 - 2 ^ 32) mod 2 ^ 32"
    unfolding take_bit_eq_mod by (simp only: minus_mod_self2)
  also have "\<dots> = d + 2 ^ 31 - 2 ^ 32"
    using assms by (intro mod_pos_pos_trivial) simp_all
  finally show ?thesis by simp
qed

text \<open>
  Between \<open>2 ^ 31\<close> and \<open>2 ^ 32\<close> ticks forward and the new timestamp looks older than the
  previous one, so the clock repeats the previous one.
\<close>

lemma clock_at_stale:
  assumes prev: "clock_prev c = timestamp_wrapping_add (clock_base c) (word_of_nat m)"
    and "m \<le> tick_count rate (t - epoch c)"
    and lo: "2 ^ 31 \<le> tick_count rate (t - epoch c) - m"
    and hi: "tick_count rate (t - epoch c) - m < 2 ^ 32"
  shows "fst (clock_at rate c t) = clock_prev c"
proof -
  let ?n = "tick_count rate (t - epoch c)"
  let ?d = "int (?n - m)"
  have lo': "2 ^ 31 \<le> ?d" and hi': "?d < 2 ^ 32" using lo hi by (simp_all add: nat_le_iff nat_less_iff)
  have "signed_take_bit 31 ?d = ?d - 2 ^ 32"
    using lo' hi' by (rule signed_take_bit_upper_half)
  then have "sint (word_of_nat ?n - word_of_nat m :: u32) < 0"
    using sint_sub_word_of_nat [OF assms(2)] hi' by simp
  then show ?thesis
    by (simp add: clock_at_def Let_def duration_to_ticks_def is_before_def prev
        timestamp_wrapping_add_def)
qed

text \<open>
  The clock is exact and monotonic as long as it is asked often enough: if the previous
  reading was exact and fewer than \<open>2 ^ 31\<close> ticks have passed since, the next reading is
  the base plus the rounded elapsed ticks (modulo \<open>2 ^ 32\<close>) and is not before the previous.
\<close>

lemma clock_reading_exact:
  assumes "s \<le> t"
    and "clock_prev c
      = timestamp_wrapping_add (clock_base c) (duration_to_ticks rate (s - epoch c))"
    and "tick_count rate (t - epoch c) - tick_count rate (s - epoch c) < 2 ^ 31"
  shows "fst (clock_at rate c t)
      = timestamp_wrapping_add (clock_base c) (duration_to_ticks rate (t - epoch c))
    \<and> \<not> is_before (fst (clock_at rate c t)) (clock_prev c)"
proof -
  have "tick_count rate (s - epoch c) \<le> tick_count rate (t - epoch c)"
    using assms(1) by (intro tick_count_mono) simp
  then have "fst (clock_at rate c t)
      = timestamp_wrapping_add (clock_base c) (duration_to_ticks rate (t - epoch c))"
    using assms(2,3) clock_at_exact [of c "tick_count rate (s - epoch c)" rate t]
    by (simp add: duration_to_ticks_def)
  with clock_at_not_before show ?thesis by blast
qed

text \<open>The hypotheses hold for a fresh clock asked 100 milliseconds after its epoch.\<close>

lemma clock_reading_exact_witness:
  "fst (clock_at 90000 (clock_with_epoch 0 (Timestamp 1234)) 100000000) = Timestamp 10234"
proof -
  let ?c = "clock_with_epoch 0 (Timestamp 1234)"
  have "fst (clock_at 90000 ?c 100000000)
      = timestamp_wrapping_add (clock_base ?c) (duration_to_ticks 90000 (100000000 - epoch ?c))
    \<and> \<not> is_before (fst (clock_at 90000 ?c 100000000)) (clock_prev ?c)"
    by (rule clock_reading_exact [where s = 0])
      (simp_all add: clock_with_epoch_def timestamp_wrapping_add_def duration_to_ticks_def
        tick_count_def)
  then show ?thesis
    by (simp add: clock_with_epoch_def timestamp_wrapping_add_def duration_to_ticks_def
        tick_count_def)
qed

text \<open>
  After a long silence the clock repeats an old timestamp: when between \<open>2 ^ 31\<close> and
  \<open>2 ^ 32\<close> ticks have passed since an exact reading (6.6 to 13.2 hours at 90 kHz), the next
  reading is the previous one, not the current time.
\<close>

lemma clock_stale_after_gap:
  assumes "s \<le> t"
    and "clock_prev c
      = timestamp_wrapping_add (clock_base c) (duration_to_ticks rate (s - epoch c))"
    and "2 ^ 31 \<le> tick_count rate (t - epoch c) - tick_count rate (s - epoch c)"
    and "tick_count rate (t - epoch c) - tick_count rate (s - epoch c) < 2 ^ 32"
  shows "fst (clock_at rate c t) = clock_prev c"
proof (rule clock_at_stale)
  show "tick_count rate (s - epoch c) \<le> tick_count rate (t - epoch c)"
    using assms(1) by (intro tick_count_mono) simp
qed (use assms in \<open>simp_all add: duration_to_ticks_def\<close>)

text \<open>Seven hours after the first frame the timestamp is still the one of the first frame.\<close>

lemma clock_stale_after_gap_witness:
  "fst (clock_at 90000 (clock_with_epoch 0 (Timestamp 1234)) (7 * 3600 * 1000000000))
     = Timestamp 1234"
proof -
  let ?c = "clock_with_epoch 0 (Timestamp 1234)"
  have "fst (clock_at 90000 ?c (7 * 3600 * 1000000000)) = clock_prev ?c"
    by (rule clock_stale_after_gap [where s = 0])
      (simp_all add: clock_with_epoch_def timestamp_wrapping_add_def duration_to_ticks_def
        tick_count_def)
  then show ?thesis by (simp add: clock_with_epoch_def)
qed

end
