(* ===== verification/Packets.thy ===== *)
theory Packets
  imports Buffers Handles Clocks
begin

text \<open>
  The data track packet: its data (\<^verbatim>\<open>packet/mod.rs\<close>, \<^verbatim>\<open>packet/extension.rs\<close>), the writer
  (\<^verbatim>\<open>packet/serialize.rs\<close>) and the reader (\<^verbatim>\<open>packet/deserialize.rs\<close>). The lemmas compute what
  the writer emits, show that neither side panics, and that the reader inverts the writer.
\<close>

section \<open>Data\<close>

datatype frame_marker = Start | Inter | Final | Single

datatype user_timestamp_ext = UserTimestampExt u64

record e2ee_ext =
  key_index :: u8
  iv :: bytes

record extensions =
  user_timestamp :: "user_timestamp_ext option"
  e2ee :: "e2ee_ext option"

definition extensions_default :: extensions where
  "extensions_default = \<lparr>user_timestamp = None, e2ee = None\<rparr>"

record header =
  marker :: frame_marker
  track_handle :: handle
  sequence :: u16
  frame_number :: u16
  timestamp_of :: timestamp
  extensions_of :: extensions

record packet =
  pkt_header :: header
  pkt_payload :: bytes

text \<open>
  The invariants of the Rust types: a handle is never zero and the initialisation vector
  has the length of its array type.
\<close>

definition wf_extensions :: "extensions \<Rightarrow> bool" where
  "wf_extensions x \<longleftrightarrow> (case e2ee x of None \<Rightarrow> True | Some v \<Rightarrow> length (iv v) = 12)"

definition wf_header :: "header \<Rightarrow> bool" where
  "wf_header h \<longleftrightarrow> valid_handle (track_handle h) \<and> wf_extensions (extensions_of h)"

definition wf_packet :: "packet \<Rightarrow> bool" where
  "wf_packet p \<longleftrightarrow> wf_header (pkt_header p)"

section \<open>Constants of the format\<close>

definition SUPPORTED_VERSION :: u8 where "SUPPORTED_VERSION = 0"
definition BASE_HEADER_LEN :: nat where "BASE_HEADER_LEN = 12"
definition VERSION_SHIFT :: nat where "VERSION_SHIFT = 5"
definition VERSION_MASK :: u8 where "VERSION_MASK = 7"
definition FRAME_MARKER_SHIFT :: nat where "FRAME_MARKER_SHIFT = 3"
definition FRAME_MARKER_MASK :: u8 where "FRAME_MARKER_MASK = 3"
definition FRAME_MARKER_START :: u8 where "FRAME_MARKER_START = 2"
definition FRAME_MARKER_FINAL :: u8 where "FRAME_MARKER_FINAL = 1"
definition FRAME_MARKER_INTER :: u8 where "FRAME_MARKER_INTER = 0"
definition FRAME_MARKER_SINGLE :: u8 where "FRAME_MARKER_SINGLE = 3"
definition EXT_WORDS_INDICATOR_SIZE :: nat where "EXT_WORDS_INDICATOR_SIZE = 2"
definition EXT_FLAG_SHIFT :: nat where "EXT_FLAG_SHIFT = 2"
definition EXT_FLAG_MASK :: u8 where "EXT_FLAG_MASK = 1"
definition EXT_MARKER_LEN :: nat where "EXT_MARKER_LEN = 2"
definition EXT_TAG_PADDING :: u8 where "EXT_TAG_PADDING = 0"
definition E2EE_TAG :: u8 where "E2EE_TAG = 1"
definition E2EE_LEN :: nat where "E2EE_LEN = 13"
definition USER_TIMESTAMP_TAG :: u8 where "USER_TIMESTAMP_TAG = 2"
definition USER_TIMESTAMP_LEN :: nat where "USER_TIMESTAMP_LEN = 8"

lemmas format_consts = SUPPORTED_VERSION_def BASE_HEADER_LEN_def VERSION_SHIFT_def
  VERSION_MASK_def FRAME_MARKER_SHIFT_def FRAME_MARKER_MASK_def FRAME_MARKER_START_def
  FRAME_MARKER_FINAL_def FRAME_MARKER_INTER_def FRAME_MARKER_SINGLE_def
  EXT_WORDS_INDICATOR_SIZE_def EXT_FLAG_SHIFT_def EXT_FLAG_MASK_def EXT_MARKER_LEN_def
  EXT_TAG_PADDING_def E2EE_TAG_def E2EE_LEN_def USER_TIMESTAMP_TAG_def USER_TIMESTAMP_LEN_def

section \<open>The writer\<close>

datatype serialize_error = TooSmallForHeader | TooSmallForPayload

definition extensions_serialized_len :: "extensions \<Rightarrow> nat" where
  "extensions_serialized_len x =
     (let len = 0;
          len = (if e2ee x \<noteq> None then len + (EXT_MARKER_LEN + E2EE_LEN) else len);
          len = (if user_timestamp x \<noteq> None then len + (EXT_MARKER_LEN + USER_TIMESTAMP_LEN) else len)
      in len)"

record header_metrics =
  ext_len :: nat
  ext_words :: nat
  padding_len :: nat

definition metrics_serialized_len :: "header_metrics \<Rightarrow> nat" where
  "metrics_serialized_len m =
     (if ext_len m > 0
      then BASE_HEADER_LEN + (EXT_WORDS_INDICATOR_SIZE + ext_len m + padding_len m)
      else BASE_HEADER_LEN)"

definition header_metrics_of :: "header \<Rightarrow> header_metrics" where
  "header_metrics_of h =
     (let el = extensions_serialized_len (extensions_of h);
          ew = div_ceil el 4
      in \<lparr>ext_len = el, ext_words = ew, padding_len = ew * 4 - el\<rparr>)"

definition header_serialized_len :: "header \<Rightarrow> nat" where
  "header_serialized_len h = metrics_serialized_len (header_metrics_of h)"

definition packet_serialized_len :: "packet \<Rightarrow> nat" where
  "packet_serialized_len p = header_serialized_len (pkt_header p) + length (pkt_payload p)"

definition e2ee_serialize_into :: "e2ee_ext \<Rightarrow> (buf_mut, 'e, unit) comp" where
  "e2ee_serialize_into x =
     sbind (put_u8 E2EE_TAG) (\<lambda>_.
     sbind (put_u8 (word_of_nat E2EE_LEN)) (\<lambda>_.
     sbind (put_u8 (key_index x)) (\<lambda>_.
     put_slice (iv x))))"

fun user_timestamp_serialize_into :: "user_timestamp_ext \<Rightarrow> (buf_mut, 'e, unit) comp" where
  "user_timestamp_serialize_into (UserTimestampExt v) =
     sbind (put_u8 USER_TIMESTAMP_TAG) (\<lambda>_.
     sbind (put_u8 (word_of_nat USER_TIMESTAMP_LEN)) (\<lambda>_.
     put_u64 v))"

definition extensions_serialize_into :: "extensions \<Rightarrow> (buf_mut, 'e, unit) comp" where
  "extensions_serialize_into x =
     sbind (case e2ee x of Some v \<Rightarrow> e2ee_serialize_into v | None \<Rightarrow> ret ()) (\<lambda>_.
     (case user_timestamp x of Some v \<Rightarrow> user_timestamp_serialize_into v | None \<Rightarrow> ret ()))"

fun marker_bits :: "frame_marker \<Rightarrow> u8" where
  "marker_bits Single = FRAME_MARKER_SINGLE"
| "marker_bits Start = FRAME_MARKER_START"
| "marker_bits Inter = FRAME_MARKER_INTER"
| "marker_bits Final = FRAME_MARKER_FINAL"

definition initial_byte :: "frame_marker \<Rightarrow> bool \<Rightarrow> u8" where
  "initial_byte m has_ext =
     (let initial = push_bit VERSION_SHIFT SUPPORTED_VERSION;
          initial = initial OR push_bit FRAME_MARKER_SHIFT (marker_bits m)
      in if has_ext then initial OR push_bit EXT_FLAG_SHIFT 1 else initial)"

definition ext_block_serialize_into :: "header_metrics \<Rightarrow> extensions \<Rightarrow> (buf_mut, 'e, unit) comp" where
  "ext_block_serialize_into metrics x =
     (if ext_len metrics > 0
      then sbind (put_u16 (word_of_nat (ext_words metrics - 1))) (\<lambda>_.
           sbind (extensions_serialize_into x) (\<lambda>_.
           put_bytes 0 (padding_len metrics)))
      else ret ())"

definition header_serialize_into :: "header \<Rightarrow> (buf_mut, serialize_error, nat) comp" where
  "header_serialize_into h =
     (let metrics = header_metrics_of h; serialized_len = metrics_serialized_len metrics in
      sbind (gets remaining_mut) (\<lambda>remaining_initial.
      if remaining_initial < serialized_len then throw TooSmallForHeader else
      sbind (put_u8 (initial_byte (marker h) (ext_len metrics > 0))) (\<lambda>_.
      sbind (put_u8 0) (\<lambda>_.
      sbind (put_u16 (u16_from_handle (track_handle h))) (\<lambda>_.
      sbind (put_u16 (sequence h)) (\<lambda>_.
      sbind (put_u16 (frame_number h)) (\<lambda>_.
      sbind (put_u32 (as_ticks (timestamp_of h))) (\<lambda>_.
      sbind (ext_block_serialize_into metrics (extensions_of h)) (\<lambda>_.
      sbind (gets remaining_mut) (\<lambda>remaining_now.
      sbind (assert_that (remaining_initial - remaining_now = serialized_len)) (\<lambda>_.
      ret serialized_len)))))))))))"

definition packet_serialize_into :: "packet \<Rightarrow> (buf_mut, serialize_error, nat) comp" where
  "packet_serialize_into p =
     (let payload_len = length (pkt_payload p) in
      sbind (header_serialize_into (pkt_header p)) (\<lambda>header_len.
      sbind (gets remaining_mut) (\<lambda>remaining.
      if remaining < payload_len then throw TooSmallForPayload else
      sbind (put_slice (pkt_payload p)) (\<lambda>_.
      ret (header_len + payload_len)))))"

text \<open>
  \<^verbatim>\<open>Packet::serialize\<close> writes into a fresh buffer of exactly the serialized length, unwraps
  the result and asserts the number of bytes written. The buffer here cannot grow beyond that length,
  as \<^verbatim>\<open>BytesMut\<close> could, so that a wrong length shows as a panic.
\<close>

definition packet_serialize :: "packet \<Rightarrow> (serialize_error, bytes) rust" where
  "packet_serialize p =
     (let len = packet_serialized_len p;
          buf = \<lparr>buf_data = [], buf_cap = len\<rparr>
      in case packet_serialize_into p buf of
           (Ok written, buf') \<Rightarrow> (if written = len then Ok (buf_data buf') else Panic)
         | (Err e, buf') \<Rightarrow> Panic
         | (Panic, buf') \<Rightarrow> Panic)"

section \<open>The reader\<close>

datatype deserialize_error =
    TooShort
  | HeaderOverrun
  | MissingExtWords
  | UnsupportedVersion u8
  | InvalidHandle handle_error
  | MalformedExt u8

definition e2ee_deserialize :: "bytes \<Rightarrow> e2ee_ext" where
  "e2ee_deserialize raw = \<lparr>key_index = raw ! 0, iv = take 12 (drop 1 raw)\<rparr>"

definition user_timestamp_deserialize :: "bytes \<Rightarrow> user_timestamp_ext" where
  "user_timestamp_deserialize raw = UserTimestampExt (of_be raw)"

text \<open>
  \<^verbatim>\<open>deserialize_ext!\<close>: it checks the announced length, copies the bytes it knows and skips the
  extra ones. The subtraction panics when it would wrap, the reads when the buffer runs out.
\<close>

definition deserialize_ext :: "u8 \<Rightarrow> nat \<Rightarrow> nat \<Rightarrow> (bytes, deserialize_error, bytes) comp" where
  "deserialize_ext ext_tag known_len len =
     sbind (gets length) (\<lambda>remaining.
     if remaining < len then throw (MalformedExt ext_tag) else
     sbind (copy_to_bytes known_len) (\<lambda>buf.
     sbind (lift (if known_len \<le> len then Ok (len - known_len) else Panic)) (\<lambda>extra_bytes.
     sbind (if extra_bytes > 0 then advance extra_bytes else ret ()) (\<lambda>_.
     ret buf))))"

text \<open>One iteration of the loop of \<^verbatim>\<open>Extensions::deserialize\<close>, and the loop.\<close>

definition read_extension :: "extensions \<Rightarrow> (bytes, deserialize_error, extensions) comp" where
  "read_extension x =
     sbind get_u8 (\<lambda>tag.
     sbind get_u8 (\<lambda>len8.
     let len = unat len8 in
     if tag = EXT_TAG_PADDING then ret x
     else if tag = E2EE_TAG \<and> E2EE_LEN \<le> len then
       sbind (deserialize_ext E2EE_TAG E2EE_LEN len) (\<lambda>buf. ret (x\<lparr>e2ee := Some (e2ee_deserialize buf)\<rparr>))
     else if tag = USER_TIMESTAMP_TAG \<and> USER_TIMESTAMP_LEN \<le> len then
       sbind (deserialize_ext USER_TIMESTAMP_TAG USER_TIMESTAMP_LEN len) (\<lambda>buf.
         ret (x\<lparr>user_timestamp := Some (user_timestamp_deserialize buf)\<rparr>))
     else
       sbind (gets length) (\<lambda>remaining.
       if remaining < len then throw (MalformedExt tag) else
       sbind (advance len) (\<lambda>_. ret x))))"

lemma copy_to_bytes_OkD: "copy_to_bytes n raw = (Ok bs, raw') \<Longrightarrow> bs = take n raw \<and> raw' = drop n raw \<and> n \<le> length raw"
  by (auto simp: copy_to_bytes_def split: if_splits)

lemma advance_OkD: "advance n raw = (Ok u, raw') \<Longrightarrow> raw' = drop n raw \<and> n \<le> length raw"
  by (auto simp: advance_def split: if_splits)

lemma get_u8_OkD: "get_u8 raw = (Ok b, raw') \<Longrightarrow> raw' = drop 1 raw \<and> 1 \<le> length raw"
  by (auto simp: get_u8_run split: if_splits)

lemma deserialize_ext_OkD:
  "deserialize_ext t n len raw = (Ok buf, raw') \<Longrightarrow> buf = take n raw \<and> n \<le> length raw \<and> length raw' \<le> length raw"
  by (auto simp: deserialize_ext_def split: if_splits elim!: sbind_eq_OkE dest!: copy_to_bytes_OkD advance_OkD)

lemma read_extension_shorter:
  assumes "read_extension x raw = (Ok x', raw')"
  shows "length raw' < length raw"
  using assms unfolding read_extension_def
  by (auto simp: Let_def split: if_splits elim!: sbind_eq_OkE
      dest!: get_u8_OkD advance_OkD deserialize_ext_OkD) linarith+

function extensions_loop :: "extensions \<Rightarrow> bytes \<Rightarrow> (deserialize_error, extensions) rust" where
  "extensions_loop x raw =
     (if length raw < 2 then Ok x
      else case read_extension x raw of
          (Ok x', raw') \<Rightarrow> extensions_loop x' raw'
        | (Err e, raw') \<Rightarrow> Err e
        | (Panic, raw') \<Rightarrow> Panic)"
  by pat_completeness auto
termination
  by (relation "measure (\<lambda>(x, raw). length raw)") (auto dest!: read_extension_shorter [OF sym])

declare extensions_loop.simps [simp del]

lemma extensions_loop_end: "length raw < 2 \<Longrightarrow> extensions_loop x raw = Ok x"
  by (simp add: extensions_loop.simps)

lemma extensions_loop_next:
  "2 \<le> length raw \<Longrightarrow> read_extension x raw = (Ok x', raw') \<Longrightarrow> extensions_loop x raw = extensions_loop x' raw'"
  by (simp add: extensions_loop.simps [of x raw])

definition extensions_deserialize :: "bytes \<Rightarrow> (deserialize_error, extensions) rust" where
  "extensions_deserialize raw = extensions_loop extensions_default raw"

definition version_of :: "u8 \<Rightarrow> u8" where
  "version_of initial = drop_bit VERSION_SHIFT initial AND VERSION_MASK"

definition marker_of :: "u8 \<Rightarrow> frame_marker" where
  "marker_of initial =
     (let m = drop_bit FRAME_MARKER_SHIFT initial AND FRAME_MARKER_MASK in
      if m = FRAME_MARKER_START then Start
      else if m = FRAME_MARKER_FINAL then Final
      else if m = FRAME_MARKER_SINGLE then Single
      else Inter)"

definition ext_flag_of :: "u8 \<Rightarrow> bool" where
  "ext_flag_of initial \<longleftrightarrow> drop_bit EXT_FLAG_SHIFT initial AND EXT_FLAG_MASK > 0"

definition ext_block_deserialize :: "(bytes, deserialize_error, extensions) comp" where
  "ext_block_deserialize =
     sbind (gets length) (\<lambda>remaining.
     if remaining < 2 then throw MissingExtWords else
     sbind get_u16 (\<lambda>words.
     sbind (gets length) (\<lambda>remaining.
     if 4 * (unat words + 1) > remaining then throw HeaderOverrun else
     sbind (copy_to_bytes (4 * (unat words + 1))) (\<lambda>ext_block.
     lift (extensions_deserialize ext_block)))))"

definition header_deserialize :: "(bytes, deserialize_error, header) comp" where
  "header_deserialize =
     sbind (gets length) (\<lambda>remaining.
     if remaining < BASE_HEADER_LEN then throw TooShort else
     sbind get_u8 (\<lambda>initial.
     if version_of initial > SUPPORTED_VERSION
     then throw (UnsupportedVersion (version_of initial)) else
     sbind (advance 1) (\<lambda>_.
     sbind get_u16 (\<lambda>raw_handle.
     sbind (lift (map_err InvalidHandle (handle_try_from_u16 raw_handle))) (\<lambda>th.
     sbind get_u16 (\<lambda>seq.
     sbind get_u16 (\<lambda>fnum.
     sbind get_u32 (\<lambda>ticks.
     sbind (if ext_flag_of initial then ext_block_deserialize
            else ret extensions_default) (\<lambda>exts.
     ret \<lparr>marker = marker_of initial, track_handle = th, sequence = seq, frame_number = fnum,
          timestamp_of = from_ticks ticks, extensions_of = exts\<rparr>)))))))))"

definition packet_deserialize :: "bytes \<Rightarrow> (deserialize_error, packet) rust" where
  "packet_deserialize raw =
     fst (sbind header_deserialize (\<lambda>h.
          sbind (gets length) (\<lambda>payload_len.
          sbind (copy_to_bytes payload_len) (\<lambda>payload.
          ret \<lparr>pkt_header = h, pkt_payload = payload\<rparr>))) raw)"

section \<open>What the writer emits\<close>

definition e2ee_bytes :: "e2ee_ext \<Rightarrow> bytes" where
  "e2ee_bytes x = [1, 13, key_index x] @ iv x"

fun user_timestamp_bytes :: "user_timestamp_ext \<Rightarrow> bytes" where
  "user_timestamp_bytes (UserTimestampExt v) = [2, 8] @ u64_to_be v"

definition extensions_bytes :: "extensions \<Rightarrow> bytes" where
  "extensions_bytes x =
     (case e2ee x of None \<Rightarrow> [] | Some v \<Rightarrow> e2ee_bytes v) @
     (case user_timestamp x of None \<Rightarrow> [] | Some v \<Rightarrow> user_timestamp_bytes v)"

definition has_extensions :: "extensions \<Rightarrow> bool" where
  "has_extensions x \<longleftrightarrow> e2ee x \<noteq> None \<or> user_timestamp x \<noteq> None"

definition padded_extensions :: "extensions \<Rightarrow> bytes" where
  "padded_extensions x =
     (let n = extensions_serialized_len x
      in extensions_bytes x @ replicate (div_ceil n 4 * 4 - n) 0)"

definition ext_block_bytes :: "extensions \<Rightarrow> bytes" where
  "ext_block_bytes x =
     (if has_extensions x
      then u16_to_be (word_of_nat (div_ceil (extensions_serialized_len x) 4 - 1))
        @ padded_extensions x
      else [])"

definition header_bytes :: "header \<Rightarrow> bytes" where
  "header_bytes h =
     [initial_byte (marker h) (has_extensions (extensions_of h)), 0]
     @ u16_to_be (u16_from_handle (track_handle h)) @ u16_to_be (sequence h)
     @ u16_to_be (frame_number h) @ u32_to_be (as_ticks (timestamp_of h))
     @ ext_block_bytes (extensions_of h)"

definition packet_bytes :: "packet \<Rightarrow> bytes" where
  "packet_bytes p = header_bytes (pkt_header p) @ pkt_payload p"

lemma ext_len_pos_iff: "ext_len (header_metrics_of h) > 0 \<longleftrightarrow> has_extensions (extensions_of h)"
  by (auto simp: header_metrics_of_def Let_def extensions_serialized_len_def has_extensions_def
      format_consts)

lemma extensions_serialized_len_cases:
  "extensions_serialized_len x =
     (if e2ee x \<noteq> None then 15 else 0) + (if user_timestamp x \<noteq> None then 10 else 0)"
  by (simp add: extensions_serialized_len_def format_consts)

lemma length_user_timestamp_bytes [simp, len_simps]: "length (user_timestamp_bytes v) = 10"
  by (cases v) simp

lemma length_extensions_bytes [len_simps]:
  "wf_extensions x \<Longrightarrow> length (extensions_bytes x) = extensions_serialized_len x"
  by (auto simp: extensions_bytes_def extensions_serialized_len_cases e2ee_bytes_def
      wf_extensions_def split: option.splits)

lemma length_padded_extensions [len_simps]:
  "wf_extensions x \<Longrightarrow>
     length (padded_extensions x) = 4 * div_ceil (extensions_serialized_len x) 4"
  using div_ceil_mult_ge [of 4 "extensions_serialized_len x"]
  by (simp add: padded_extensions_def Let_def length_extensions_bytes)

lemma header_serialized_len_cases:
  "header_serialized_len h =
     12 + (if has_extensions (extensions_of h)
           then 2 + 4 * div_ceil (extensions_serialized_len (extensions_of h)) 4 else 0)"
proof -
  have "ext_len (header_metrics_of h) + padding_len (header_metrics_of h)
      = 4 * div_ceil (extensions_serialized_len (extensions_of h)) 4"
    using div_ceil_mult_ge [of 4 "extensions_serialized_len (extensions_of h)"]
    by (simp add: header_metrics_of_def Let_def)
  then show ?thesis
    using ext_len_pos_iff [of h]
    by (auto simp: header_serialized_len_def metrics_serialized_len_def format_consts)
qed

lemma length_header_bytes [len_simps]:
  "wf_header h \<Longrightarrow> length (header_bytes h) = header_serialized_len h"
  by (simp add: header_bytes_def header_serialized_len_cases length_padded_extensions wf_header_def
      ext_block_bytes_def)

lemma length_packet_bytes [len_simps]:
  "wf_packet p \<Longrightarrow> length (packet_bytes p) = packet_serialized_len p"
  by (simp add: packet_bytes_def packet_serialized_len_def length_header_bytes wf_packet_def)

section \<open>The writer writes it\<close>

lemma sbind_writes:
  "writes m xs \<Longrightarrow> length xs \<le> remaining_mut b \<Longrightarrow>
     sbind m f b = f () (b\<lparr>buf_data := buf_data b @ xs\<rparr>)"
  by (simp add: sbind_def writes_def)

lemma writes_e2ee: "writes (e2ee_serialize_into x) (e2ee_bytes x)"
proof -
  have "writes (e2ee_serialize_into x) ([E2EE_TAG] @ [word_of_nat E2EE_LEN] @ [key_index x] @ iv x)"
    unfolding e2ee_serialize_into_def by (intro writes_intros)
  then show ?thesis by (simp add: e2ee_bytes_def format_consts)
qed

lemma writes_user_timestamp: "writes (user_timestamp_serialize_into v) (user_timestamp_bytes v)"
proof (cases v)
  case (UserTimestampExt w)
  have "writes (user_timestamp_serialize_into v)
      ([USER_TIMESTAMP_TAG] @ [word_of_nat USER_TIMESTAMP_LEN] @ u64_to_be w)"
    unfolding UserTimestampExt user_timestamp_serialize_into.simps by (intro writes_intros)
  then show ?thesis by (simp add: UserTimestampExt format_consts)
qed

lemma writes_extensions: "writes (extensions_serialize_into x) (extensions_bytes x)"
  unfolding extensions_serialize_into_def extensions_bytes_def
  by (intro writes_intros)
    (auto simp: writes_ret writes_e2ee writes_user_timestamp split: option.split)

lemma writes_ext_block:
  "writes (ext_block_serialize_into (header_metrics_of h) (extensions_of h))
     (ext_block_bytes (extensions_of h))"
  unfolding ext_block_serialize_into_def ext_len_pos_iff ext_block_bytes_def
  by (auto simp: header_metrics_of_def padded_extensions_def Let_def
      intro!: writes_intros writes_extensions)

lemma header_serialize_into_fits:
  assumes wf: "wf_header h" and room: "header_serialized_len h \<le> remaining_mut b"
  shows "header_serialize_into h b =
     (Ok (header_serialized_len h), b\<lparr>buf_data := buf_data b @ header_bytes h\<rparr>)"
proof -
  have len: "header_serialized_len h = 12 + length (ext_block_bytes (extensions_of h))"
    using length_header_bytes [OF wf] by (simp add: header_bytes_def)
  show ?thesis
    using room
    unfolding header_serialize_into_def Let_def header_serialized_len_def [symmetric]
    by (simp add: sbind_gets sbind_writes [OF writes_put_u8]
        sbind_writes [OF writes_put_u16] sbind_writes [OF writes_put_u32]
        sbind_writes [OF writes_ext_block] ext_len_pos_iff header_bytes_def
        assert_that_def len sbind_ret)
qed

lemma header_serialize_into_small:
  "remaining_mut b < header_serialized_len h \<Longrightarrow>
     header_serialize_into h b = (Err TooSmallForHeader, b)"
  by (simp add: header_serialize_into_def Let_def header_serialized_len_def sbind_gets)

lemma packet_serialize_into_cases:
  assumes "wf_packet p"
  shows "packet_serialize_into p b =
    (if remaining_mut b < header_serialized_len (pkt_header p)
     then (Err TooSmallForHeader, b)
     else if remaining_mut b < packet_serialized_len p
     then (Err TooSmallForPayload, b\<lparr>buf_data := buf_data b @ header_bytes (pkt_header p)\<rparr>)
     else (Ok (packet_serialized_len p), b\<lparr>buf_data := buf_data b @ packet_bytes p\<rparr>))"
proof (cases "remaining_mut b < header_serialized_len (pkt_header p)")
  case True
  then show ?thesis
    by (simp add: packet_serialize_into_def Let_def sbind_Err [where m = "header_serialize_into h" for h, OF header_serialize_into_small])
next
  case False
  have wf: "wf_header (pkt_header p)" using assms by (simp add: wf_packet_def)
  from False have "header_serialized_len (pkt_header p) \<le> remaining_mut b" by simp
  note fits = header_serialize_into_fits [OF wf this]
  show ?thesis
    using False
    by (auto simp: packet_serialize_into_def Let_def sbind_gets packet_serialized_len_def
        sbind_Ok [where m = "header_serialize_into h" for h, OF fits] length_header_bytes [OF wf]
        sbind_writes [OF writes_put_slice] packet_bytes_def)
qed

lemma packet_serialize_bytes:
  assumes "wf_packet p"
  shows "packet_serialize p = Ok (packet_bytes p)"
  using packet_serialize_into_cases [OF assms, of "\<lparr>buf_data = [], buf_cap = packet_serialized_len p\<rparr>"]
  by (simp add: packet_serialize_def Let_def remaining_mut_def packet_serialized_len_def)

section \<open>The reader inverts the writer\<close>

lemma initial_byte_fields [simp]:
  "version_of (initial_byte m x) = 0"
  "marker_of (initial_byte m x) = m"
  "ext_flag_of (initial_byte m x) = x"
  by (cases m; cases x;
      simp add: version_of_def marker_of_def ext_flag_of_def initial_byte_def format_consts Let_def)+

lemma sbind_get_u8_Cons [codec_simps]: "sbind get_u8 f (b # raw) = f b raw"
  by (simp add: sbind_def get_u8_Cons)

lemma deserialize_ext_fits:
  assumes "n \<le> len" and "len \<le> length raw"
  shows "deserialize_ext t n len raw = (Ok (take n raw), drop len raw)"
  using assms by (auto simp: deserialize_ext_def cursor_runs)

lemma extensions_loop_padding: "extensions_loop x (replicate n 0) = Ok x"
proof (induction n rule: induct_nat_012)
  case (ge2 n)
  have "read_extension x (replicate (Suc (Suc n)) 0) = (Ok x, replicate n 0)"
    by (simp add: read_extension_def codec_simps EXT_TAG_PADDING_def)
  with ge2 show ?case by (simp add: extensions_loop_next)
qed (simp_all add: extensions_loop_end)

lemma extensions_loop_e2ee:
  assumes "length (iv v) = 12"
  shows "extensions_loop x (e2ee_bytes v @ rest) = extensions_loop (x\<lparr>e2ee := Some v\<rparr>) rest"
proof -
  have "deserialize_ext 1 13 13 (key_index v # iv v @ rest) = (Ok (key_index v # iv v), rest)"
    using assms by (simp add: deserialize_ext_fits)
  then have "read_extension x (e2ee_bytes v @ rest) = (Ok (x\<lparr>e2ee := Some v\<rparr>), rest)"
    using assms by (simp add: read_extension_def e2ee_bytes_def codec_simps format_consts e2ee_deserialize_def)
  then show ?thesis by (rule extensions_loop_next [rotated]) (simp add: e2ee_bytes_def)
qed

lemma extensions_loop_user_timestamp:
  "extensions_loop x (user_timestamp_bytes v @ rest)
     = extensions_loop (x\<lparr>user_timestamp := Some v\<rparr>) rest"
proof (cases v)
  case (UserTimestampExt w)
  have "deserialize_ext 2 8 8 (u64_to_be w @ rest) = (Ok (u64_to_be w), rest)"
    by (simp add: deserialize_ext_fits)
  then have "read_extension x (user_timestamp_bytes v @ rest) = (Ok (x\<lparr>user_timestamp := Some v\<rparr>), rest)"
    by (simp add: UserTimestampExt read_extension_def codec_simps format_consts user_timestamp_deserialize_def)
  then show ?thesis by (rule extensions_loop_next [rotated]) (simp add: UserTimestampExt)
qed

lemma extensions_deserialize_bytes:
  assumes "wf_extensions x"
  shows "extensions_deserialize (extensions_bytes x @ replicate n 0) = Ok x"
  using assms
  by (cases "e2ee x"; cases "user_timestamp x")
    (auto simp: extensions_deserialize_def extensions_bytes_def extensions_default_def
      wf_extensions_def extensions_loop_e2ee extensions_loop_user_timestamp extensions_loop_padding)

lemma ext_words_bound:
  "has_extensions x \<Longrightarrow>
     unat (word_of_nat (div_ceil (extensions_serialized_len x) 4 - 1) :: u16)
       = div_ceil (extensions_serialized_len x) 4 - 1
     \<and> 0 < div_ceil (extensions_serialized_len x) 4"
  by (auto simp: has_extensions_def extensions_serialized_len_cases div_ceil_def)

lemma extensions_default_iff: "\<not> has_extensions x \<longleftrightarrow> x = extensions_default"
  by (cases x) (auto simp: has_extensions_def extensions_default_def)

lemma ext_block_roundtrip:
  assumes wf: "wf_extensions x" and has: "has_extensions x"
  shows "ext_block_deserialize (ext_block_bytes x @ rest) = (Ok x, rest)"
proof -
  let ?w = "div_ceil (extensions_serialized_len x) 4"
  define words :: u16 where "words = word_of_nat (?w - 1)"
  have w: "?w = unat words + 1" using ext_words_bound [OF has] unfolding words_def by linarith
  have len: "length (padded_extensions x) = 4 * (unat words + 1)"
    using length_padded_extensions [OF wf] w by simp
  have "extensions_deserialize (padded_extensions x) = Ok x"
    using extensions_deserialize_bytes [OF wf] by (simp add: padded_extensions_def Let_def)
  moreover have "ext_block_bytes x = u16_to_be words @ padded_extensions x"
    by (simp add: ext_block_bytes_def has words_def)
  ultimately show ?thesis
    using len by (simp add: ext_block_deserialize_def
        sbind_Ok [where m = get_u16, OF get_u16_append] copy_to_bytes_append
        sbind_Ok [where m = "copy_to_bytes n" for n, OF copy_to_bytes_append])
qed

lemma header_roundtrip:
  assumes wf: "wf_header h"
  shows "header_deserialize (header_bytes h @ rest) = (Ok h, rest)"
proof -
  have "handle_try_from_u16 (u16_from_handle (track_handle h)) = Ok (track_handle h)"
    using wf by (intro handle_u16_roundtrip) (simp add: wf_header_def)
  moreover have "sbind (if has_extensions (extensions_of h) then ext_block_deserialize
        else ret extensions_default) f (ext_block_bytes (extensions_of h) @ rest)
      = f (extensions_of h) rest" for f :: "extensions \<Rightarrow> (bytes, deserialize_error, header) comp"
    using wf ext_block_roundtrip [of "extensions_of h" rest] extensions_default_iff [of "extensions_of h"]
    by (auto simp: wf_header_def sbind_Ok ext_block_bytes_def)
  moreover have "from_ticks (as_ticks (timestamp_of h)) = timestamp_of h"
    by (cases "timestamp_of h") (simp add: from_ticks_def)
  ultimately show ?thesis
    by (simp add: header_deserialize_def header_bytes_def BASE_HEADER_LEN_def SUPPORTED_VERSION_def
        sbind_Ok [where m = get_u8, OF get_u8_Cons] sbind_Ok [where m = "advance n" for n, OF advance_Cons]
        sbind_Ok [where m = get_u16, OF get_u16_append]
        sbind_Ok [where m = get_u32, OF get_u32_append] del: handle_try_from_u16.simps)
qed

lemma packet_deserialize_bytes:
  assumes "wf_packet p"
  shows "packet_deserialize (packet_bytes p) = Ok p"
proof -
  have "wf_header (pkt_header p)" using assms by (simp add: wf_packet_def)
  from header_roundtrip [OF this] show ?thesis
    by (simp add: packet_deserialize_def packet_bytes_def sbind_Ok [where m = header_deserialize]
        copy_to_bytes_def sbind_def)
qed

text \<open>
  C9. Round trip: serializing a well-formed packet succeeds with exactly
  \<^verbatim>\<open>serialized_len()\<close> bytes, and deserializing those bytes gives the packet back.
\<close>

theorem packet_roundtrip:
  assumes "wf_packet p"
  shows "\<exists>raw. packet_serialize p = Ok raw \<and> length raw = packet_serialized_len p
    \<and> packet_deserialize raw = Ok p"
  using packet_serialize_bytes [OF assms] packet_deserialize_bytes [OF assms]
    length_packet_bytes [OF assms] by blast

definition example_packet :: packet where
  "example_packet =
     \<lparr>pkt_header = \<lparr>marker = Final, track_handle = Handle 0x8811, sequence = 0x4422,
        frame_number = 0x4411, timestamp_of = Timestamp 0x44221188,
        extensions_of = \<lparr>user_timestamp = Some (UserTimestampExt 0x4411221111118811),
          e2ee = Some \<lparr>key_index = 0xFA, iv = replicate 12 0x3C\<rparr>\<rparr>\<rparr>,
      pkt_payload = [0xFA, 0xFB, 0xFC]\<rparr>"

lemma example_packet_wf: "wf_packet example_packet"
  by (simp add: example_packet_def wf_packet_def wf_header_def wf_extensions_def valid_handle_def)

text \<open>The packet of the unit tests of \<^verbatim>\<open>serialize.rs\<close>: a 42-byte header and its payload.\<close>

theorem packet_roundtrip_witness:
  "wf_packet example_packet
   \<and> (\<exists>raw. packet_serialize example_packet = Ok raw \<and> length raw = 45
        \<and> packet_deserialize raw = Ok example_packet)"
proof -
  have "packet_serialized_len example_packet = 45"
    by (simp add: packet_serialized_len_def header_serialized_len_cases example_packet_def
        has_extensions_def extensions_serialized_len_cases div_ceil_def)
  with packet_roundtrip [OF example_packet_wf] example_packet_wf show ?thesis by simp
qed

text \<open>
  \<^verbatim>\<open>Packet::serialize_into\<close> on any buffer: it reports a buffer too small for the header
  without touching it, reports a buffer too small for the payload after writing the header,
  and otherwise appends the header and the payload and returns their length. It never panics.
\<close>

lemma serialize_into_outcome:
  assumes "wf_packet p"
  shows "packet_serialize_into p b =
    (if remaining_mut b < header_serialized_len (pkt_header p)
     then (Err TooSmallForHeader, b)
     else if remaining_mut b < packet_serialized_len p
     then (Err TooSmallForPayload, b\<lparr>buf_data := buf_data b @ header_bytes (pkt_header p)\<rparr>)
     else (Ok (packet_serialized_len p), b\<lparr>buf_data := buf_data b @ packet_bytes p\<rparr>))"
  using assms by (rule packet_serialize_into_cases)

lemma serialize_into_outcome_witness:
  "packet_serialize_into example_packet \<lparr>buf_data = [], buf_cap = 43\<rparr>
     = (Err TooSmallForPayload, \<lparr>buf_data = header_bytes (pkt_header example_packet), buf_cap = 43\<rparr>)"
proof -
  have "header_serialized_len (pkt_header example_packet) = 42"
    and "packet_serialized_len example_packet = 45"
    by (simp_all add: packet_serialized_len_def header_serialized_len_cases example_packet_def
        has_extensions_def extensions_serialized_len_cases div_ceil_def)
  then show ?thesis
    using serialize_into_outcome [OF example_packet_wf, of "\<lparr>buf_data = [], buf_cap = 43\<rparr>"]
    by (simp add: remaining_mut_def)
qed

section \<open>The reader on arbitrary input\<close>

lemma of_be_take1: "raw \<noteq> [] \<Longrightarrow> (of_be (take 1 raw) :: u8) = raw ! 0"
  by (cases raw) (simp_all add: of_be_def)

lemma deserialize_ext_no_panic: "n \<le> len \<Longrightarrow> fst (deserialize_ext t n len raw) \<noteq> Panic"
  by (cases "len \<le> length raw") (simp add: deserialize_ext_fits, simp add: deserialize_ext_def)

lemma sbind_ret_panic: "fst (sbind m (\<lambda>x. ret (g x)) s) = Panic \<longleftrightarrow> fst (m s) = Panic"
  by (auto simp: sbind_def split: prod.split rust.split)

lemma read_extension_no_panic:
  assumes "2 \<le> length raw"
  shows "fst (read_extension x raw) \<noteq> Panic"
proof -
  obtain tag len8 rest where raw: "raw = tag # len8 # rest"
    using assms by (cases raw; cases "tl raw") auto
  show ?thesis
    by (simp add: raw read_extension_def codec_simps Let_def sbind_ret_panic deserialize_ext_no_panic
        advance_def)
qed

lemma extensions_loop_no_panic: "extensions_loop x raw \<noteq> Panic"
proof (induction x raw rule: extensions_loop.induct)
  case (1 x raw)
  show ?case
  proof (cases "length raw < 2")
    case False
    then have "fst (read_extension x raw) \<noteq> Panic" by (intro read_extension_no_panic) simp
    with False 1 show ?thesis
      by (cases "fst (read_extension x raw)"; cases "read_extension x raw")
        (auto simp: extensions_loop.simps [of x raw])
  qed (simp add: extensions_loop_end)
qed

lemma read_extension_wf:
  assumes "wf_extensions x" and "read_extension x raw = (Ok y, raw')"
  shows "wf_extensions y"
  using assms unfolding read_extension_def
  by (auto simp: Let_def wf_extensions_def e2ee_deserialize_def E2EE_LEN_def split: if_splits
      elim!: sbind_eq_OkE dest!: deserialize_ext_OkD)

lemma extensions_loop_wf:
  "wf_extensions x \<Longrightarrow> extensions_loop x raw = Ok y \<Longrightarrow> wf_extensions y"
proof (induction x raw rule: extensions_loop.induct)
  case (1 x raw)
  from 1 read_extension_wf [OF "1.prems"(1)] show ?case
    by (auto simp: extensions_loop.simps [of x raw] split: if_splits prod.splits rust.splits)
qed

lemma extensions_deserialize_wf:
  "extensions_deserialize raw = Ok y \<Longrightarrow> wf_extensions y"
  using extensions_loop_wf [of extensions_default]
  by (simp add: extensions_deserialize_def extensions_default_def wf_extensions_def)

lemma ext_block_deserialize_run:
  "ext_block_deserialize raw =
     (let n = 4 * (unat (of_be (take 2 raw) :: u16) + 1) in
      if length raw < 2 then (Err MissingExtWords, raw)
      else if length raw < 2 + n then (Err HeaderOverrun, drop 2 raw)
      else (extensions_deserialize (take n (drop 2 raw)), drop (2 + n) raw))"
  by (auto simp: ext_block_deserialize_def cursor_runs Let_def add.commute)

definition header_of_parts :: "bytes \<Rightarrow> extensions \<Rightarrow> header" where
  "header_of_parts raw x =
     \<lparr>marker = marker_of (raw ! 0), track_handle = Handle (of_be (take 2 (drop 2 raw))),
      sequence = of_be (take 2 (drop 4 raw)), frame_number = of_be (take 2 (drop 6 raw)),
      timestamp_of = Timestamp (of_be (take 4 (drop 8 raw))), extensions_of = x\<rparr>"

text \<open>
  What the reader does with any input: the checks in their order (length, version,
  handle, extension word count, extension block, extensions), the error each reports, and
  where the header fields and the payload come from otherwise.
\<close>

lemma packet_deserialize_cases:
  "packet_deserialize raw =
     (let words = unat (of_be (take 2 (drop 12 raw)) :: u16); n = 4 * (words + 1) in
      if length raw < 12 then Err TooShort
      else if version_of (raw ! 0) \<noteq> 0 then Err (UnsupportedVersion (version_of (raw ! 0)))
      else if (of_be (take 2 (drop 2 raw)) :: u16) = 0 then Err (InvalidHandle (Reserved 0))
      else if \<not> ext_flag_of (raw ! 0)
      then Ok \<lparr>pkt_header = header_of_parts raw extensions_default, pkt_payload = drop 12 raw\<rparr>
      else if length raw < 14 then Err MissingExtWords
      else if length raw < 14 + n then Err HeaderOverrun
      else map_ok (\<lambda>x. \<lparr>pkt_header = header_of_parts raw x, pkt_payload = drop (14 + n) raw\<rparr>)
             (extensions_deserialize (take n (drop 14 raw))))"
proof (cases "length raw < 12")
  case True
  then show ?thesis
    by (simp add: packet_deserialize_def header_deserialize_def sbind_def BASE_HEADER_LEN_def)
next
  case False
  then have ne: "raw \<noteq> []" by auto
  let ?h = "of_be (take 2 (drop 2 raw)) :: u16"
  let ?ext = "if ext_flag_of (raw ! 0) then ext_block_deserialize else ret extensions_default"
  have hd: "header_deserialize raw =
      (if version_of (raw ! 0) \<noteq> 0 then (Err (UnsupportedVersion (version_of (raw ! 0))), drop 1 raw)
       else if ?h = 0 then (Err (InvalidHandle (Reserved 0)), drop 4 raw)
       else sbind ?ext (\<lambda>x. ret (header_of_parts raw x)) (drop 12 raw))"
    using False ne
    by (simp add: header_deserialize_def BASE_HEADER_LEN_def SUPPORTED_VERSION_def
        cursor_runs of_be_take1 [simplified] numeral_2_eq_2 [symmetric]
        from_ticks_def header_of_parts_def word_gt_0)
  have tail: "fst (sbind (lift r) (\<lambda>h. sbind (gets length) (\<lambda>n. sbind (copy_to_bytes n)
        (\<lambda>payload. ret \<lparr>pkt_header = h, pkt_payload = payload\<rparr>))) s)
      = map_ok (\<lambda>h. \<lparr>pkt_header = h, pkt_payload = s\<rparr>) r"
    for r :: "(deserialize_error, header) rust" and s
    by (cases r) (simp_all add: sbind_def copy_to_bytes_def)
  show ?thesis
    using False
    by (cases "extensions_deserialize (take (4 * (unat (of_be (take 2 (drop 12 raw)) :: u16) + 1)) (drop 14 raw))")
      (auto simp: packet_deserialize_def sbind_def hd ext_block_deserialize_run copy_to_bytes_def Let_def)
qed

text \<open>
  C12. Input from the network cannot crash the reader, and what it accepts is well formed: no
  byte string makes it panic; an accepted packet has a non-zero handle, an initialisation
  vector of 12 bytes where it has one, and a payload that is a suffix of the input behind at
  least 12 bytes of header.
\<close>

theorem deserialize_safe:
  "packet_deserialize raw \<noteq> Panic
   \<and> (packet_deserialize raw = Ok p \<longrightarrow>
        wf_packet p \<and> (\<exists>hdr. raw = hdr @ pkt_payload p \<and> 12 \<le> length hdr))"
proof
  show "packet_deserialize raw \<noteq> Panic"
    using extensions_loop_no_panic [of extensions_default]
    by (auto simp: packet_deserialize_cases Let_def extensions_deserialize_def map_ok_eq_Ok
        split: if_splits)
      (metis rust.exhaust map_ok.simps(1,2) rust.distinct(4,6))
  show "packet_deserialize raw = Ok p \<longrightarrow>
      wf_packet p \<and> (\<exists>hdr. raw = hdr @ pkt_payload p \<and> 12 \<le> length hdr)"
  proof
    assume ok: "packet_deserialize raw = Ok p"
    then obtain x k where p: "p = \<lparr>pkt_header = header_of_parts raw x, pkt_payload = drop k raw\<rparr>"
      and k: "12 \<le> k" "k \<le> length raw" and h: "(of_be (take 2 (drop 2 raw)) :: u16) \<noteq> 0"
      and x: "wf_extensions x"
      by (auto simp: packet_deserialize_cases Let_def map_ok_eq_Ok extensions_default_def wf_extensions_def
          split: if_splits dest: extensions_deserialize_wf)
    have "wf_packet p"
      using h x by (simp add: p wf_packet_def wf_header_def header_of_parts_def valid_handle_def)
    moreover have "raw = take k raw @ pkt_payload p \<and> 12 \<le> length (take k raw)"
      using k by (simp add: p)
    ultimately show "wf_packet p \<and> (\<exists>hdr. raw = hdr @ pkt_payload p \<and> 12 \<le> length hdr)" by blast
  qed
qed

theorem deserialize_safe_witness:
  "\<exists>p hdr. packet_deserialize (packet_bytes example_packet) = Ok p \<and> wf_packet p
     \<and> packet_bytes example_packet = hdr @ pkt_payload p \<and> 12 \<le> length hdr"
  using deserialize_safe [of "packet_bytes example_packet" example_packet]
    packet_deserialize_bytes [OF example_packet_wf] by blast

section \<open>Forward compatibility of the extension block\<close>

text \<open>An extension that this version does not know: a tag of 3 or more and its content.\<close>

definition unknown_bytes :: "u8 \<times> bytes \<Rightarrow> bytes" where
  "unknown_bytes u = fst u # word_of_nat (length (snd u)) # snd u"

definition unknown_ok :: "u8 \<times> bytes \<Rightarrow> bool" where
  "unknown_ok u \<longleftrightarrow> 3 \<le> fst u \<and> length (snd u) < 256"

lemma extensions_loop_unknown:
  assumes "unknown_ok u"
  shows "extensions_loop x (unknown_bytes u @ rest) = extensions_loop x rest"
proof -
  obtain t d where u: "u = (t, d)" by fastforce
  have "unat (word_of_nat (length d) :: u8) = length d"
    using assms by (simp add: u unknown_ok_def unat_of_nat)
  moreover have "t \<noteq> 0" "t \<noteq> 1" "t \<noteq> 2"
    using assms by (auto simp: u unknown_ok_def word_le_nat_alt)
  ultimately have "read_extension x (unknown_bytes u @ rest) = (Ok x, rest)"
    by (simp add: u unknown_bytes_def read_extension_def codec_simps format_consts cursor_runs Let_def)
  then show ?thesis by (rule extensions_loop_next [rotated]) (simp add: u unknown_bytes_def)
qed

lemma extensions_loop_unknowns:
  "list_all unknown_ok us \<Longrightarrow>
     extensions_loop x (concat (map unknown_bytes us) @ rest) = extensions_loop x rest"
  by (induction us) (simp_all add: extensions_loop_unknown)

text \<open>
  Forward compatibility: extensions with unknown tags may stand before, between and behind
  the known ones; a reader of this version skips them and finds the known ones unchanged.
\<close>

lemma unknown_extensions_skipped:
  assumes "wf_extensions x" and "list_all unknown_ok us" and "list_all unknown_ok vs"
    and "list_all unknown_ok ws"
  shows "extensions_deserialize
      (concat (map unknown_bytes us) @ (case e2ee x of None \<Rightarrow> [] | Some v \<Rightarrow> e2ee_bytes v) @
       concat (map unknown_bytes vs) @ (case user_timestamp x of None \<Rightarrow> [] | Some v \<Rightarrow> user_timestamp_bytes v) @
       concat (map unknown_bytes ws) @ replicate n 0) = Ok x"
proof -
  note skip = extensions_loop_unknowns [OF assms(2)] extensions_loop_unknowns [OF assms(3)]
    extensions_loop_unknowns [OF assms(4)]
  have "x = \<lparr>user_timestamp = user_timestamp x, e2ee = e2ee x\<rparr>" by simp
  then show ?thesis
    using assms(1)
    by (cases "e2ee x"; cases "user_timestamp x")
      (auto simp: extensions_deserialize_def extensions_default_def skip wf_extensions_def
        extensions_loop_e2ee extensions_loop_user_timestamp extensions_loop_padding)
qed

lemma unknown_extensions_skipped_witness:
  "extensions_deserialize ([9, 3, 7, 7, 7] @ [2, 8, 0, 0, 0, 0, 0, 0, 0, 5] @ [200, 0] @ [0])
     = Ok \<lparr>user_timestamp = Some (UserTimestampExt 5), e2ee = None\<rparr>"
  using unknown_extensions_skipped [where x = "\<lparr>user_timestamp = Some (UserTimestampExt 5), e2ee = None\<rparr>"
      and us = "[(9, [7, 7, 7])]" and vs = "[]" and ws = "[(200, [])]" and n = 1]
  by (simp add: wf_extensions_def unknown_ok_def unknown_bytes_def u64_to_be_def)

text \<open>
  Padding in front of an extension hides it. The reader takes padding two bytes at a time,
  so an odd number of zero bytes between two extensions (three, as in the example of the format
  document, which allows padding before or after any extension) makes it miss the second one:
  the block is accepted and the user timestamp is gone.
\<close>

lemma odd_padding_hides_extension:
  assumes "length (iv v) = 12"
  shows "extensions_deserialize
      (e2ee_bytes v @ [0, 0, 0] @ user_timestamp_bytes (UserTimestampExt 0))
    = Ok \<lparr>user_timestamp = None, e2ee = Some v\<rparr>"
proof -
  have pad: "extensions_loop x (0 # 0 # rest) = extensions_loop x rest" for x rest
    by (rule extensions_loop_next) (simp_all add: read_extension_def codec_simps format_consts)
  have unknown: "extensions_loop x (0 # 2 # rest) = extensions_loop x rest" for x rest
    by (rule extensions_loop_next) (simp_all add: read_extension_def codec_simps format_consts)
  have skipped: "extensions_loop x (8 # 0 # rest) = extensions_loop x rest" for x rest
    by (rule extensions_loop_next) (simp_all add: read_extension_def codec_simps format_consts cursor_runs)
  show ?thesis
    using assms
    by (simp add: extensions_deserialize_def extensions_loop_e2ee extensions_default_def
        u64_to_be_def pad unknown skipped extensions_loop_end)
qed

lemma odd_padding_hides_extension_witness:
  "extensions_deserialize
      (e2ee_bytes \<lparr>key_index = 0, iv = replicate 12 0\<rparr> @ [0, 0, 0]
        @ user_timestamp_bytes (UserTimestampExt 0))
    = Ok \<lparr>user_timestamp = None, e2ee = Some \<lparr>key_index = 0, iv = replicate 12 0\<rparr>\<rparr>"
  by (rule odd_padding_hides_extension) simp

text \<open>
  The header length in terms of the number of extension words: the two bytes of the word
  count are part of it, which the formula of the format document leaves out.
\<close>

lemma header_len_words:
  "has_extensions (extensions_of h) \<Longrightarrow>
     header_serialized_len h = 4 * ext_words (header_metrics_of h) + 14"
  by (simp add: header_serialized_len_cases header_metrics_of_def Let_def)

end
