(* ===== verification/Packetizer.thy ===== *)
theory Packetizer
  imports Packets
begin

text \<open>
  The publisher's side of a data track: \<^verbatim>\<open>utils/bytes.rs\<close> (cutting a payload into chunks),
  \<^verbatim>\<open>utils/counter.rs\<close> (wrapping counters) and \<^verbatim>\<open>local/packetizer.rs\<close> (frames to packets).
\<close>

section \<open>Wrapping counters\<close>

datatype 'a counter = Counter 'a

definition wrapping_inc :: "'w::len word \<Rightarrow> 'w word" where
  "wrapping_inc x = x + 1"

definition counter_new :: "'w::len word \<Rightarrow> 'w word counter" where
  "counter_new start = Counter start"

primrec counter_get :: "'w::len word counter \<Rightarrow> 'w word" where
  "counter_get (Counter x) = x"

primrec get_then_increment :: "'w::len word counter \<Rightarrow> 'w word \<times> 'w word counter" where
  "get_then_increment (Counter x) = (x, Counter (wrapping_inc x))"

section \<open>Chunks\<close>

record chunk_iter =
  chunk_source :: bytes
  chunk_max_size :: nat

text \<open>\<^verbatim>\<open>into_chunks\<close> panics on a zero size.\<close>

definition into_chunks :: "bytes \<Rightarrow> nat \<Rightarrow> ('e, chunk_iter) rust" where
  "into_chunks source max_size =
     (if max_size \<noteq> 0 then Ok \<lparr>chunk_source = source, chunk_max_size = max_size\<rparr> else Panic)"

definition chunk_next :: "chunk_iter \<Rightarrow> (bytes \<times> chunk_iter) option" where
  "chunk_next it =
     (if chunk_source it = [] then None
      else let n = min (chunk_max_size it) (length (chunk_source it))
           in Some (take n (chunk_source it), it\<lparr>chunk_source := drop n (chunk_source it)\<rparr>))"

text \<open>
  Draining the iterator. It makes progress only when the size is not zero, which
  \<^verbatim>\<open>into_chunks\<close> guarantees; the drain is given as a partial function, so that an iterator
  that never ends is \<open>None\<close>.
\<close>

partial_function (option) chunk_collect :: "chunk_iter \<Rightarrow> bytes list option" where
  "chunk_collect it =
     (case chunk_next it of
        None \<Rightarrow> Some []
      | Some (chunk, it') \<Rightarrow>
          Option.bind (chunk_collect it') (\<lambda>chunks. Some (chunk # chunks)))"

text \<open>An iterator from \<^verbatim>\<open>into_chunks\<close> always ends.\<close>

lemma chunk_collect_chunks_of:
  "chunk_collect \<lparr>chunk_source = source, chunk_max_size = Suc k\<rparr> = Some (chunks_of k source)"
proof (induction k source rule: chunks_of.induct)
  case (1 k source)
  show ?case
  proof (cases "source = []")
    case True
    then show ?thesis by (simp add: chunk_collect.simps chunk_next_def)
  next
    case False
    have "take (min (Suc k) (length source)) source = take (Suc k) source"
      and "drop (min (Suc k) (length source)) source = drop (Suc k) source"
      by (simp_all add: min_def)
    with "1.IH" [OF False] False show ?thesis
      by (subst chunk_collect.simps) (simp add: chunk_next_def chunks_of_step)
  qed
qed

section \<open>The packetizer\<close>

record packetizer =
  pk_handle :: handle
  pk_mtu_size :: nat
  pk_sequence :: "u16 counter"
  pk_frame_number :: "u16 counter"
  pk_clock :: clock

record packetizer_frame =
  pf_payload :: bytes
  pf_extensions :: extensions

datatype packetizer_error = MtuTooShort

definition CLOCK_RATE :: nat where "CLOCK_RATE = 90000"

text \<open>
  \<^verbatim>\<open>Packetizer::new\<close>: the current instant and the random initial timestamp come from the
  standard library and the \<^verbatim>\<open>rand\<close> crate.
\<close>

definition packetizer_new :: "handle \<Rightarrow> nat \<Rightarrow> instant \<Rightarrow> u32 \<Rightarrow> packetizer" where
  "packetizer_new h mtu now rnd =
     \<lparr>pk_handle = h, pk_mtu_size = mtu, pk_sequence = Counter 0, pk_frame_number = Counter 0,
      pk_clock = clock_new now (timestamp_random rnd)\<rparr>"

definition frame_marker_at :: "nat \<Rightarrow> nat \<Rightarrow> frame_marker" where
  "frame_marker_at index packet_count =
     (if packet_count \<le> 1 then Single
      else if index = 0 then Start
      else if index = packet_count - 1 then Final
      else Inter)"

text \<open>The closure mapped over the enumerated chunks, which advances the sequence counter.\<close>

fun emit_packets ::
    "header \<Rightarrow> nat \<Rightarrow> nat \<Rightarrow> u16 counter \<Rightarrow> bytes list \<Rightarrow> packet list \<times> u16 counter" where
  "emit_packets h packet_count index c [] = ([], c)"
| "emit_packets h packet_count index c (payload # chunks) =
     (let (s, c') = get_then_increment c;
          (ps, c'') = emit_packets h packet_count (Suc index) c' chunks
      in (\<lparr>pkt_header = h\<lparr>marker := frame_marker_at index packet_count, sequence := s\<rparr>,
           pkt_payload = payload\<rparr> # ps, c''))"

definition packetize ::
    "packetizer_frame \<Rightarrow> instant \<Rightarrow> (packetizer, packetizer_error, packet list) comp" where
  "packetize frame now = (\<lambda>p.
     let (ts, clk) = clock_now CLOCK_RATE (pk_clock p) now;
         p = p\<lparr>pk_clock := clk\<rparr>;
         h = \<lparr>marker = Inter, track_handle = pk_handle p, sequence = 0, frame_number = 0,
              timestamp_of = ts, extensions_of = pf_extensions frame\<rparr>;
         max_payload_size = pk_mtu_size p - header_serialized_len h
     in if max_payload_size = 0 then (Err MtuTooShort, p)
        else
          let (n, fc) = get_then_increment (pk_frame_number p);
              p = p\<lparr>pk_frame_number := fc\<rparr>;
              h = h\<lparr>frame_number := n\<rparr>;
              packet_count = div_ceil (length (pf_payload frame)) max_payload_size
          in case into_chunks (pf_payload frame) max_payload_size of
               Ok it \<Rightarrow>
                 (case chunk_collect it of
                    Some chunks \<Rightarrow>
                      let (ps, sc) = emit_packets h packet_count 0 (pk_sequence p) chunks
                      in (Ok ps, p\<lparr>pk_sequence := sc\<rparr>)
                  | None \<Rightarrow> (Panic, p))
             | Err e \<Rightarrow> (Err e, p)
             | Panic \<Rightarrow> (Panic, p))"

section \<open>What packetizing produces\<close>

text \<open>The header all packets of a frame share, and the room it leaves for the payload.\<close>

definition frame_header :: "packetizer \<Rightarrow> packetizer_frame \<Rightarrow> instant \<Rightarrow> header" where
  "frame_header p frame now =
     \<lparr>marker = Inter, track_handle = pk_handle p, sequence = 0,
      frame_number = counter_get (pk_frame_number p),
      timestamp_of = fst (clock_now CLOCK_RATE (pk_clock p) now),
      extensions_of = pf_extensions frame\<rparr>"

definition payload_room :: "packetizer \<Rightarrow> packetizer_frame \<Rightarrow> nat" where
  "payload_room p frame =
     pk_mtu_size p - (12 + (if has_extensions (pf_extensions frame)
        then 2 + 4 * div_ceil (extensions_serialized_len (pf_extensions frame)) 4 else 0))"

definition packet_at :: "header \<Rightarrow> u16 \<Rightarrow> bytes list \<Rightarrow> nat \<Rightarrow> packet" where
  "packet_at h s chunks j =
     \<lparr>pkt_header = h\<lparr>marker := frame_marker_at j (length chunks), sequence := s + of_nat j\<rparr>,
      pkt_payload = chunks ! j\<rparr>"

lemma upt_0_Suc: "[0..<Suc n] = 0 # map Suc [0..<n]"
  by (simp add: map_Suc_upt upt_conv_Cons del: upt_Suc)

lemma mtu_room:
  "extensions_of h = pf_extensions frame \<Longrightarrow>
     pk_mtu_size p - header_serialized_len h = payload_room p frame"
  by (simp add: payload_room_def header_serialized_len_cases)

lemma payload_room_clock [simp]: "payload_room (p\<lparr>pk_clock := clk\<rparr>) frame = payload_room p frame"
  by (simp add: payload_room_def)

lemma emit_packets_closed:
  "emit_packets h n i (Counter s) chunks =
     (map (\<lambda>j. \<lparr>pkt_header = h\<lparr>marker := frame_marker_at (i + j) n, sequence := s + of_nat j\<rparr>,
               pkt_payload = chunks ! j\<rparr>) [0..<length chunks],
      Counter (s + of_nat (length chunks)))"
proof (induction chunks arbitrary: i s)
  case (Cons c chunks)
  show ?case
    by (simp only: list.size(4) plus_1_eq_Suc add_Suc_right add_0_right upt_0_Suc list.map map_map)
      (simp add: Cons.IH wrapping_inc_def algebra_simps comp_def)
qed simp

lemma packetize_closed:
  fixes p frame now
  defines "chunks \<equiv> chunks_of (payload_room p frame - 1) (pf_payload frame)"
    and "s \<equiv> counter_get (pk_sequence p)"
    and "clk \<equiv> snd (clock_now CLOCK_RATE (pk_clock p) now)"
  shows "packetize frame now p =
     (if payload_room p frame = 0 then (Err MtuTooShort, p\<lparr>pk_clock := clk\<rparr>)
      else (Ok (map (packet_at (frame_header p frame now) s chunks) [0..<length chunks]),
            p\<lparr>pk_clock := clk, pk_sequence := Counter (s + of_nat (length chunks)),
              pk_frame_number := Counter (counter_get (pk_frame_number p) + 1)\<rparr>))"
proof (cases "payload_room p frame")
  case 0
  then show ?thesis
    by (simp add: packetize_def clk_def Let_def split_beta mtu_room del: diff_is_0_eq)
next
  case (Suc k)
  obtain s0 n0 where c: "pk_sequence p = Counter s0" "pk_frame_number p = Counter n0"
    by (metis counter.exhaust)
  have len: "div_ceil (length (pf_payload frame)) (Suc k) = length chunks"
    by (simp add: chunks_def Suc length_chunks_of)
  have col: "chunk_collect \<lparr>chunk_source = pf_payload frame, chunk_max_size = Suc k\<rparr> = Some chunks"
    by (simp add: chunks_def Suc chunk_collect_chunks_of)
  show ?thesis
    by (simp add: packetize_def Let_def split_beta mtu_room Suc into_chunks_def len col
        emit_packets_closed c s_def clk_def packet_at_def [abs_def] frame_header_def
        wrapping_inc_def del: diff_is_0_eq)
qed

lemma packetize_Ok:
  assumes "packetize frame now p = (Ok ps, p')"
  defines "chunks \<equiv> chunks_of (payload_room p frame - 1) (pf_payload frame)"
  shows "0 < payload_room p frame"
    and "ps = map (packet_at (frame_header p frame now) (counter_get (pk_sequence p)) chunks)
           [0..<length chunks]"
    and "p' = p\<lparr>pk_clock := snd (clock_now CLOCK_RATE (pk_clock p) now),
           pk_sequence := Counter (counter_get (pk_sequence p) + of_nat (length chunks)),
           pk_frame_number := Counter (counter_get (pk_frame_number p) + 1)\<rparr>"
  using assms(1) by (auto simp: packetize_closed chunks_def split: if_splits)

lemma map_packet_at_payloads [simp]:
  "map (\<lambda>j. pkt_payload (packet_at h s chunks j)) [0..<length chunks] = chunks"
  by (simp add: packet_at_def map_nth)

lemma packetize_wf:
  assumes "packetize frame now p = (Ok ps, p')"
    and "valid_handle (pk_handle p)" and "wf_extensions (pf_extensions frame)" and "q \<in> set ps"
  shows "wf_packet q"
  using assms(2-4)
  by (auto simp: packetize_Ok(2) [OF assms(1)] packet_at_def wf_packet_def wf_header_def
      frame_header_def)

text \<open>
  C16. A packetized frame is cut without loss and fits the transport: the payloads of the
  packets, in order, are the frame's payload; there are exactly as many as the room that the
  header leaves in the MTU asks for; none is empty and none is longer on the wire than the
  MTU; and each is a packet the writer accepts.
\<close>

theorem packetize_cuts_frame:
  assumes "packetize frame now p = (Ok ps, p')"
    and "valid_handle (pk_handle p)" and "wf_extensions (pf_extensions frame)"
  shows "concat (map pkt_payload ps) = pf_payload frame
    \<and> length ps = div_ceil (length (pf_payload frame)) (payload_room p frame)
    \<and> (\<forall>q \<in> set ps. wf_packet q \<and> pkt_payload q \<noteq> [] \<and> packet_serialized_len q \<le> pk_mtu_size p)"
proof (intro conjI ballI)
  note ok = packetize_Ok [OF assms(1)]
  let ?chunks = "chunks_of (payload_room p frame - 1) (pf_payload frame)"
  show "concat (map pkt_payload ps) = pf_payload frame"
    by (simp add: ok(2) comp_def)
  show "length ps = div_ceil (length (pf_payload frame)) (payload_room p frame)"
    using ok(1) by (simp add: ok(2) length_chunks_of)
  fix q assume "q \<in> set ps"
  then obtain j where j: "j < length ?chunks"
    and q: "q = packet_at (frame_header p frame now) (counter_get (pk_sequence p)) ?chunks j"
    by (auto simp: ok(2))
  have chunk: "?chunks ! j \<noteq> []" "length (?chunks ! j) \<le> payload_room p frame"
    using chunks_of_length [of "?chunks ! j" "payload_room p frame - 1" "pf_payload frame"] j ok(1)
    by auto
  then show "pkt_payload q \<noteq> []" by (simp add: q packet_at_def)
  show "wf_packet q" by (rule packetize_wf [OF assms \<open>q \<in> set ps\<close>])
  show "packet_serialized_len q \<le> pk_mtu_size p"
    using chunk(2) ok(1) mtu_room [of "pkt_header q" frame p]
    by (simp add: q packet_at_def packet_serialized_len_def frame_header_def)
qed

text \<open>
  C27. The headers of a frame's packets. The packets carry consecutive sequence numbers that
  continue, modulo \<open>2 ^ 16\<close>, where the previous frame stopped; they share the frame number,
  the timestamp and the extensions; the markers are Single for a lone packet and otherwise
  Start, Inter, ..., Inter, Final. The frame number advances by one per frame.
\<close>

theorem packetize_headers:
  assumes "packetize frame now p = (Ok ps, p')"
  shows "(\<forall>i < length ps. pkt_header (ps ! i) =
      \<lparr>marker = (if length ps = 1 then Single else if i = 0 then Start
                 else if Suc i = length ps then Final else Inter),
       track_handle = pk_handle p,
       sequence = counter_get (pk_sequence p) + word_of_nat i,
       frame_number = counter_get (pk_frame_number p),
       timestamp_of = fst (clock_now CLOCK_RATE (pk_clock p) now),
       extensions_of = pf_extensions frame\<rparr>)
    \<and> counter_get (pk_sequence p') = counter_get (pk_sequence p) + word_of_nat (length ps)
    \<and> counter_get (pk_frame_number p') = counter_get (pk_frame_number p) + 1
    \<and> pk_handle p' = pk_handle p \<and> pk_mtu_size p' = pk_mtu_size p"
  using packetize_Ok [OF assms]
  by (auto simp: packet_at_def frame_header_def frame_marker_at_def)

text \<open>
  Packetizing never panics and has one error: the header, with the frame's extensions,
  leaves no room in the MTU. Then the frame consumes neither a frame number nor a sequence
  number; only the clock has moved.
\<close>

lemma packetize_error:
  "(fst (packetize frame now p) = Err MtuTooShort
      \<longleftrightarrow> pk_mtu_size p \<le> header_serialized_len (frame_header p frame now))
   \<and> fst (packetize frame now p) \<noteq> Panic
   \<and> (\<exists>clk. snd (packetize frame now p) =
        (if pk_mtu_size p \<le> header_serialized_len (frame_header p frame now)
         then p\<lparr>pk_clock := clk\<rparr>
         else p\<lparr>pk_clock := clk,
                pk_sequence := Counter (counter_get (pk_sequence p)
                  + word_of_nat (div_ceil (length (pf_payload frame)) (payload_room p frame))),
                pk_frame_number := Counter (counter_get (pk_frame_number p) + 1)\<rparr>))"
proof -
  have "payload_room p frame = 0 \<longleftrightarrow> pk_mtu_size p \<le> header_serialized_len (frame_header p frame now)"
    using mtu_room [of "frame_header p frame now" frame p]
    by (simp add: frame_header_def flip: diff_is_0_eq)
  then show ?thesis
    by (auto simp: packetize_closed length_chunks_of)
qed

definition example_packetizer :: packetizer where
  "example_packetizer =
     \<lparr>pk_handle = Handle 1, pk_mtu_size = 14, pk_sequence = Counter 0xFFFF,
      pk_frame_number = Counter 7, pk_clock = clock_new 0 (Timestamp 5)\<rparr>"

definition example_frame :: packetizer_frame where
  "example_frame = \<lparr>pf_payload = [1, 2, 3, 4, 5], pf_extensions = extensions_default\<rparr>"

lemma example_room: "payload_room example_packetizer example_frame = 2"
  by (simp add: payload_room_def example_packetizer_def example_frame_def extensions_default_def
      has_extensions_def)

lemma example_packetize: "\<exists>ps p'. packetize example_frame 0 example_packetizer = (Ok ps, p')"
  by (simp add: packetize_closed example_room)

theorem packetize_cuts_frame_witness:
  "\<exists>ps p'. packetize example_frame 0 example_packetizer = (Ok ps, p') \<and> length ps = 3
     \<and> concat (map pkt_payload ps) = [1, 2, 3, 4, 5]"
proof -
  obtain ps p' where e: "packetize example_frame 0 example_packetizer = (Ok ps, p')"
    using example_packetize by blast
  have "concat (map pkt_payload ps) = pf_payload example_frame
      \<and> length ps = div_ceil (length (pf_payload example_frame)) (payload_room example_packetizer example_frame)"
    using packetize_cuts_frame [OF e]
    by (simp add: example_packetizer_def example_frame_def valid_handle_def wf_extensions_def
        extensions_default_def)
  moreover have "pf_payload example_frame = [1, 2, 3, 4, 5]" by (simp add: example_frame_def)
  ultimately show ?thesis
    using e by (auto simp: example_room div_ceil_def)
qed

theorem packetize_headers_witness:
  "\<exists>ps p'. packetize example_frame 0 example_packetizer = (Ok ps, p')
     \<and> counter_get (pk_frame_number p') = 8"
proof -
  obtain ps p' where e: "packetize example_frame 0 example_packetizer = (Ok ps, p')"
    using example_packetize by blast
  with packetize_headers [OF e] show ?thesis by (auto simp: example_packetizer_def)
qed

end
