(* ===== verification/Depacketizer.thy ===== *)
theory Depacketizer
  imports Packetizer
begin

text \<open>
  The subscriber's side of a data track: \<^verbatim>\<open>remote/depacketizer.rs\<close>, which puts frames back
  together from packets. The \<^verbatim>\<open>BTreeMap\<close> of payloads is an association list with distinct
  keys. The conditions of \<^verbatim>\<open>debug_assert!\<close> are lemmas here, not branches: the markers hold by
  the dispatch in \<^verbatim>\<open>push\<close>, the capacity of the buffer by \<open>finalize_loop_capacity\<close>.
\<close>

section \<open>Data\<close>

record depacketizer_frame =
  df_payload :: bytes
  df_extensions :: extensions

record partial_frame =
  pt_frame_number :: u16
  pt_start_sequence :: u16
  pt_extensions :: extensions
  pt_payloads :: "(u16 \<times> bytes) list"

record depacketizer =
  dp_partial :: "partial_frame option"

datatype drop_reason = Interrupted | UnknownFrame | BufferFull | Incomplete (received: u16) (expected: u16)

record drop_error =
  de_frame_number :: u16
  de_reason :: drop_reason

record push_result =
  pr_frame :: "depacketizer_frame option"
  pr_drop_error :: "drop_error option"

definition push_result_default :: push_result where
  "push_result_default = \<lparr>pr_frame = None, pr_drop_error = None\<rparr>"

definition push_result_from_frame :: "depacketizer_frame \<Rightarrow> push_result" where
  "push_result_from_frame f = push_result_default\<lparr>pr_frame := Some f\<rparr>"

definition push_result_from_drop :: "drop_error \<Rightarrow> push_result" where
  "push_result_from_drop e = push_result_default\<lparr>pr_drop_error := Some e\<rparr>"

lemmas push_result_defs =
  push_result_default_def push_result_from_frame_def push_result_from_drop_def

section \<open>Operations\<close>

definition MAX_BUFFER_PACKETS :: nat where "MAX_BUFFER_PACKETS = 128"

definition depacketizer_new :: depacketizer where
  "depacketizer_new = \<lparr>dp_partial = None\<rparr>"

definition frame_from_single :: "packet \<Rightarrow> depacketizer \<Rightarrow> push_result \<times> depacketizer" where
  "frame_from_single q d =
     (let result = push_result_default;
          result = (case dp_partial d of
              None \<Rightarrow> result
            | Some partial \<Rightarrow> result\<lparr>pr_drop_error :=
                Some \<lparr>de_frame_number = pt_frame_number partial, de_reason = Interrupted\<rparr>\<rparr>);
          d = d\<lparr>dp_partial := None\<rparr>
      in (result\<lparr>pr_frame := Some \<lparr>df_payload = pkt_payload q,
                   df_extensions = extensions_of (pkt_header q)\<rparr>\<rparr>, d))"

definition begin_partial :: "packet \<Rightarrow> depacketizer \<Rightarrow> push_result \<times> depacketizer" where
  "begin_partial q d =
     (let result = push_result_default;
          result = (case dp_partial d of
              None \<Rightarrow> result
            | Some partial \<Rightarrow> result\<lparr>pr_drop_error :=
                Some \<lparr>de_frame_number = pt_frame_number partial, de_reason = Interrupted\<rparr>\<rparr>);
          start = sequence (pkt_header q);
          partial = \<lparr>pt_frame_number = frame_number (pkt_header q), pt_start_sequence = start,
             pt_extensions = extensions_of (pkt_header q), pt_payloads = [(start, pkt_payload q)]\<rparr>
      in (result, d\<lparr>dp_partial := Some partial\<rparr>))"

text \<open>The loop of \<^verbatim>\<open>finalize\<close>, which removes what it appends.\<close>

function finalize_loop ::
    "u16 \<Rightarrow> (u16 \<times> bytes) list \<Rightarrow> u16 \<Rightarrow> bytes \<Rightarrow> bytes option" where
  "finalize_loop end_sequence payloads s payload =
     (case map_of payloads s of
        None \<Rightarrow> None
      | Some chunk \<Rightarrow>
          if s \<noteq> end_sequence
          then finalize_loop end_sequence (AList.delete s payloads) (s + 1) (payload @ chunk)
          else Some (payload @ chunk))"
  by pat_completeness auto
termination
  by (relation "measure (\<lambda>(e, payloads, s, payload). length payloads)")
    (auto intro: length_AList_delete_less dest: map_of_SomeD)

declare finalize_loop.simps [simp del]

definition finalize :: "partial_frame \<Rightarrow> u16 \<Rightarrow> push_result" where
  "finalize partial end_sequence =
     (let received = word_of_nat (length (pt_payloads partial))
      in case finalize_loop end_sequence (pt_payloads partial) (pt_start_sequence partial) [] of
           Some payload \<Rightarrow> push_result_from_frame
             \<lparr>df_payload = payload, df_extensions = pt_extensions partial\<rparr>
         | None \<Rightarrow> push_result_from_drop
             \<lparr>de_frame_number = pt_frame_number partial,
              de_reason = Incomplete received (end_sequence - pt_start_sequence partial + 1)\<rparr>)"

definition push_to_partial :: "packet \<Rightarrow> depacketizer \<Rightarrow> push_result \<times> depacketizer" where
  "push_to_partial q d =
     (case dp_partial d of
        None \<Rightarrow> (push_result_from_drop
            \<lparr>de_frame_number = frame_number (pkt_header q), de_reason = UnknownFrame\<rparr>, d)
      | Some partial \<Rightarrow>
          let d = d\<lparr>dp_partial := None\<rparr>;
              drop = (\<lambda>reason. push_result_from_drop
                \<lparr>de_frame_number = pt_frame_number partial, de_reason = reason\<rparr>)
          in if frame_number (pkt_header q) \<noteq> pt_frame_number partial then (drop Interrupted, d)
             else if length (pt_payloads partial) \<ge> MAX_BUFFER_PACKETS then (drop BufferFull, d)
             else
               let partial = partial\<lparr>pt_payloads :=
                     AList.update (sequence (pkt_header q)) (pkt_payload q) (pt_payloads partial)\<rparr>
               in if marker (pkt_header q) = Final
                  then (finalize partial (sequence (pkt_header q)), d)
                  else (push_result_default, d\<lparr>dp_partial := Some partial\<rparr>))"

definition push :: "packet \<Rightarrow> depacketizer \<Rightarrow> push_result \<times> depacketizer" where
  "push q d =
     (case marker (pkt_header q) of
        Single \<Rightarrow> frame_from_single q d
      | Start \<Rightarrow> begin_partial q d
      | Inter \<Rightarrow> push_to_partial q d
      | Final \<Rightarrow> push_to_partial q d)"

text \<open>A caller that pushes packets one after the other.\<close>

fun push_all :: "packet list \<Rightarrow> depacketizer \<Rightarrow> push_result list \<times> depacketizer" where
  "push_all [] d = ([], d)"
| "push_all (q # qs) d =
     (let (r, d') = push q d; (rs, d'') = push_all qs d' in (r # rs, d''))"

section \<open>The reassembly loop\<close>

lemma finalize_loop_spec:
  "unat (e - s) = n \<Longrightarrow>
   finalize_loop e pl s acc =
     map_option (\<lambda>cs. acc @ concat cs) (those (map (\<lambda>i. map_of pl (s + word_of_nat i)) [0..<Suc n]))"
proof (induction n arbitrary: s pl acc)
  case 0
  then have "e = s" by (metis unsigned_0 unsigned_word_eqI right_minus_eq)
  then show ?case
    by (subst finalize_loop.simps) (simp split: option.splits)
next
  case (Suc n)
  then have ne: "s \<noteq> e" by auto
  have "unat (e - s) < 2 ^ LENGTH(16)" by (rule unsigned_less)
  then have bound: "Suc n < 2 ^ 16" by (simp add: Suc.prems)
  have next_n: "unat (e - (s + 1)) = n"
  proof -
    have "unat (e - s - 1) = unat (e - s) - 1"
      using Suc.prems by (intro unat_minus_one) auto
    then show ?thesis using Suc.prems by (simp add: algebra_simps)
  qed
  have others: "map_of (AList.delete s pl) (s + 1 + word_of_nat i) = map_of pl (s + word_of_nat (Suc i))"
    if "i < Suc n" for i
  proof -
    have "unat (word_of_nat (Suc i) :: u16) = Suc i"
      using that bound by (simp add: unat_of_nat take_bit_nat_eq_self del: of_nat_Suc)
    then have "(word_of_nat (Suc i) :: u16) \<noteq> 0" by (metis unsigned_0 nat.distinct(1))
    then have "s + word_of_nat (Suc i) \<noteq> s" by simp
    then show ?thesis by (simp add: AList.delete_conv' algebra_simps)
  qed
  have rest: "map (\<lambda>i. map_of (AList.delete s pl) (s + 1 + word_of_nat i)) [0..<Suc n]
      = map (\<lambda>i. map_of pl (s + word_of_nat i)) (map Suc [0..<Suc n])"
    unfolding map_map by (rule map_cong) (auto simp: others simp del: of_nat_Suc)
  show ?case
    unfolding upt_0_Suc [of "Suc n"] list.map(2) rest [symmetric]
    by (subst finalize_loop.simps)
      (simp add: Suc.IH [OF next_n] ne option.map_comp comp_def split: option.splits del: upt_Suc)
qed

text \<open>
  The condition that \<^verbatim>\<open>finalize\<close> asserts while it runs: the payload never outgrows the
  capacity reserved for it, the sum of the lengths of the buffered payloads.
\<close>

lemma sum_list_delete:
  "map_of pl s = Some c \<Longrightarrow>
     length c + sum_list (map (\<lambda>a. length (snd a)) (AList.delete s pl)) \<le> sum_list (map (\<lambda>a. length (snd a)) pl)"
proof (induction pl)
  case (Cons x pl)
  have "sum_list (map (\<lambda>a. length (snd a)) (AList.delete s pl)) \<le> sum_list (map (\<lambda>a. length (snd a)) pl)"
    by (induction pl) auto
  with Cons show ?case by (cases x) (auto split: if_splits)
qed simp

lemma finalize_loop_capacity:
  "finalize_loop e pl s acc = Some payload \<Longrightarrow>
     length payload \<le> length acc + sum_list (map (\<lambda>a. length (snd a)) pl)"
proof (induction e pl s acc rule: finalize_loop.induct)
  case (1 e pl s acc)
  from 1(2) obtain c where c: "map_of pl s = Some c"
    by (subst (asm) finalize_loop.simps) (auto split: option.splits)
  show ?case
  proof (cases "s = e")
    case True
    with 1(2) c sum_list_delete [OF c] show ?thesis
      by (subst (asm) finalize_loop.simps) auto
  next
    case False
    with 1(2) c have "finalize_loop e (AList.delete s pl) (s + 1) (acc @ c) = Some payload"
      by (subst (asm) finalize_loop.simps) auto
    from 1(1) [OF c False this] sum_list_delete [OF c] show ?thesis by simp
  qed
qed

section \<open>Buffering packets of one frame\<close>

definition entry_of :: "packet \<Rightarrow> u16 \<times> bytes" where
  "entry_of q = (sequence (pkt_header q), pkt_payload q)"

lemma distinct_AList_update:
  "distinct (map fst xs) \<Longrightarrow> distinct (map fst (AList.update k v xs))"
  by (rule AList.distinct_update)

text \<open>
  Inter packets of the frame under assembly, in any order and with repetitions: as long as
  they are consistent (a sequence number determines the payload) and fit the buffer, the
  buffer collects exactly their entries and nothing is reported.
\<close>

lemma push_all_inter:
  assumes "finite K" and "inj_on fst K"
  shows "\<lbrakk>dp_partial d = Some pt; distinct (map fst (pt_payloads pt)); set (pt_payloads pt) \<subseteq> K;
      card K < MAX_BUFFER_PACKETS \<or> length (pt_payloads pt) + length qs \<le> MAX_BUFFER_PACKETS;
      \<forall>q \<in> set qs. marker (pkt_header q) = Inter
        \<and> frame_number (pkt_header q) = pt_frame_number pt \<and> entry_of q \<in> K\<rbrakk> \<Longrightarrow>
    \<exists>pl. push_all qs d = (replicate (length qs) push_result_default,
             d\<lparr>dp_partial := Some (pt\<lparr>pt_payloads := pl\<rparr>)\<rparr>)
       \<and> distinct (map fst pl) \<and> set pl = set (pt_payloads pt) \<union> entry_of ` set qs"
proof (induction qs arbitrary: d pt)
  case Nil
  then show ?case by (intro exI [of _ "pt_payloads pt"]) simp
next
  case (Cons q qs)
  let ?pl = "AList.update (sequence (pkt_header q)) (pkt_payload q) (pt_payloads pt)"
  have q: "marker (pkt_header q) = Inter" "frame_number (pkt_header q) = pt_frame_number pt"
    "entry_of q \<in> K"
    using Cons.prems(5) by auto
  have "length (pt_payloads pt) = card (set (pt_payloads pt))"
    using Cons.prems(2) by (metis distinct_card distinct_map)
  also have "\<dots> \<le> card K" by (rule card_mono [OF assms(1) Cons.prems(3)])
  finally have room: "length (pt_payloads pt) < MAX_BUFFER_PACKETS"
    using Cons.prems(4) by auto
  have set_pl: "set ?pl = insert (entry_of q) (set (pt_payloads pt))"
  proof -
    have "inj_on fst (insert (sequence (pkt_header q), pkt_payload q) (set (pt_payloads pt)))"
      using Cons.prems(3) q(3) by (intro inj_on_subset [OF assms(2)]) (simp add: entry_of_def)
    from set_AList_update_consistent [OF Cons.prems(2) this] show ?thesis
      by (simp only: entry_of_def)
  qed
  have step: "push q d = (push_result_default, d\<lparr>dp_partial := Some (pt\<lparr>pt_payloads := ?pl\<rparr>)\<rparr>)"
    using q Cons.prems(1) room by (simp add: push_def push_to_partial_def Let_def)
  have "\<exists>pl. push_all qs (d\<lparr>dp_partial := Some (pt\<lparr>pt_payloads := ?pl\<rparr>)\<rparr>) =
        (replicate (length qs) push_result_default,
         (d\<lparr>dp_partial := Some (pt\<lparr>pt_payloads := ?pl\<rparr>)\<rparr>)\<lparr>dp_partial :=
            Some (pt\<lparr>pt_payloads := ?pl, pt_payloads := pl\<rparr>)\<rparr>)
      \<and> distinct (map fst pl)
      \<and> set pl = set (pt_payloads (pt\<lparr>pt_payloads := ?pl\<rparr>)) \<union> entry_of ` set qs"
  proof (rule Cons.IH)
    show "card K < MAX_BUFFER_PACKETS
        \<or> length (pt_payloads (pt\<lparr>pt_payloads := ?pl\<rparr>)) + length qs \<le> MAX_BUFFER_PACKETS"
      using Cons.prems(4) by (auto simp: length_AList_update)
  qed (use Cons.prems set_pl q in \<open>auto intro: distinct_AList_update\<close>)
  then obtain pl where "push_all qs (d\<lparr>dp_partial := Some (pt\<lparr>pt_payloads := ?pl\<rparr>)\<rparr>) =
        (replicate (length qs) push_result_default,
         d\<lparr>dp_partial := Some (pt\<lparr>pt_payloads := pl\<rparr>)\<rparr>)"
      and "distinct (map fst pl)" and "set pl = set ?pl \<union> entry_of ` set qs"
    by auto
  then show ?case
    by (intro exI [of _ pl]) (simp add: step set_pl)
qed

text \<open>The packets of one frame, as a publisher numbers them.\<close>

definition frame_packets :: "packet list \<Rightarrow> bool" where
  "frame_packets ps \<longleftrightarrow> 2 \<le> length ps \<and> length ps < 2 ^ 16
     \<and> (\<forall>i < length ps. pkt_header (ps ! i) = (pkt_header (ps ! 0))\<lparr>
          marker := (if i = 0 then Start else if Suc i = length ps then Final else Inter),
          sequence := sequence (pkt_header (ps ! 0)) + word_of_nat i\<rparr>)"

definition inner :: "'a list \<Rightarrow> 'a list" where
  "inner ps = butlast (tl ps)"

lemma set_inner: "set (inner ps) = {ps ! i | i. 0 < i \<and> Suc i < length ps}"
proof -
  have nth: "inner ps ! i = ps ! Suc i" if "i < length (inner ps)" for i
    using that by (simp add: inner_def nth_butlast nth_tl)
  have len: "length (inner ps) = length ps - 2" by (simp add: inner_def)
  show ?thesis
  proof (intro set_eqI iffI)
    fix q assume "q \<in> set (inner ps)"
    then obtain i where "i < length (inner ps)" "q = inner ps ! i"
      by (metis in_set_conv_nth)
    with nth len have "q = ps ! Suc i \<and> 0 < Suc i \<and> Suc (Suc i) < length ps" by simp
    then show "q \<in> {ps ! i | i. 0 < i \<and> Suc i < length ps}" by blast
  next
    fix q assume "q \<in> {ps ! i | i. 0 < i \<and> Suc i < length ps}"
    then obtain i where "q = ps ! Suc i" "Suc (Suc i) < length ps"
      by (auto simp: gr0_conv_Suc)
    moreover from this have "i < length (inner ps)" by (simp add: len)
    ultimately show "q \<in> set (inner ps)" using nth [of i] nth_mem [of i "inner ps"] by simp
  qed
qed

lemma frame_packets_nth:
  assumes "frame_packets ps" and "i < length ps"
  shows "entry_of (ps ! i) = (sequence (pkt_header (ps ! 0)) + word_of_nat i, pkt_payload (ps ! i))"
    and "frame_number (pkt_header (ps ! i)) = frame_number (pkt_header (ps ! 0))"
    and "marker (pkt_header (ps ! i)) = (if i = 0 then Start else if Suc i = length ps then Final else Inter)"
proof -
  have "pkt_header (ps ! i) = (pkt_header (ps ! 0))\<lparr>
          marker := (if i = 0 then Start else if Suc i = length ps then Final else Inter),
          sequence := sequence (pkt_header (ps ! 0)) + word_of_nat i\<rparr>"
    using assms by (simp add: frame_packets_def)
  then show "entry_of (ps ! i) = (sequence (pkt_header (ps ! 0)) + word_of_nat i, pkt_payload (ps ! i))"
    and "frame_number (pkt_header (ps ! i)) = frame_number (pkt_header (ps ! 0))"
    and "marker (pkt_header (ps ! i)) = (if i = 0 then Start else if Suc i = length ps then Final else Inter)"
    by (simp_all add: entry_of_def)
qed

lemma word_of_nat_inj_u16:
  assumes "i < 2 ^ 16" and "j < 2 ^ 16" and "(word_of_nat i :: u16) = word_of_nat j"
  shows "i = j"
proof -
  have "unat (word_of_nat i :: u16) = unat (word_of_nat j :: u16)" by (simp only: assms(3))
  with assms(1,2) show ?thesis by (simp add: unat_of_nat)
qed

lemma frame_packets_sequence_inj:
  assumes "frame_packets ps" and "i < length ps" and "j < length ps"
    and "fst (entry_of (ps ! i)) = fst (entry_of (ps ! j))"
  shows "i = j"
proof (rule word_of_nat_inj_u16)
  show "i < 2 ^ 16" "j < 2 ^ 16" using assms(1-3) by (simp_all add: frame_packets_def)
  show "(word_of_nat i :: u16) = word_of_nat j"
    using assms(4) by (simp only: frame_packets_nth(1) [OF assms(1,2)]
        frame_packets_nth(1) [OF assms(1,3)] fst_conv add_left_cancel)
qed

lemma inj_entry_of: "frame_packets ps \<Longrightarrow> inj_on entry_of (set ps)"
  by (rule inj_onI) (metis frame_packets_sequence_inj in_set_conv_nth)

lemma inj_fst_entries: "frame_packets ps \<Longrightarrow> inj_on fst (entry_of ` set ps)"
  by (rule inj_onI) (metis (no_types, lifting) frame_packets_sequence_inj image_iff in_set_conv_nth)

lemma push_all_append:
  "push_all (xs @ ys) d =
     (let (r1, d1) = push_all xs d; (r2, d2) = push_all ys d1 in (r1 @ r2, d2))"
  by (induction xs arbitrary: d) (simp_all add: Let_def split_beta)

text \<open>The last step on a buffer that holds some of the frame's entries.\<close>

lemma finalize_frame:
  assumes fp: "frame_packets ps" and dist: "distinct (map fst (pt_payloads pt))"
    and start: "pt_start_sequence pt = sequence (pkt_header (ps ! 0))"
    and buf: "set (pt_payloads pt) = entry_of ` S" and S: "S \<subseteq> set ps" "last ps \<in> S"
  shows "finalize pt (sequence (pkt_header (last ps))) =
    (if S = set ps
     then push_result_from_frame
       \<lparr>df_payload = concat (map pkt_payload ps), df_extensions = pt_extensions pt\<rparr>
     else push_result_from_drop
       \<lparr>de_frame_number = pt_frame_number pt,
        de_reason = Incomplete (word_of_nat (card S)) (word_of_nat (length ps))\<rparr>)"
proof -
  let ?s = "sequence (pkt_header (ps ! 0))" and ?n = "length ps - 1"
  let ?e = "sequence (pkt_header (last ps))"
  have n: "length ps = Suc ?n" "?n < 2 ^ 16" and lt: "?n < length ps" "ps \<noteq> []"
    using fp by (auto simp: frame_packets_def)
  have e: "?e = ?s + word_of_nat ?n"
    using frame_packets_nth(1) [OF fp lt(1)] lt(2) by (simp add: last_conv_nth entry_of_def)
  have dist_e: "unat (?e - ?s) = ?n"
    using n(2) by (simp add: e unat_of_nat)
  have len: "length (pt_payloads pt) = card S"
    using dist buf card_image [OF inj_on_subset [OF inj_entry_of [OF fp] S(1)]]
    by (metis distinct_card distinct_map)
  have lookup: "map_of (pt_payloads pt) (?s + word_of_nat i) =
      (if ps ! i \<in> S then Some (pkt_payload (ps ! i)) else None)" if i: "i < length ps" for i
  proof (cases "ps ! i \<in> S")
    case True
    then have "(?s + word_of_nat i, pkt_payload (ps ! i)) \<in> set (pt_payloads pt)"
      using frame_packets_nth(1) [OF fp i] by (metis buf imageI)
    with True show ?thesis by (simp add: map_of_iff_set [OF dist])
  next
    case False
    have "?s + word_of_nat i \<notin> fst ` set (pt_payloads pt)"
    proof
      assume "?s + word_of_nat i \<in> fst ` set (pt_payloads pt)"
      then obtain q where q: "q \<in> S" "fst (entry_of q) = ?s + word_of_nat i"
        by (auto simp: buf)
      then obtain j where j: "j < length ps" "q = ps ! j" using S(1) by (metis in_set_conv_nth subsetD)
      with q(2) have "fst (entry_of (ps ! j)) = fst (entry_of (ps ! i))"
        by (simp add: frame_packets_nth(1) [OF fp i])
      then have "j = i" by (rule frame_packets_sequence_inj [OF fp j(1) i])
      with j q(1) False show False by simp
    qed
    with False show ?thesis by (simp add: map_of_eq_None_iff)
  qed
  have run: "finalize_loop ?e (pt_payloads pt) (pt_start_sequence pt) [] =
      map_option concat (those (map (\<lambda>i. map_of (pt_payloads pt) (?s + word_of_nat i)) [0..<length ps]))"
    using finalize_loop_spec [OF dist_e, of "pt_payloads pt" "[]"] by (simp only: start append_Nil n(1) [symmetric])
  show ?thesis
  proof (cases "S = set ps")
    case True
    have "those (map (\<lambda>i. map_of (pt_payloads pt) (?s + word_of_nat i)) [0..<length ps])
        = Some (map (\<lambda>i. pkt_payload (ps ! i)) [0..<length ps])"
      by (rule those_cong_Some) (simp add: lookup True)
    moreover have "map (\<lambda>i. pkt_payload (ps ! i)) [0..<length ps] = map pkt_payload ps"
      by (rule nth_equalityI) simp_all
    ultimately show ?thesis using True run by (simp add: finalize_def Let_def)
  next
    case False
    then obtain i where "i < length ps" "ps ! i \<notin> S"
      using S(1) by (metis in_set_conv_nth psubsetI subsetI equalityI)
    then have "None \<in> set (map (\<lambda>i. map_of (pt_payloads pt) (?s + word_of_nat i)) [0..<length ps])"
      using lookup by force
    then have "those (map (\<lambda>i. map_of (pt_payloads pt) (?s + word_of_nat i)) [0..<length ps]) = None"
      by (rule those_None)
    moreover have "?e - pt_start_sequence pt + 1 = word_of_nat (length ps)"
      by (subst n(1)) (simp add: e start)
    ultimately show ?thesis using False run len by (simp add: finalize_def Let_def)
  qed
qed

lemma frame_split: "2 \<le> length ps \<Longrightarrow> ps = hd ps # inner ps @ [last ps]"
  by (cases ps; cases "tl ps") (simp_all add: inner_def)

lemma frame_packets_distinct: "frame_packets ps \<Longrightarrow> distinct ps"
  unfolding distinct_conv_nth by (metis frame_packets_sequence_inj)

text \<open>A whole frame, with any of its inner packets, in any order and any number of times.\<close>

lemma push_frame:
  assumes fp: "frame_packets ps" and small: "length ps \<le> MAX_BUFFER_PACKETS"
    and ms: "set ms \<subseteq> set (inner ps)"
  shows "push_all (hd ps # ms @ [last ps]) d =
    (push_result_default\<lparr>pr_drop_error := map_option (\<lambda>pt.
        \<lparr>de_frame_number = pt_frame_number pt, de_reason = Interrupted\<rparr>) (dp_partial d)\<rparr>
     # replicate (length ms) push_result_default
     @ [if set ms = set (inner ps)
        then push_result_from_frame \<lparr>df_payload = concat (map pkt_payload ps),
               df_extensions = extensions_of (pkt_header (hd ps))\<rparr>
        else push_result_from_drop \<lparr>de_frame_number = frame_number (pkt_header (hd ps)),
               de_reason = Incomplete (word_of_nat (card (set ms) + 2)) (word_of_nat (length ps))\<rparr>],
     d\<lparr>dp_partial := None\<rparr>)"
proof -
  let ?pt = "\<lparr>pt_frame_number = frame_number (pkt_header (hd ps)),
      pt_start_sequence = sequence (pkt_header (hd ps)),
      pt_extensions = extensions_of (pkt_header (hd ps)), pt_payloads = [entry_of (hd ps)]\<rparr>"
  let ?S = "insert (last ps) (insert (hd ps) (set ms))"
  let ?K = "entry_of ` set (butlast ps)"
  have two: "2 \<le> length ps" using fp by (simp add: frame_packets_def)
  note split = frame_split [OF two]
  have ends: "hd ps = ps ! 0" "last ps = ps ! (length ps - 1)"
    using two by (cases ps; simp add: hd_conv_nth last_conv_nth)+
  have "distinct (hd ps # inner ps @ [last ps])"
    using frame_packets_distinct [OF fp] split by simp
  then have apart: "hd ps \<notin> set (inner ps)" "last ps \<notin> set (inner ps)" "hd ps \<noteq> last ps"
    by auto
  have set_ps: "set ps = insert (last ps) (insert (hd ps) (set (inner ps)))"
    by (subst split) auto
  have "last ps \<notin> insert (hd ps) (set ms)" "last ps \<notin> insert (hd ps) (set (inner ps))" "hd ps \<notin> set ms"
    using ms apart by auto
  then have S: "?S \<subseteq> set ps" "?S = set ps \<longleftrightarrow> set ms = set (inner ps)" "card ?S = card (set ms) + 2"
    using ms apart(1) by (auto simp: set_ps insert_ident)
  have blast_ps: "set (butlast ps) = insert (hd ps) (set (inner ps))"
    by (subst split) (simp add: butlast_append)
  have K: "finite ?K" "inj_on fst ?K" "card ?K < MAX_BUFFER_PACKETS"
  proof -
    show "finite ?K" by simp
    show "inj_on fst ?K"
      by (rule inj_on_subset [OF inj_fst_entries [OF fp]]) (auto dest: in_set_butlastD)
    have "card ?K \<le> length (butlast ps)"
      by (metis card_image_le card_length finite_set le_trans)
    with small two show "card ?K < MAX_BUFFER_PACKETS" by simp
  qed
  have hdr: "marker (pkt_header q) = Inter \<and> frame_number (pkt_header q) = frame_number (pkt_header (hd ps))"
    if "q \<in> set (inner ps)" for q
    using that frame_packets_nth(2,3) [OF fp] by (auto simp: set_inner ends)
  have marks: "marker (pkt_header (hd ps)) = Start" "marker (pkt_header (last ps)) = Final"
      "frame_number (pkt_header (last ps)) = frame_number (pkt_header (hd ps))"
  proof -
    have lt: "0 < length ps" "length ps - 1 < length ps" and pos: "length ps - 1 \<noteq> 0"
      and "Suc (length ps - 1) = length ps" using two by auto
    with frame_packets_nth(2) [OF fp lt(2)] frame_packets_nth(3) [OF fp lt(1)]
      frame_packets_nth(3) [OF fp lt(2)]
    show "marker (pkt_header (hd ps)) = Start" "marker (pkt_header (last ps)) = Final"
      "frame_number (pkt_header (last ps)) = frame_number (pkt_header (hd ps))"
      unfolding ends by (simp_all only: if_True if_False simp_thms)
  qed
  have first: "push (hd ps) d =
     (push_result_default\<lparr>pr_drop_error := map_option (\<lambda>pt.
        \<lparr>de_frame_number = pt_frame_number pt, de_reason = Interrupted\<rparr>) (dp_partial d)\<rparr>,
      d\<lparr>dp_partial := Some ?pt\<rparr>)"
    using marks(1)
    by (cases "dp_partial d")
      (simp_all add: push_def begin_partial_def entry_of_def Let_def push_result_default_def)
  have "\<exists>pl. push_all ms (d\<lparr>dp_partial := Some ?pt\<rparr>) =
        (replicate (length ms) push_result_default,
         (d\<lparr>dp_partial := Some ?pt\<rparr>)\<lparr>dp_partial := Some (?pt\<lparr>pt_payloads := pl\<rparr>)\<rparr>)
      \<and> distinct (map fst pl) \<and> set pl = set (pt_payloads ?pt) \<union> entry_of ` set ms"
    by (rule push_all_inter [OF K(1,2)]) (use ms hdr K(3) in \<open>auto simp: blast_ps\<close>)
  then obtain pl where mid: "push_all ms (d\<lparr>dp_partial := Some ?pt\<rparr>) =
        (replicate (length ms) push_result_default,
         d\<lparr>dp_partial := Some (?pt\<lparr>pt_payloads := pl\<rparr>)\<rparr>)"
      and pl: "distinct (map fst pl)" "set pl = entry_of ` insert (hd ps) (set ms)"
    by auto
  let ?pl' = "AList.update (sequence (pkt_header (last ps))) (pkt_payload (last ps)) pl"
  have "set pl \<subseteq> ?K" using pl(2) ms by (auto simp: blast_ps)
  then have room: "length pl < MAX_BUFFER_PACKETS"
    using K(3) card_mono [OF K(1), of "set pl"] pl(1) by (metis distinct_card distinct_map le_less_trans)
  have ins: "insert (entry_of (last ps)) (set pl) = entry_of ` ?S" using pl(2) by auto
  have inj: "inj_on fst (insert (entry_of (last ps)) (set pl))"
    unfolding ins by (rule inj_on_subset [OF inj_fst_entries [OF fp] image_mono [OF S(1)]])
  have set_pl': "set ?pl' = entry_of ` ?S"
    using set_AList_update_consistent [OF pl(1) inj [unfolded entry_of_def]]
    by (simp only: ins [unfolded entry_of_def [of "last ps"]])
  have "push (last ps) (d\<lparr>dp_partial := Some (?pt\<lparr>pt_payloads := pl\<rparr>)\<rparr>) =
     (finalize (?pt\<lparr>pt_payloads := ?pl'\<rparr>) (sequence (pkt_header (last ps))), d\<lparr>dp_partial := None\<rparr>)"
    using marks(2,3) room by (simp add: push_def push_to_partial_def Let_def)
  moreover have "finalize (?pt\<lparr>pt_payloads := ?pl'\<rparr>) (sequence (pkt_header (last ps))) =
      (if ?S = set ps
       then push_result_from_frame \<lparr>df_payload = concat (map pkt_payload ps),
         df_extensions = pt_extensions (?pt\<lparr>pt_payloads := ?pl'\<rparr>)\<rparr>
       else push_result_from_drop \<lparr>de_frame_number = pt_frame_number (?pt\<lparr>pt_payloads := ?pl'\<rparr>),
         de_reason = Incomplete (word_of_nat (card ?S)) (word_of_nat (length ps))\<rparr>)"
    by (rule finalize_frame [OF fp])
      (use pl(1) set_pl' S(1) in \<open>auto simp: ends intro: distinct_AList_update\<close>)
  ultimately show ?thesis
    by (simp add: first push_all_append mid Let_def S(2,3))
qed

section \<open>From the packetizer to the depacketizer\<close>

lemma packetize_nth:
  assumes "packetize frame now p = (Ok ps, p')" and "i < length ps"
  shows "pkt_header (ps ! i) = (frame_header p frame now)\<lparr>
      marker := frame_marker_at i (length ps), sequence := counter_get (pk_sequence p) + word_of_nat i\<rparr>"
proof -
  note ok = packetize_Ok(2) [OF assms(1)]
  have "length ps = length (chunks_of (payload_room p frame - 1) (pf_payload frame))"
    by (subst ok) simp
  with assms(2) show ?thesis by (subst ok) (simp add: packet_at_def)
qed

lemma packetize_frame_packets:
  assumes "packetize frame now p = (Ok ps, p')" and "2 \<le> length ps" and "length ps < 2 ^ 16"
  shows "frame_packets ps"
proof -
  have "0 < length ps" using assms(2) by linarith
  note hdr = packetize_nth [OF assms(1)]
  show ?thesis
    unfolding frame_packets_def
  proof (intro conjI allI impI)
    fix i assume i: "i < length ps"
    have "frame_marker_at i (length ps) = (if i = 0 then Start else if Suc i = length ps then Final else Inter)"
      using assms(2) by (auto simp: frame_marker_at_def)
    with hdr [OF i] hdr [OF \<open>0 < length ps\<close>]
    show "pkt_header (ps ! i) = (pkt_header (ps ! 0))\<lparr>
          marker := (if i = 0 then Start else if Suc i = length ps then Final else Inter),
          sequence := sequence (pkt_header (ps ! 0)) + word_of_nat i\<rparr>"
      by simp
  qed (use assms in simp_all)
qed

lemma packetize_payloads:
  assumes "packetize frame now p = (Ok ps, p')"
  shows "concat (map pkt_payload ps) = pf_payload frame
     \<and> (\<forall>q \<in> set ps. extensions_of (pkt_header q) = pf_extensions frame
          \<and> frame_number (pkt_header q) = counter_get (pk_frame_number p)
          \<and> (length ps = 1 \<longrightarrow> marker (pkt_header q) = Single))"
proof
  show "concat (map pkt_payload ps) = pf_payload frame"
    by (simp add: packetize_Ok(2) [OF assms] comp_def)
  show "\<forall>q \<in> set ps. extensions_of (pkt_header q) = pf_extensions frame
          \<and> frame_number (pkt_header q) = counter_get (pk_frame_number p)
          \<and> (length ps = 1 \<longrightarrow> marker (pkt_header q) = Single)"
    using packetize_nth [OF assms]
    by (auto simp: in_set_conv_nth frame_header_def frame_marker_at_def)
qed

text \<open>What a new frame reports of the frame it finds unfinished.\<close>

definition interrupted :: "depacketizer \<Rightarrow> drop_error option" where
  "interrupted d = map_option (\<lambda>pt.
     \<lparr>de_frame_number = pt_frame_number pt, de_reason = Interrupted\<rparr>) (dp_partial d)"

text \<open>The order of delivery: first and last packet in place, the inner ones anyhow.\<close>

definition delivery :: "packet list \<Rightarrow> packet list \<Rightarrow> packet list" where
  "delivery ps ms = (if length ps = 1 then ps else hd ps # ms @ [last ps])"

lemma push_all_single:
  "marker (pkt_header q) = Single \<Longrightarrow>
   push_all [q] d = ([\<lparr>pr_frame = Some \<lparr>df_payload = pkt_payload q,
      df_extensions = extensions_of (pkt_header q)\<rparr>, pr_drop_error = interrupted d\<rparr>],
      d\<lparr>dp_partial := None\<rparr>)"
  by (cases "dp_partial d")
    (simp_all add: push_def frame_from_single_def interrupted_def push_result_default_def Let_def)

text \<open>
  A published frame arrives whole. Packetize any frame into at most 128 packets and push
  them to a depacketizer in any state, the inner packets in any order and any number of times
  between the first and the last: exactly one frame comes out, with the last packet, and it
  is the frame that was sent, payload and extensions; the only drop ever reported is the
  frame that was unfinished before.
\<close>

lemma frame_reassembled:
  assumes "packetize frame now p = (Ok ps, p')" and "ps \<noteq> []"
    and "length ps \<le> MAX_BUFFER_PACKETS" and "set ms = set (inner ps)"
  defines "qs \<equiv> delivery ps ms"
  shows "map pr_frame (fst (push_all qs d)) = replicate (length qs - 1) None
      @ [Some \<lparr>df_payload = pf_payload frame, df_extensions = pf_extensions frame\<rparr>]
    \<and> map pr_drop_error (fst (push_all qs d)) = interrupted d # replicate (length qs - 1) None
    \<and> dp_partial (snd (push_all qs d)) = None"
proof (cases "length ps = 1")
  case True
  then obtain q where "ps = [q]" by (cases ps) auto
  with packetize_payloads [OF assms(1)] show ?thesis
    by (simp add: qs_def delivery_def push_all_single del: push_all.simps)
next
  case False
  then have two: "2 \<le> length ps" using assms(2) by (cases ps; cases "tl ps") auto
  have "hd ps \<in> set ps" using assms(2) by simp
  moreover have "frame_packets ps"
    using assms(3) by (intro packetize_frame_packets [OF assms(1) two]) (simp add: MAX_BUFFER_PACKETS_def)
  ultimately show ?thesis
    using push_frame [OF _ assms(3), of ms d] packetize_payloads [OF assms(1)] False assms(4)
    by (simp add: qs_def delivery_def push_result_defs interrupted_def replicate_append_same
        del: push_all.simps)
qed

text \<open>
  A lost packet loses the frame and is reported as such. When an inner packet is missing
  at the time the last one arrives (lost, or merely late), no frame comes out, and the last
  packet's result names the frame and how many distinct packets of how many arrived.
\<close>

lemma frame_incomplete:
  assumes "packetize frame now p = (Ok ps, p')" and "length ps \<le> MAX_BUFFER_PACKETS"
    and "2 \<le> length ps" and "set ms \<subset> set (inner ps)"
  shows "map pr_frame (fst (push_all (delivery ps ms) d)) = replicate (length ms + 2) None
    \<and> pr_drop_error (last (fst (push_all (delivery ps ms) d))) =
        Some \<lparr>de_frame_number = counter_get (pk_frame_number p),
              de_reason = Incomplete (word_of_nat (card (set ms) + 2)) (word_of_nat (length ps))\<rparr>
    \<and> dp_partial (snd (push_all (delivery ps ms) d)) = None"
proof -
  have "hd ps \<in> set ps" using assms(3) by (cases ps) auto
  moreover have "frame_packets ps"
    using assms(2) by (intro packetize_frame_packets [OF assms(1) assms(3)]) (simp add: MAX_BUFFER_PACKETS_def)
  ultimately show ?thesis
    using push_frame [OF _ assms(2), of ms d] packetize_payloads [OF assms(1)] assms(3,4)
    by (simp add: delivery_def push_result_defs replicate_append_same psubset_eq
        del: push_all.simps)
qed

section \<open>Frames of more than 128 packets\<close>

lemma push_unknown:
  "dp_partial d = None \<Longrightarrow> \<forall>q \<in> set qs. marker (pkt_header q) \<in> {Inter, Final} \<Longrightarrow>
   push_all qs d = (map (\<lambda>q. push_result_from_drop
     \<lparr>de_frame_number = frame_number (pkt_header q), de_reason = UnknownFrame\<rparr>) qs, d)"
  by (induction qs) (auto simp: push_def push_to_partial_def)

lemma push_overflow:
  "\<lbrakk>dp_partial d = Some pt; length (pt_payloads pt) = MAX_BUFFER_PACKETS;
    frame_number (pkt_header q) = pt_frame_number pt; marker (pkt_header q) \<in> {Inter, Final}\<rbrakk> \<Longrightarrow>
   push q d = (push_result_from_drop
     \<lparr>de_frame_number = pt_frame_number pt, de_reason = BufferFull\<rparr>, d\<lparr>dp_partial := None\<rparr>)"
  by (auto simp: push_def push_to_partial_def)

text \<open>The first 128 packets of a longer frame fill the buffer.\<close>

lemma push_prefix:
  assumes fp: "frame_packets ps" and long: "MAX_BUFFER_PACKETS < length ps"
  shows "\<exists>pt. push_all (take MAX_BUFFER_PACKETS ps) d =
      (push_result_default\<lparr>pr_drop_error := interrupted d\<rparr>
         # replicate (MAX_BUFFER_PACKETS - 1) push_result_default,
       d\<lparr>dp_partial := Some pt\<rparr>)
    \<and> length (pt_payloads pt) = MAX_BUFFER_PACKETS
    \<and> pt_frame_number pt = frame_number (pkt_header (ps ! 0))"
proof -
  obtain k where k: "MAX_BUFFER_PACKETS = Suc k" by (simp add: MAX_BUFFER_PACKETS_def)
  let ?ms = "take k (tl ps)"
  let ?pt = "\<lparr>pt_frame_number = frame_number (pkt_header (ps ! 0)),
      pt_start_sequence = sequence (pkt_header (ps ! 0)),
      pt_extensions = extensions_of (pkt_header (ps ! 0)), pt_payloads = [entry_of (ps ! 0)]\<rparr>"
  have cut: "take (Suc k) ps = ps ! 0 # ?ms"
    using long by (cases ps) (simp_all add: k)
  have nth: "\<exists>i. 0 < i \<and> i < MAX_BUFFER_PACKETS \<and> q = ps ! i" if "q \<in> set ?ms" for q
  proof -
    from that obtain j where "j < k" "q = tl ps ! j" "j < length (tl ps)"
      by (auto simp: in_set_conv_nth)
    then show ?thesis using k by (intro exI [of _ "Suc j"]) (simp add: nth_tl)
  qed
  have inner: "marker (pkt_header q) = Inter \<and> frame_number (pkt_header q) = frame_number (pkt_header (ps ! 0))"
    if mem: "q \<in> set ?ms" for q
  proof -
    obtain i where i: "0 < i" "i < MAX_BUFFER_PACKETS" "q = ps ! i" using nth [OF mem] by blast
    then have "i < length ps" "i \<noteq> 0" "Suc i \<noteq> length ps" using long by linarith+
    with frame_packets_nth(2,3) [OF fp \<open>i < length ps\<close>] i(3) show ?thesis
      by (simp only: simp_thms if_False)
  qed
  have sub: "insert (ps ! 0) (set ?ms) \<subseteq> set ps"
    using cut set_take_subset [of "Suc k" ps] by simp
  have dist: "distinct (ps ! 0 # ?ms)"
    using distinct_take [OF frame_packets_distinct [OF fp], of "Suc k"] cut by simp
  let ?K = "entry_of ` set ps"
  have step: "push (ps ! 0) d = (push_result_default\<lparr>pr_drop_error := interrupted d\<rparr>, d\<lparr>dp_partial := Some ?pt\<rparr>)"
  proof -
    have "0 < length ps" using long by linarith
    from frame_packets_nth(3) [OF fp this]
    have "marker (pkt_header (ps ! 0)) = Start" by (simp only: simp_thms if_True)
    then show ?thesis
      by (cases "dp_partial d")
        (simp_all add: push_def begin_partial_def entry_of_def Let_def push_result_default_def
          interrupted_def)
  qed
  let ?L = "entry_of ` insert (ps ! 0) (set ?ms)"
  have card_L: "card ?L = MAX_BUFFER_PACKETS"
  proof -
    have "card ?L = card (set (ps ! 0 # ?ms))"
      using card_image [OF inj_on_subset [OF inj_entry_of [OF fp] sub]] by simp
    also have "\<dots> = length (ps ! 0 # ?ms)" by (rule distinct_card [OF dist])
    finally show ?thesis using long k by simp
  qed
  have "length ?ms = k" using long k by simp
  have "\<exists>pl. push_all ?ms (d\<lparr>dp_partial := Some ?pt\<rparr>) =
        (replicate (length ?ms) push_result_default,
         (d\<lparr>dp_partial := Some ?pt\<rparr>)\<lparr>dp_partial := Some (?pt\<lparr>pt_payloads := pl\<rparr>)\<rparr>)
      \<and> distinct (map fst pl) \<and> set pl = set (pt_payloads ?pt) \<union> entry_of ` set ?ms"
    by (rule push_all_inter [OF _ inj_fst_entries [OF fp]])
      (use inner sub k \<open>length ?ms = k\<close> in \<open>auto simp del: length_take\<close>)
  then obtain pl where "push_all ?ms (d\<lparr>dp_partial := Some ?pt\<rparr>) =
        (replicate (length ?ms) push_result_default,
         d\<lparr>dp_partial := Some (?pt\<lparr>pt_payloads := pl\<rparr>)\<rparr>)"
      and "distinct (map fst pl)" "set pl = ?L"
    by auto
  moreover from this have "length pl = MAX_BUFFER_PACKETS"
    using card_L by (metis distinct_card distinct_map)
  ultimately show ?thesis
    unfolding k
    by (intro exI [of _ "?pt\<lparr>pt_payloads := pl\<rparr>"])
      (simp add: cut step \<open>length ?ms = k\<close> del: length_take)
qed

section \<open>The buffer\<close>

definition depacketizer_inv :: "depacketizer \<Rightarrow> bool" where
  "depacketizer_inv d \<longleftrightarrow>
     (case dp_partial d of
        None \<Rightarrow> True
      | Some pt \<Rightarrow> distinct (map fst (pt_payloads pt)) \<and> length (pt_payloads pt) \<le> MAX_BUFFER_PACKETS
          \<and> pt_start_sequence pt \<in> fst ` set (pt_payloads pt))"

interpretation dp: event_machine "\<lambda>d q. snd (push q d)" depacketizer_new depacketizer_inv
proof
  show "depacketizer_inv depacketizer_new"
    by (simp add: depacketizer_inv_def depacketizer_new_def)
  fix d q assume "depacketizer_inv d"
  then show "depacketizer_inv (snd (push q d))"
    by (auto simp: depacketizer_inv_def push_def frame_from_single_def begin_partial_def
        push_to_partial_def Let_def MAX_BUFFER_PACKETS_def length_AList_update
        set_map_fst_AList_update distinct_AList_update
        split: frame_marker.splits option.splits)
qed

lemma push_all_foldl: "snd (push_all qs d) = foldl (\<lambda>d q. snd (push q d)) d qs"
  by (induction qs arbitrary: d) (simp_all add: Let_def split_beta)

text \<open>
  C37. Memory is bounded whatever the network delivers: after any packets at all a depacketizer
  holds at most 128 payloads of one frame, one per sequence number, the start packet's among
  them.
\<close>

theorem depacketizer_bounded:
  "case dp_partial (snd (push_all qs depacketizer_new)) of
     None \<Rightarrow> True
   | Some pt \<Rightarrow> distinct (map fst (pt_payloads pt)) \<and> length (pt_payloads pt) \<le> 128
       \<and> pt_start_sequence pt \<in> fst ` set (pt_payloads pt)"
  using dp.reach_inv [of qs]
  by (simp add: push_all_foldl depacketizer_inv_def MAX_BUFFER_PACKETS_def split: option.splits)

section \<open>No frame vanishes\<close>

definition pending :: "depacketizer \<Rightarrow> nat" where
  "pending d = (if dp_partial d = None then 0 else 1)"

definition starts_frame :: "packet \<Rightarrow> bool" where
  "starts_frame q \<longleftrightarrow> marker (pkt_header q) = Start"

definition delivers :: "packet \<times> push_result \<Rightarrow> bool" where
  "delivers = (\<lambda>(q, r). marker (pkt_header q) \<noteq> Single \<and> pr_frame r \<noteq> None)"

definition drops :: "push_result \<Rightarrow> bool" where
  "drops r \<longleftrightarrow> (case pr_drop_error r of None \<Rightarrow> False | Some e \<Rightarrow> de_reason e \<noteq> UnknownFrame)"

lemma push_accounts:
  "of_bool (starts_frame q) + pending d
     = of_bool (delivers (q, fst (push q d))) + of_bool (drops (fst (push q d))) + pending (snd (push q d))"
  by (auto simp: push_def frame_from_single_def begin_partial_def push_to_partial_def finalize_def
      pending_def starts_frame_def delivers_def drops_def push_result_defs Let_def
      split: frame_marker.splits option.splits)

lemma length_filter_Cons: "length (filter P (x # xs)) = of_bool (P x) + length (filter P xs)"
  by simp

text \<open>
  C36. Every frame that starts is accounted for. Over any sequence of packets, the frames of
  several packets that were started (and the one that was pending) are as many as were
  delivered, reported dropped, or are still pending.
\<close>

theorem depacketizer_accounts:
  "length (filter starts_frame qs) + pending d =
     length (filter delivers (zip qs (fst (push_all qs d))))
     + length (filter drops (fst (push_all qs d)))
     + pending (snd (push_all qs d))"
proof (induction qs arbitrary: d)
  case (Cons q qs)
  from Cons [of "snd (push q d)"] push_accounts [of q d] show ?case
    by (simp add: Let_def split_beta length_filter_Cons del: filter.simps)
qed simp

section \<open>Long frames and soundness\<close>

text \<open>
  A frame of more than 128 packets never arrives, even without loss or reordering: the
  packetizer produces it, but the depacketizer reports its buffer full at packet 129 (index
  128), and no frame comes out.
\<close>

lemma long_frame_lost:
  assumes "packetize frame now p = (Ok ps, p')"
    and "MAX_BUFFER_PACKETS < length ps" and "length ps < 2 ^ 16"
  shows "map pr_frame (fst (push_all ps d)) = replicate (length ps) None
    \<and> pr_drop_error (fst (push_all ps d) ! MAX_BUFFER_PACKETS) =
        Some \<lparr>de_frame_number = counter_get (pk_frame_number p), de_reason = BufferFull\<rparr>
    \<and> dp_partial (snd (push_all ps d)) = None"
proof -
  let ?M = MAX_BUFFER_PACKETS
  have fp: "frame_packets ps"
    using assms by (intro packetize_frame_packets) (simp_all add: MAX_BUFFER_PACKETS_def)
  have fn: "frame_number (pkt_header (ps ! i)) = counter_get (pk_frame_number p)" if "i < length ps" for i
    using packetize_payloads [OF assms(1)] that by simp
  have later: "marker (pkt_header (ps ! i)) \<in> {Inter, Final}" if "i < length ps" "0 < i" for i
    using frame_packets_nth(3) [OF fp that(1)] that(2) by simp
  obtain pt where pre: "push_all (take ?M ps) d =
      (push_result_default\<lparr>pr_drop_error := interrupted d\<rparr> # replicate (?M - 1) push_result_default,
       d\<lparr>dp_partial := Some pt\<rparr>)"
      and pt: "length (pt_payloads pt) = ?M" "pt_frame_number pt = frame_number (pkt_header (ps ! 0))"
    using push_prefix [OF fp assms(2)] by blast
  have "0 < length ps" using assms(2) by linarith
  moreover have "0 < ?M" by (simp add: MAX_BUFFER_PACKETS_def)
  ultimately have over: "push (ps ! ?M) (d\<lparr>dp_partial := Some pt\<rparr>) =
      (push_result_from_drop \<lparr>de_frame_number = counter_get (pk_frame_number p), de_reason = BufferFull\<rparr>,
       d\<lparr>dp_partial := None\<rparr>)"
    using push_overflow [of "d\<lparr>dp_partial := Some pt\<rparr>" pt "ps ! ?M"] pt later [OF assms(2)] assms(2)
    by (simp add: fn)
  have post: "push_all (drop (Suc ?M) ps) (d\<lparr>dp_partial := None\<rparr>) =
      (map (\<lambda>q. push_result_from_drop
         \<lparr>de_frame_number = frame_number (pkt_header q), de_reason = UnknownFrame\<rparr>) (drop (Suc ?M) ps),
       d\<lparr>dp_partial := None\<rparr>)"
  proof (rule push_unknown)
    show "\<forall>q \<in> set (drop (Suc ?M) ps). marker (pkt_header q) \<in> {Inter, Final}"
    proof
      fix q assume "q \<in> set (drop (Suc ?M) ps)"
      then obtain j where "j < length ps - Suc ?M" "q = ps ! (Suc ?M + j)"
        by (auto simp: in_set_conv_nth)
      then show "marker (pkt_header q) \<in> {Inter, Final}"
        using later [of "Suc ?M + j"] by simp
    qed
  qed simp
  have split: "push_all ps d = push_all (take ?M ps @ ps ! ?M # drop (Suc ?M) ps) d"
    using id_take_nth_drop [OF assms(2)] by simp
  have "Suc (?M - 1) = ?M" "?M + Suc (length ps - Suc ?M) = length ps"
    using assms(2) by (simp_all add: MAX_BUFFER_PACKETS_def)
  then show ?thesis
    unfolding split
    by (simp add: push_all_append pre over post Let_def push_result_defs nth_append comp_def
        map_replicate_const replicate_add [symmetric] flip: replicate_Suc)
qed

text \<open>What the buffer of a depacketizer holds, in terms of the packets seen so far.\<close>

definition explained :: "packet set \<Rightarrow> depacketizer \<Rightarrow> bool" where
  "explained H d \<longleftrightarrow> (\<forall>pt. dp_partial d = Some pt \<longrightarrow>
     (\<forall>x \<in> set (pt_payloads pt). \<exists>q \<in> H. entry_of q = x \<and> frame_number (pkt_header q) = pt_frame_number pt)
     \<and> (\<exists>q \<in> H. marker (pkt_header q) = Start \<and> frame_number (pkt_header q) = pt_frame_number pt
          \<and> sequence (pkt_header q) = pt_start_sequence pt
          \<and> extensions_of (pkt_header q) = pt_extensions pt))"

text \<open>A frame made of packets of \<open>H\<close> that ends in packet \<open>q\<close>.\<close>

definition made_of :: "packet set \<Rightarrow> packet \<Rightarrow> depacketizer_frame \<Rightarrow> bool" where
  "made_of H q f \<longleftrightarrow> (\<exists>ps st. ps \<noteq> [] \<and> set ps \<subseteq> H \<and> last ps = q \<and> st \<in> H
     \<and> df_payload f = concat (map pkt_payload ps)
     \<and> (\<forall>i < length ps. sequence (pkt_header (ps ! i)) = sequence (pkt_header st) + word_of_nat i
          \<and> frame_number (pkt_header (ps ! i)) = frame_number (pkt_header q))
     \<and> marker (pkt_header st) \<in> {Start, Single}
     \<and> frame_number (pkt_header st) = frame_number (pkt_header q)
     \<and> df_extensions f = extensions_of (pkt_header st))"

lemma those_eq_Some: "those xs = Some ys \<longleftrightarrow> xs = map Some ys"
  by (induction xs arbitrary: ys) (auto split: option.splits)

lemma finalize_made_of:
  assumes entries: "\<forall>x \<in> set pl. \<exists>q' \<in> H. entry_of q' = x \<and> frame_number (pkt_header q') = frame_number (pkt_header q)"
    and q: "q \<in> H" "map_of pl (sequence (pkt_header q)) = Some (pkt_payload q)"
    and st: "st \<in> H" "marker (pkt_header st) = Start"
      "frame_number (pkt_header st) = frame_number (pkt_header q)"
    and run: "finalize_loop (sequence (pkt_header q)) pl (sequence (pkt_header st)) [] = Some payload"
  shows "made_of H q \<lparr>df_payload = payload, df_extensions = extensions_of (pkt_header st)\<rparr>"
proof -
  let ?s = "sequence (pkt_header st)" and ?e = "sequence (pkt_header q)"
  let ?n = "unat (?e - ?s)"
  obtain cs where cs: "map (\<lambda>i. map_of pl (?s + word_of_nat i)) [0..<Suc ?n] = map Some cs"
      and payload: "payload = concat cs"
    using run finalize_loop_spec [OF refl, of ?e pl ?s "[]"] by (auto simp: those_eq_Some)
  have len: "length cs = Suc ?n" using arg_cong [OF cs, of length] by simp
  have "\<exists>q' \<in> H. entry_of q' = (?s + word_of_nat i, cs ! i) \<and> frame_number (pkt_header q') = frame_number (pkt_header q)"
    if "i < Suc ?n" for i
  proof -
    have "map_of pl (?s + word_of_nat i) = Some (cs ! i)"
      using arg_cong [OF cs, of "\<lambda>l. l ! i"] that len by (simp del: upt_Suc)
    then show ?thesis using entries by (blast dest: map_of_SomeD)
  qed
  then obtain g where g: "\<And>i. i < Suc ?n \<Longrightarrow> g i \<in> H \<and> entry_of (g i) = (?s + word_of_nat i, cs ! i)
      \<and> frame_number (pkt_header (g i)) = frame_number (pkt_header q)"
    by metis
  have e: "?s + word_of_nat ?n = ?e" by simp
  have "map_of pl (?s + word_of_nat ?n) = Some (cs ! ?n)"
    using arg_cong [OF cs, of "\<lambda>l. l ! ?n"] len by (simp del: upt_Suc)
  then have last: "cs ! ?n = pkt_payload q" using q(2) e by simp
  define ps where "ps = map g [0..<?n] @ [q]"
  have nth: "ps ! i \<in> H \<and> entry_of (ps ! i) = (?s + word_of_nat i, cs ! i)
      \<and> frame_number (pkt_header (ps ! i)) = frame_number (pkt_header q)" if "i < Suc ?n" for i
    using g [OF that] that q(1) e last by (cases "i = ?n") (auto simp: ps_def nth_append entry_of_def)
  have len_ps: "length ps = Suc ?n" by (simp add: ps_def)
  have "map pkt_payload ps = cs"
    by (rule nth_equalityI) (use nth len len_ps in \<open>auto simp: entry_of_def\<close>)
  moreover have "set ps \<subseteq> H" using nth len_ps by (auto simp: in_set_conv_nth)
  moreover have "\<forall>i < length ps. sequence (pkt_header (ps ! i)) = ?s + word_of_nat i
      \<and> frame_number (pkt_header (ps ! i)) = frame_number (pkt_header q)"
    using nth len_ps by (simp add: entry_of_def)
  ultimately show ?thesis
    unfolding made_of_def by (intro exI [of _ ps] exI [of _ st]) (simp add: payload st ps_def)
qed

lemma made_of_single:
  "q \<in> H \<Longrightarrow> marker (pkt_header q) = Single \<Longrightarrow>
     made_of H q \<lparr>df_payload = pkt_payload q, df_extensions = extensions_of (pkt_header q)\<rparr>"
  unfolding made_of_def by (intro exI [of _ "[q]"] exI [of _ q]) simp

lemma AList_update_entries:
  "x \<in> set (AList.update k v pl) \<Longrightarrow> x \<in> set pl \<or> x = (k, v)"
  by (induction pl) (auto split: if_splits)

lemma push_explained:
  assumes "explained H d"
  shows "explained (insert q H) (snd (push q d))
    \<and> (\<forall>f. pr_frame (fst (push q d)) = Some f \<longrightarrow> made_of (insert q H) q f)"
proof (cases "marker (pkt_header q) \<in> {Inter, Final}")
  case False
  then show ?thesis
    by (cases "marker (pkt_header q)")
      (auto simp: push_def frame_from_single_def begin_partial_def explained_def entry_of_def
        push_result_default_def Let_def made_of_single split: option.splits)
next
  case True
  then have push: "push q d = push_to_partial q d" by (auto simp: push_def)
  show ?thesis
  proof (cases "dp_partial d")
    case None
    then show ?thesis by (simp add: push push_to_partial_def explained_def push_result_defs)
  next
    case (Some pt)
    let ?pl = "AList.update (sequence (pkt_header q)) (pkt_payload q) (pt_payloads pt)"
    obtain st where entries: "\<forall>x \<in> set (pt_payloads pt). \<exists>q \<in> H. entry_of q = x
          \<and> frame_number (pkt_header q) = pt_frame_number pt"
      and st: "st \<in> H" "marker (pkt_header st) = Start"
        "frame_number (pkt_header st) = pt_frame_number pt"
        "sequence (pkt_header st) = pt_start_sequence pt"
        "extensions_of (pkt_header st) = pt_extensions pt"
      using assms Some by (auto simp: explained_def)
    show ?thesis
    proof (cases "frame_number (pkt_header q) = pt_frame_number pt
        \<and> length (pt_payloads pt) < MAX_BUFFER_PACKETS")
      case False
      with Some show ?thesis
        by (auto simp: push push_to_partial_def explained_def push_result_defs Let_def)
    next
      case fits: True
      have entries': "\<forall>x \<in> set ?pl. \<exists>q' \<in> insert q H. entry_of q' = x
          \<and> frame_number (pkt_header q') = frame_number (pkt_header q)"
      proof
        fix x assume "x \<in> set ?pl"
        then show "\<exists>q' \<in> insert q H. entry_of q' = x
            \<and> frame_number (pkt_header q') = frame_number (pkt_header q)"
          using entries fits by (auto dest!: AList_update_entries simp: entry_of_def)
      qed
      have made: "made_of (insert q H) q \<lparr>df_payload = payload, df_extensions = extensions_of (pkt_header st)\<rparr>"
        if "finalize_loop (sequence (pkt_header q)) ?pl (pt_start_sequence pt) [] = Some payload" for payload
        using that st fits
        by (intro finalize_made_of [OF entries']) (simp_all add: AList.update_conv')
      show ?thesis
        using Some fits entries' st made
        by (auto simp: push push_to_partial_def finalize_def explained_def push_result_defs Let_def
            split: option.splits)
    qed
  qed
qed

text \<open>
  C3. Only what was sent comes out. From a new depacketizer and any packets whatever, with
  losses, repetitions and several frames interleaved, every frame that is delivered is the
  concatenation of the payloads of received packets with one and the same frame number and
  consecutive sequence numbers, beginning at the sequence number of a received start (or
  single) packet, whose extensions it carries, and ending in the packet just pushed. Packets
  of different frames are never mixed.
\<close>

theorem depacketizer_sound:
  assumes "i < length qs" and "pr_frame (fst (push_all qs depacketizer_new) ! i) = Some f"
  shows "made_of (set (take (Suc i) qs)) (qs ! i) f"
proof -
  have run: "explained H d \<Longrightarrow> i < length qs \<Longrightarrow> pr_frame (fst (push_all qs d) ! i) = Some f \<Longrightarrow>
      made_of (H \<union> set (take (Suc i) qs)) (qs ! i) f" for H d
    using assms(1)
  proof (induction qs arbitrary: H d i)
    case (Cons q qs)
    show ?case
    proof (cases i)
      case 0
      with Cons.prems push_explained [OF Cons.prems(1), of q] show ?thesis
        by (simp add: Let_def split_beta)
    next
      case (Suc j)
      from push_explained [OF Cons.prems(1), of q]
      have "explained (insert q H) (snd (push q d))" by simp
      from Cons.IH [OF this, of j] Cons.prems Suc show ?thesis
        by (simp add: Let_def split_beta)
    qed
  qed simp
  have "explained {} depacketizer_new" by (simp add: explained_def depacketizer_new_def)
  from run [OF this assms] show ?thesis by simp
qed

section \<open>Concrete frames\<close>

lemma packetize_length:
  "packetize frame now p = (Ok ps, p') \<Longrightarrow>
     length ps = div_ceil (length (pf_payload frame)) (payload_room p frame)"
  using packetize_Ok(1,2) [of frame now p ps p'] by (simp add: length_chunks_of)

lemma example_frame_packets:
  "\<exists>ps p'. packetize example_frame 0 example_packetizer = (Ok ps, p') \<and> length ps = 3
     \<and> set (inner ps) = {ps ! 1} \<and> inner ps = [ps ! 1]"
proof -
  obtain ps p' where e: "packetize example_frame 0 example_packetizer = (Ok ps, p')"
    using example_packetize by blast
  moreover have "length (pf_payload example_frame) = 5" by (simp add: example_frame_def)
  ultimately have "length ps = 3"
    using packetize_length [OF e] by (simp add: example_room div_ceil_def)
  then have "inner ps = [ps ! 1]"
    by (auto simp: inner_def numeral_3_eq_3 length_Suc_conv)
  with e \<open>length ps = 3\<close> show ?thesis by auto
qed

lemma frame_incomplete_witness:
  "\<exists>ps p'. packetize example_frame 0 example_packetizer = (Ok ps, p') \<and> length ps = 3
     \<and> pr_drop_error (last (fst (push_all (delivery ps []) depacketizer_new)))
       = Some \<lparr>de_frame_number = 7, de_reason = Incomplete 2 3\<rparr>"
proof -
  obtain ps p' where e: "packetize example_frame 0 example_packetizer = (Ok ps, p')"
    and l: "length ps = 3" "set (inner ps) = {ps ! 1}"
    using example_frame_packets by blast
  have "pr_drop_error (last (fst (push_all (delivery ps []) depacketizer_new))) =
        Some \<lparr>de_frame_number = counter_get (pk_frame_number example_packetizer),
              de_reason = Incomplete (word_of_nat (card (set ([] :: packet list)) + 2)) (word_of_nat (length ps))\<rparr>"
    using l by (intro frame_incomplete [OF e, THEN conjunct2, THEN conjunct1])
      (auto simp: MAX_BUFFER_PACKETS_def)
  with e l show ?thesis by (auto simp: example_packetizer_def)
qed

definition long_frame :: packetizer_frame where
  "long_frame = \<lparr>pf_payload = replicate 300 0, pf_extensions = extensions_default\<rparr>"

lemma long_frame_lost_witness:
  "\<exists>ps p'. packetize long_frame 0 example_packetizer = (Ok ps, p') \<and> length ps = 150
     \<and> map pr_frame (fst (push_all ps depacketizer_new)) = replicate 150 None"
proof -
  have room: "payload_room example_packetizer long_frame = 2"
    by (simp add: payload_room_def example_packetizer_def long_frame_def extensions_default_def
        has_extensions_def)
  obtain ps p' where e: "packetize long_frame 0 example_packetizer = (Ok ps, p')"
    by (simp add: packetize_closed room)
  have "length (pf_payload long_frame) = 300" by (simp add: long_frame_def)
  then have l: "length ps = 150" using packetize_length [OF e] by (simp add: room div_ceil_def)
  have "map pr_frame (fst (push_all ps depacketizer_new)) = replicate (length ps) None"
    using l by (intro long_frame_lost [OF e, THEN conjunct1]) (simp_all add: MAX_BUFFER_PACKETS_def)
  with e l show ?thesis by auto
qed

definition single_packet :: packet where
  "single_packet = example_packet\<lparr>pkt_header := (pkt_header example_packet)\<lparr>marker := Single\<rparr>\<rparr>"

theorem depacketizer_sound_witness:
  "made_of {single_packet} single_packet
     \<lparr>df_payload = pkt_payload single_packet, df_extensions = extensions_of (pkt_header single_packet)\<rparr>"
proof -
  have "pr_frame (fst (push_all [single_packet] depacketizer_new) ! 0) = Some
     \<lparr>df_payload = pkt_payload single_packet, df_extensions = extensions_of (pkt_header single_packet)\<rparr>"
    by (simp add: push_def frame_from_single_def depacketizer_new_def single_packet_def Let_def)
  with depacketizer_sound [of 0 "[single_packet]"] show ?thesis by simp
qed

end
