(* ===== verification/Tracks.thy ===== *)
theory Tracks
  imports Handles Clocks
begin

text \<open>
  Data tracks as both sides see them: \<^verbatim>\<open>track.rs\<close> (information, SIDs), \<^verbatim>\<open>frame.rs\<close> (frames of
  the application) and \<^verbatim>\<open>e2ee.rs\<close> (the traits of the encryption providers). The SID of a track is
  shared by all holders of its information (\<^verbatim>\<open>Arc<RwLock<_>>\<close>) and changes on a republish, so
  the information holds the address of a cell and the cells form an explicit store.
\<close>

section \<open>Identifiers\<close>

datatype data_track_sid = Sid string

datatype sid_error = DataTrackSidError

definition SID_PREFIX :: string where "SID_PREFIX = ''DTR_''"

definition starts_with :: "string \<Rightarrow> string \<Rightarrow> bool" where
  "starts_with s p \<longleftrightarrow> take (length p) s = p"

definition sid_try_from :: "string \<Rightarrow> (sid_error, data_track_sid) rust" where
  "sid_try_from raw_id =
     (if starts_with raw_id SID_PREFIX then Ok (Sid raw_id) else Err DataTrackSidError)"

primrec string_from_sid :: "data_track_sid \<Rightarrow> string" where
  "string_from_sid (Sid s) = s"

definition valid_sid :: "data_track_sid \<Rightarrow> bool" where
  "valid_sid s \<longleftrightarrow> starts_with (string_from_sid s) SID_PREFIX"

lemma sid_roundtrip [codec_simps]: "valid_sid s \<Longrightarrow> sid_try_from (string_from_sid s) = Ok s"
  by (cases s) (simp add: valid_sid_def sid_try_from_def)

lemma sid_try_from_Ok_iff: "sid_try_from raw = Ok s \<longleftrightarrow> s = Sid raw \<and> valid_sid s"
  by (auto simp: sid_try_from_def valid_sid_def)

section \<open>Information about a track\<close>

type_synonym cell = nat

record track_info =
  ti_sid :: cell
  ti_pub_handle :: handle
  ti_name :: string
  ti_uses_e2ee :: bool

type_synonym sid_store = "data_track_sid list"

text \<open>\<^verbatim>\<open>DataTrackInfo::sid\<close>.\<close>

definition info_sid :: "sid_store \<Rightarrow> track_info \<Rightarrow> data_track_sid" where
  "info_sid \<sigma> info = \<sigma> ! ti_sid info"

definition info_ok :: "sid_store \<Rightarrow> track_info \<Rightarrow> bool" where
  "info_ok \<sigma> info \<longleftrightarrow> ti_sid info < length \<sigma>"

section \<open>Frames of the application\<close>

record data_track_frame =
  fr_payload :: "8 word list"
  fr_user_timestamp :: "64 word option"

definition frame_new :: "8 word list \<Rightarrow> data_track_frame" where
  "frame_new payload = \<lparr>fr_payload = payload, fr_user_timestamp = None\<rparr>"

definition with_user_timestamp :: "64 word \<Rightarrow> data_track_frame \<Rightarrow> data_track_frame" where
  "with_user_timestamp v f = f\<lparr>fr_user_timestamp := Some v\<rparr>"

text \<open>
  \<^verbatim>\<open>with_user_timestamp_now\<close> and \<^verbatim>\<open>duration_since_timestamp\<close>: the system clock, in
  nanoseconds relative to the Unix epoch, is passed in; a clock before the epoch is the error
  of \<^verbatim>\<open>duration_since\<close>. \<^verbatim>\<open>d.as_millis() as u64\<close> truncates. \<^verbatim>\<open>SystemTime::checked_add\<close> fails
  beyond what the platform represents, the parameter \<open>max_secs\<close>.
\<close>

definition with_user_timestamp_now :: "int \<Rightarrow> data_track_frame \<Rightarrow> data_track_frame" where
  "with_user_timestamp_now now f =
     f\<lparr>fr_user_timestamp := (if now < 0 then None else Some (word_of_int (now div 1000000)))\<rparr>"

definition duration_since_timestamp :: "nat \<Rightarrow> int \<Rightarrow> data_track_frame \<Rightarrow> int option" where
  "duration_since_timestamp max_secs now f =
     (case fr_user_timestamp f of
        None \<Rightarrow> None
      | Some ts \<Rightarrow>
          if unat ts div 1000 > max_secs then None
          else let ts_time = 1000000 * uint ts
               in if ts_time \<le> now then Some (now - ts_time) else None)"

text \<open>
  A frame stamped with the current time is never newer than the clock, and its age is what
  has passed since, up to the millisecond that the stamp cuts off.
\<close>

lemma duration_since_now:
  assumes "0 \<le> t" and "t \<le> now" and "t div 1000000 < 2 ^ 64"
    and "nat (t div 1000000) div 1000 \<le> max_secs"
  shows "duration_since_timestamp max_secs now (with_user_timestamp_now t f)
    = Some (now - t + t mod 1000000)"
proof -
  have u: "uint (word_of_int (t div 1000000) :: 64 word) = t div 1000000"
    using assms(1,3) by (simp add: uint_word_of_int)
  then have n: "unat (word_of_int (t div 1000000) :: 64 word) = nat (t div 1000000)"
    by (simp add: unat_eq_nat_uint)
  have "1000000 * (t div 1000000) = t - t mod 1000000"
    by (simp add: minus_mod_eq_mult_div)
  then show ?thesis
    using assms by (simp add: duration_since_timestamp_def with_user_timestamp_now_def u n Let_def)
qed

section \<open>Encryption providers\<close>

record encrypted_payload =
  ep_payload :: "8 word list"
  ep_iv :: "8 word list"
  ep_key_index :: "8 word"

datatype encryption_error = EncryptionError
datatype decryption_error = DecryptionError

type_synonym encryption_provider = "8 word list \<Rightarrow> encryption_error + encrypted_payload"
type_synonym decryption_provider =
  "encrypted_payload \<Rightarrow> string \<Rightarrow> decryption_error + 8 word list"

text \<open>
  What the tracks rely on of a pair of providers: the receiver decrypts what the sender
  encrypted, and the initialisation vector has its 12 bytes (a type in the source).
\<close>

locale e2ee_pair =
  fixes enc :: encryption_provider
    and dec :: decryption_provider
    and identity :: string
  assumes dec_enc: "enc payload = Inr e \<Longrightarrow> dec e identity = Inr payload"
    and enc_iv: "enc payload = Inr e \<Longrightarrow> length (ep_iv e) = 12"

text \<open>
  The providers of the managers' tests (\<^verbatim>\<open>PrefixingEncryptor\<close> and \<^verbatim>\<open>PrefixStrippingDecryptor\<close>);
  the slice of the latter panics on a payload of fewer than four bytes, here an error.
\<close>

definition prefixing_encryptor :: encryption_provider where
  "prefixing_encryptor payload =
     Inr \<lparr>ep_payload = [0xDE, 0xAD, 0xBE, 0xEF] @ payload, ep_iv = replicate 12 0, ep_key_index = 0\<rparr>"

definition prefix_stripping_decryptor :: decryption_provider where
  "prefix_stripping_decryptor e sender =
     (if length (ep_payload e) < 4 then Inl DecryptionError else Inr (drop 4 (ep_payload e)))"

interpretation prefix_pair: e2ee_pair prefixing_encryptor prefix_stripping_decryptor identity for identity
  by unfold_locales (auto simp: prefixing_encryptor_def prefix_stripping_decryptor_def)

end
