(* ===== verification/Pipelines.thy ===== *)
theory Pipelines
  imports Depacketizer Tracks
begin

text \<open>
  The pipelines of a track: \<^verbatim>\<open>local/pipeline.rs\<close> (encrypt, then packetize) and
  \<^verbatim>\<open>remote/pipeline.rs\<close> (depacketize, then decrypt), and what they give end to end.
\<close>

section \<open>Publisher\<close>

record pipeline =
  pl_encryption_provider :: "encryption_provider option"
  pl_packetizer :: packetizer

datatype pipeline_error = PacketizerFailed packetizer_error | EncryptionFailed encryption_error

definition TRANSPORT_MTU :: nat where "TRANSPORT_MTU = 16000"

text \<open>
  \<^verbatim>\<open>Pipeline::new\<close>; its debug assertion, that a provider is given exactly for tracks that use
  encryption, is \<open>create_local_track_asserts\<close> of the manager.
\<close>

definition pipeline_new ::
    "track_info \<Rightarrow> encryption_provider option \<Rightarrow> instant \<Rightarrow> u32 \<Rightarrow> pipeline" where
  "pipeline_new info provider now rnd =
     \<lparr>pl_encryption_provider = provider,
      pl_packetizer = packetizer_new (ti_pub_handle info) TRANSPORT_MTU now rnd\<rparr>"

definition packetizer_frame_from :: "data_track_frame \<Rightarrow> packetizer_frame" where
  "packetizer_frame_from f =
     \<lparr>pf_payload = fr_payload f,
      pf_extensions = \<lparr>user_timestamp = map_option UserTimestampExt (fr_user_timestamp f), e2ee = None\<rparr>\<rparr>"

definition encrypt_if_needed ::
    "pipeline \<Rightarrow> packetizer_frame \<Rightarrow> (encryption_error, packetizer_frame) rust" where
  "encrypt_if_needed pl frame =
     (case pl_encryption_provider pl of
        None \<Rightarrow> Ok frame
      | Some encrypt \<Rightarrow>
          (case encrypt (pf_payload frame) of
             Inl e \<Rightarrow> Err e
           | Inr encrypted \<Rightarrow>
               let frame = frame\<lparr>pf_payload := ep_payload encrypted\<rparr>
               in Ok (frame\<lparr>pf_extensions := (pf_extensions frame)\<lparr>
                    e2ee := Some \<lparr>key_index = ep_key_index encrypted, iv = ep_iv encrypted\<rparr>\<rparr>\<rparr>)))"

definition process_frame ::
    "data_track_frame \<Rightarrow> instant \<Rightarrow> (pipeline, pipeline_error, packet list) comp" where
  "process_frame frame now = (\<lambda>pl.
     case encrypt_if_needed pl (packetizer_frame_from frame) of
       Ok frame \<Rightarrow>
         (let (r, pk) = packetize frame now (pl_packetizer pl);
              pl = pl\<lparr>pl_packetizer := pk\<rparr>
          in (map_err PacketizerFailed r, pl))
     | Err e \<Rightarrow> (Err (EncryptionFailed e), pl)
     | Panic \<Rightarrow> (Panic, pl))"

section \<open>Subscriber\<close>

record remote_pipeline =
  rp_publisher_identity :: string
  rp_e2ee_provider :: "decryption_provider option"
  rp_depacketizer :: depacketizer

definition remote_pipeline_new :: "string \<Rightarrow> decryption_provider option \<Rightarrow> remote_pipeline" where
  "remote_pipeline_new identity provider =
     \<lparr>rp_publisher_identity = identity, rp_e2ee_provider = provider,
      rp_depacketizer = depacketizer_new\<rparr>"

definition depacketize :: "packet \<Rightarrow> remote_pipeline \<Rightarrow> depacketizer_frame option \<times> remote_pipeline" where
  "depacketize q rp =
     (let (result, d) = push q (rp_depacketizer rp)
      in (pr_frame result, rp\<lparr>rp_depacketizer := d\<rparr>))"

definition decrypt_if_needed :: "remote_pipeline \<Rightarrow> depacketizer_frame \<Rightarrow> depacketizer_frame option" where
  "decrypt_if_needed rp frame =
     (case rp_e2ee_provider rp of
        None \<Rightarrow> Some frame
      | Some decrypt \<Rightarrow>
          (case e2ee (df_extensions frame) of
             None \<Rightarrow> None
           | Some x \<Rightarrow>
               let encrypted = \<lparr>ep_payload = df_payload frame, ep_iv = iv x, ep_key_index = key_index x\<rparr>
               in case decrypt encrypted (rp_publisher_identity rp) of
                    Inl e \<Rightarrow> None
                  | Inr decrypted \<Rightarrow> Some (frame\<lparr>df_payload := decrypted\<rparr>)))"

primrec user_timestamp_value :: "user_timestamp_ext \<Rightarrow> u64" where
  "user_timestamp_value (UserTimestampExt v) = v"

definition data_track_frame_from :: "depacketizer_frame \<Rightarrow> data_track_frame" where
  "data_track_frame_from f =
     \<lparr>fr_payload = df_payload f,
      fr_user_timestamp = map_option user_timestamp_value (user_timestamp (df_extensions f))\<rparr>"

definition process_packet ::
    "packet \<Rightarrow> remote_pipeline \<Rightarrow> data_track_frame option \<times> remote_pipeline" where
  "process_packet q rp =
     (case depacketize q rp of
        (None, rp) \<Rightarrow> (None, rp)
      | (Some frame, rp) \<Rightarrow>
          (case decrypt_if_needed rp frame of
             None \<Rightarrow> (None, rp)
           | Some frame \<Rightarrow> (Some (data_track_frame_from frame), rp)))"

fun process_packets ::
    "packet list \<Rightarrow> remote_pipeline \<Rightarrow> data_track_frame option list \<times> remote_pipeline" where
  "process_packets [] rp = ([], rp)"
| "process_packets (q # qs) rp =
     (let (f, rp) = process_packet q rp; (fs, rp) = process_packets qs rp in (f # fs, rp))"

section \<open>End to end\<close>

lemma process_packets_push_all:
  "process_packets qs rp =
     (map (\<lambda>r. Option.bind (pr_frame r) (\<lambda>f. map_option data_track_frame_from (decrypt_if_needed rp f)))
        (fst (push_all qs (rp_depacketizer rp))),
      rp\<lparr>rp_depacketizer := snd (push_all qs (rp_depacketizer rp))\<rparr>)"
proof (induction qs arbitrary: rp)
  case (Cons q qs)
  have "decrypt_if_needed (rp\<lparr>rp_depacketizer := d\<rparr>) = decrypt_if_needed rp" for d
    by (rule ext) (simp add: decrypt_if_needed_def split: option.split)
  then show ?case
    by (simp add: Cons.IH process_packet_def depacketize_def Let_def split_beta split: option.splits)
qed simp

text \<open>What the pipelines rely on of the two sides' providers.\<close>

fun providers_match :: "encryption_provider option \<Rightarrow> decryption_provider option \<Rightarrow> string \<Rightarrow> bool" where
  "providers_match None None identity = True"
| "providers_match (Some enc) (Some dec) identity = e2ee_pair enc dec identity"
| "providers_match _ _ identity = False"

context e2ee_pair
begin

lemma dec_enc_fields:
  "enc payload = Inr e \<Longrightarrow>
     dec \<lparr>ep_payload = ep_payload e, ep_iv = ep_iv e, ep_key_index = ep_key_index e\<rparr> identity = Inr payload"
  by (drule dec_enc) (cases e, simp)

lemma decrypt_encrypted:
  assumes "pl_encryption_provider pl = Some enc" and "rp_e2ee_provider rp = Some dec"
    and "rp_publisher_identity rp = identity"
    and "encrypt_if_needed pl f = Ok g"
  shows "decrypt_if_needed rp \<lparr>df_payload = pf_payload g, df_extensions = pf_extensions g\<rparr>
     = Some \<lparr>df_payload = pf_payload f, df_extensions = pf_extensions g\<rparr>
   \<and> user_timestamp (pf_extensions g) = user_timestamp (pf_extensions f)
   \<and> wf_extensions (pf_extensions g)"
  using assms
  by (auto simp: encrypt_if_needed_def decrypt_if_needed_def wf_extensions_def Let_def
      dest: dec_enc_fields enc_iv split: sum.splits)

end

lemma encrypted_frame_recovered:
  assumes "providers_match (pl_encryption_provider pl) (rp_e2ee_provider rp) (rp_publisher_identity rp)"
    and "encrypt_if_needed pl (packetizer_frame_from frame) = Ok g"
  shows "map_option data_track_frame_from
       (decrypt_if_needed rp \<lparr>df_payload = pf_payload g, df_extensions = pf_extensions g\<rparr>) = Some frame
     \<and> wf_extensions (pf_extensions g)"
proof (cases "pl_encryption_provider pl")
  case None
  with assms show ?thesis
    by (cases "rp_e2ee_provider rp"; cases "fr_user_timestamp frame")
      (auto simp: encrypt_if_needed_def decrypt_if_needed_def packetizer_frame_from_def
        data_track_frame_from_def wf_extensions_def)
next
  case (Some enc)
  with assms(1) obtain dec where dec: "rp_e2ee_provider rp = Some dec"
    and pair: "e2ee_pair enc dec (rp_publisher_identity rp)"
    by (cases "rp_e2ee_provider rp") auto
  from e2ee_pair.decrypt_encrypted [OF pair Some dec refl assms(2)]
  show ?thesis
    by (cases "fr_user_timestamp frame")
      (auto simp: packetizer_frame_from_def data_track_frame_from_def)
qed

lemma set_delivery: "ps \<noteq> [] \<Longrightarrow> set ms \<subseteq> set (inner ps) \<Longrightarrow> set (delivery ps ms) \<subseteq> set ps"
proof (cases "length ps = 1")
  case False
  assume "ps \<noteq> []" and ms: "set ms \<subseteq> set (inner ps)"
  with False have "2 \<le> length ps" by (cases ps; cases "tl ps") auto
  then have "set (inner ps) \<subseteq> set ps" by (subst (2) frame_split) auto
  with ms \<open>ps \<noteq> []\<close> show ?thesis by (auto simp: delivery_def)
qed (simp add: delivery_def)

text \<open>
  C1. A data track delivers what was published. A frame that the publisher's pipeline
  processes into at most 128 packets, written to the wire and read back packet by packet,
  comes out of the subscriber's pipeline as the same frame, payload and user timestamp, once,
  with the last packet; the inner packets may arrive in any order and repeatedly, and the
  subscriber may be in the middle of another frame. Both sides use no encryption, or a pair of
  providers of which the one decrypts what the other encrypts.
\<close>

theorem frame_end_to_end:
  assumes "process_frame frame now pl = (Ok ps, pl')"
    and "valid_handle (pk_handle (pl_packetizer pl))"
    and "providers_match (pl_encryption_provider pl) (rp_e2ee_provider rp) (rp_publisher_identity rp)"
    and "ps \<noteq> []" and "length ps \<le> MAX_BUFFER_PACKETS" and "set ms = set (inner ps)"
  shows "\<exists>raws qs. map packet_serialize (delivery ps ms) = map Ok raws
    \<and> map packet_deserialize raws = map Ok qs
    \<and> fst (process_packets qs rp) = replicate (length qs - 1) None @ [Some frame]"
proof -
  obtain g where g: "encrypt_if_needed pl (packetizer_frame_from frame) = Ok g"
    and pk: "packetize g now (pl_packetizer pl) = (Ok ps, pl_packetizer pl')"
    using assms(1)
    by (auto simp: process_frame_def Let_def split_beta map_ok_eq_Ok split: rust.splits)
       (metis map_err.simps prod.collapse rust.exhaust rust.inject(1) rust.distinct(1,3))
  note rec = encrypted_frame_recovered [OF assms(3) g]
  let ?qs = "delivery ps ms"
  have wf: "wf_packet q" if "q \<in> set ?qs" for q
    using packetize_wf [OF pk assms(2)] rec set_delivery [of ps ms] assms(4,6) that by auto
  have "map packet_serialize ?qs = map Ok (map packet_bytes ?qs)"
    using wf by (simp add: packet_serialize_bytes)
  moreover have "map packet_deserialize (map packet_bytes ?qs) = map Ok ?qs"
    using wf by (simp add: packet_deserialize_bytes)
  moreover have "fst (process_packets ?qs rp) = replicate (length ?qs - 1) None @ [Some frame]"
  proof -
    let ?rs = "fst (push_all ?qs (rp_depacketizer rp))"
    have "fst (process_packets ?qs rp) =
        map (\<lambda>f. Option.bind f (\<lambda>f. map_option data_track_frame_from (decrypt_if_needed rp f)))
          (map pr_frame ?rs)"
      by (simp add: process_packets_push_all)
    also have "map pr_frame ?rs = replicate (length ?qs - 1) None
        @ [Some \<lparr>df_payload = pf_payload g, df_extensions = pf_extensions g\<rparr>]"
      by (rule frame_reassembled [OF pk assms(4,5,6), THEN conjunct1])
    finally show ?thesis using rec by (simp add: map_replicate)
  qed
  ultimately show ?thesis by blast
qed

definition example_pipeline :: pipeline where
  "example_pipeline =
     \<lparr>pl_encryption_provider = Some prefixing_encryptor,
      pl_packetizer = example_packetizer\<lparr>pk_mtu_size := 40\<rparr>\<rparr>"

definition example_remote_pipeline :: remote_pipeline where
  "example_remote_pipeline = remote_pipeline_new ''alice'' (Some prefix_stripping_decryptor)"

definition example_track_frame :: data_track_frame where
  "example_track_frame = \<lparr>fr_payload = replicate 30 7, fr_user_timestamp = None\<rparr>"

lemma example_process_frame:
  "\<exists>ps pl'. process_frame example_track_frame 0 example_pipeline = (Ok ps, pl') \<and> length ps = 4"
proof -
  obtain g where g: "encrypt_if_needed example_pipeline (packetizer_frame_from example_track_frame) = Ok g"
      "length (pf_payload g) = 34" "has_extensions (pf_extensions g)"
      "extensions_serialized_len (pf_extensions g) = 15"
    by (simp add: encrypt_if_needed_def example_pipeline_def prefixing_encryptor_def
        packetizer_frame_from_def example_track_frame_def has_extensions_def
        extensions_serialized_len_cases)
  have room: "payload_room (pl_packetizer example_pipeline) g = 10"
    using g by (simp add: payload_room_def example_pipeline_def div_ceil_def)
  obtain ps p' where "packetize g 0 (pl_packetizer example_pipeline) = (Ok ps, p')"
    by (simp add: packetize_closed room)
  moreover from packetize_length [OF this] have "length ps = 4"
    by (simp add: room g div_ceil_def)
  ultimately show ?thesis using g by (simp add: process_frame_def)
qed

theorem frame_end_to_end_witness:
  "\<exists>ps pl' qs. process_frame example_track_frame 0 example_pipeline = (Ok ps, pl') \<and> length ps = 4
     \<and> fst (process_packets qs example_remote_pipeline)
       = replicate (length qs - 1) None @ [Some example_track_frame]"
proof -
  obtain ps pl' where e: "process_frame example_track_frame 0 example_pipeline = (Ok ps, pl')"
      and l: "length ps = 4"
    using example_process_frame by blast
  have "\<exists>raws qs. map packet_serialize (delivery ps (rev (inner ps))) = map Ok raws
      \<and> map packet_deserialize raws = map Ok qs
      \<and> fst (process_packets qs example_remote_pipeline)
        = replicate (length qs - 1) None @ [Some example_track_frame]"
  proof (rule frame_end_to_end [OF e])
    show "valid_handle (pk_handle (pl_packetizer example_pipeline))"
      by (simp add: example_pipeline_def example_packetizer_def valid_handle_def)
    show "providers_match (pl_encryption_provider example_pipeline)
        (rp_e2ee_provider example_remote_pipeline) (rp_publisher_identity example_remote_pipeline)"
      by (simp add: example_pipeline_def example_remote_pipeline_def remote_pipeline_new_def
          prefix_pair.e2ee_pair_axioms)
  qed (use l in \<open>auto simp: MAX_BUFFER_PACKETS_def\<close>)
  with e l show ?thesis by blast
qed

end
