(* ===== verification/Track_Events.thy ===== *)
theory Track_Events
  imports Tracks
begin

text \<open>
  What the managers of data tracks receive and emit: \<^verbatim>\<open>local/events.rs\<close>, \<^verbatim>\<open>remote/events.rs\<close>,
  the errors and options of \<^verbatim>\<open>local/mod.rs\<close>, \<^verbatim>\<open>remote/mod.rs\<close> and \<^verbatim>\<open>error.rs\<close>. A one-shot
  sender is the number of its channel. The reasons that the source wraps in \<^verbatim>\<open>anyhow\<close> errors
  are the constructors of \<open>internal_error\<close>.
\<close>

datatype encryption_type = Enc_None | Enc_Gcm | Enc_Custom

datatype internal_error =
    Missing_Info
  | Handle_Failed handle_error
  | Sid_Failed sid_error
  | Unsupported_E2EE encryption_type
  | Sfu_Rejected string
  | Descriptor_Exists
  | Unknown_Track

section \<open>Publishing\<close>

datatype publish_error =
    NotAllowed
  | DuplicateName
  | InvalidName
  | Publish_Timeout
  | LimitReached
  | Publish_Disconnected
  | Publish_Internal internal_error

record track_options =
  opt_name :: string

type_synonym tx = nat

text \<open>A local track: its information and the addresses of its frame queue and state.\<close>

record local_track =
  lt_info :: track_info
  lt_frame_tx :: nat
  lt_state_tx :: cell

type_synonym publish_result = "publish_error + local_track"

datatype local_input =
    PublishRequest track_options tx
  | PublishCancelled handle
  | QueryPublished tx
  | UnpublishRequest handle
  | SfuPublishResponse handle "publish_error + track_info"
  | SfuUnpublishResponse handle
  | RepublishTracks
  | LocalShutdown

datatype local_output =
    SfuPublishRequest handle string bool
  | SfuUnpublishRequest handle
  | PacketsAvailable "8 word list list"

datatype publish_state = Published | Republishing | Unpublished

datatype push_frame_error = TrackUnpublished | QueueFull

section \<open>Subscribing\<close>

datatype subscribe_error =
    Sub_Unpublished
  | Sub_Timeout
  | Sub_Disconnected
  | Sub_Internal internal_error

record subscribe_options =
  buffer_size :: nat

definition subscribe_options_new :: subscribe_options where
  "subscribe_options_new = \<lparr>buffer_size = 16\<rparr>"

definition with_buffer_size :: "nat \<Rightarrow> subscribe_options \<Rightarrow> subscribe_options" where
  "with_buffer_size frames opts =
     (let frames = (if frames = 0 then 1 else frames) in opts\<lparr>buffer_size := frames\<rparr>)"

text \<open>The broadcast channel of a subscription panics on a size of zero; no option asks for it.\<close>

lemma subscribe_options_positive:
  "0 < buffer_size subscribe_options_new" "0 < buffer_size (with_buffer_size n opts)"
  by (simp_all add: subscribe_options_new_def with_buffer_size_def Let_def)

text \<open>A remote track: its information and the addresses of its published flag.\<close>

record remote_track =
  rt_info :: track_info
  rt_published_rx :: cell
  rt_publisher_identity :: string

datatype remote_input =
    SubscribeRequest data_track_sid subscribe_options tx
  | UnsubscribeRequest data_track_sid
  | SfuPublicationUpdates "string \<rightharpoonup> track_info list"
  | SfuSubscriberHandles "handle \<rightharpoonup> data_track_sid"
  | PacketReceived "8 word list"
  | ResendSubscriptionUpdates
  | RemoteShutdown

datatype remote_output =
    SfuUpdateSubscription data_track_sid bool
  | TrackPublishedOut remote_track
  | TrackUnpublishedOut data_track_sid

end
