(* ===== verification/Track_Proto.thy ===== *)
theory Track_Proto
  imports Track_Events
begin

text \<open>
  Between the events of the managers and the messages of the signalling protocol:
  \<^verbatim>\<open>local/proto.rs\<close> and \<^verbatim>\<open>remote/proto.rs\<close>. The messages are those of
  \<^verbatim>\<open>livekit-protocol/src/livekit.rs\<close>, with the fields that the conversions use; an enumeration
  field is the integer of the wire. Reading a track's information makes a new cell for its SID.
\<close>

section \<open>Messages\<close>

record proto_track_info =
  pti_pub_handle :: "32 word"
  pti_sid :: string
  pti_name :: string
  pti_encryption :: int

record publish_request_msg =
  prm_pub_handle :: "32 word"
  prm_name :: string
  prm_encryption :: int

record unpublish_request_msg =
  urm_pub_handle :: "32 word"

record publish_response_msg =
  psm_info :: "proto_track_info option"

record unpublish_response_msg =
  usm_info :: "proto_track_info option"

datatype reason =
    Reason_Ok | NotFound | Reason_NotAllowed | LimitExceeded | Queued | UnsupportedType
  | UnclassifiedError | Reason_InvalidHandle | Reason_InvalidName | DuplicateHandle | Reason_DuplicateName

text \<open>The requests that a response can answer; the other kinds are one constructor.\<close>

datatype request = Request_PublishDataTrack publish_request_msg | Request_Other

record request_response =
  rr_reason :: int
  rr_message :: string
  rr_request :: "request option"

record participant_info =
  pi_identity :: string
  pi_data_tracks :: "proto_track_info list"

record update_subscription_msg =
  upd_track_sid :: string
  upd_subscribe :: bool

text \<open>
  Enumerations on the wire. The accessor that the protocol compiler generates for an
  enumeration field gives the default, the first value, for an integer it does not know.
\<close>

primrec encryption_to_int :: "encryption_type \<Rightarrow> int" where
  "encryption_to_int Enc_None = 0"
| "encryption_to_int Enc_Gcm = 1"
| "encryption_to_int Enc_Custom = 2"

definition encryption_of_int :: "int \<Rightarrow> encryption_type" where
  "encryption_of_int n = (if n = 1 then Enc_Gcm else if n = 2 then Enc_Custom else Enc_None)"

definition reason_of_int :: "int \<Rightarrow> reason" where
  "reason_of_int n =
     (if n = 1 then NotFound else if n = 2 then Reason_NotAllowed else if n = 3 then LimitExceeded
      else if n = 4 then Queued else if n = 5 then UnsupportedType else if n = 6 then UnclassifiedError
      else if n = 7 then Reason_InvalidHandle else if n = 8 then Reason_InvalidName
      else if n = 9 then DuplicateHandle else if n = 10 then Reason_DuplicateName else Reason_Ok)"

section \<open>Publisher\<close>

definition publish_request_msg_from :: "handle \<Rightarrow> string \<Rightarrow> bool \<Rightarrow> publish_request_msg" where
  "publish_request_msg_from h name e2ee =
     \<lparr>prm_pub_handle = u32_from_handle h, prm_name = name,
      prm_encryption = encryption_to_int (if e2ee then Enc_Gcm else Enc_None)\<rparr>"

definition unpublish_request_msg_from :: "handle \<Rightarrow> unpublish_request_msg" where
  "unpublish_request_msg_from h = \<lparr>urm_pub_handle = u32_from_handle h\<rparr>"

definition track_info_try_from ::
    "proto_track_info \<Rightarrow> (sid_store, internal_error, track_info) comp" where
  "track_info_try_from msg = (\<lambda>\<sigma>.
     case handle_try_from_u32 (pti_pub_handle msg) of
       Err e \<Rightarrow> (Err (Handle_Failed e), \<sigma>)
     | Panic \<Rightarrow> (Panic, \<sigma>)
     | Ok h \<Rightarrow>
         (let t = encryption_of_int (pti_encryption msg)
          in if t = Enc_Custom then (Err (Unsupported_E2EE t), \<sigma>)
             else
               (case sid_try_from (pti_sid msg) of
                  Err e \<Rightarrow> (Err (Sid_Failed e), \<sigma>)
                | Panic \<Rightarrow> (Panic, \<sigma>)
                | Ok s \<Rightarrow>
                    (Ok \<lparr>ti_sid = length \<sigma>, ti_pub_handle = h, ti_name = pti_name msg,
                         ti_uses_e2ee = (t = Enc_Gcm)\<rparr>, \<sigma> @ [s]))))"

definition publish_response_try_from ::
    "publish_response_msg \<Rightarrow> (sid_store, internal_error, local_input) comp" where
  "publish_response_try_from msg =
     (case psm_info msg of
        None \<Rightarrow> throw Missing_Info
      | Some m \<Rightarrow> sbind (track_info_try_from m)
          (\<lambda>info. ret (SfuPublishResponse (ti_pub_handle info) (Inr info))))"

definition unpublish_response_try_from ::
    "unpublish_response_msg \<Rightarrow> (internal_error, local_input) rust" where
  "unpublish_response_try_from msg =
     (case usm_info msg of
        None \<Rightarrow> Err Missing_Info
      | Some m \<Rightarrow> map_ok SfuUnpublishResponse
          (map_err Handle_Failed (handle_try_from_u32 (pti_pub_handle m))))"

definition publish_result_from_request_response :: "request_response \<Rightarrow> local_input option" where
  "publish_result_from_request_response msg =
     (case rr_request msg of
        None \<Rightarrow> None
      | Some Request_Other \<Rightarrow> None
      | Some (Request_PublishDataTrack request) \<Rightarrow>
          (case handle_try_from_u32 (prm_pub_handle request) of
             Ok h \<Rightarrow>
               (let error = (case reason_of_int (rr_reason msg) of
                      Reason_NotAllowed \<Rightarrow> NotAllowed
                    | Reason_DuplicateName \<Rightarrow> DuplicateName
                    | Reason_InvalidName \<Rightarrow> InvalidName
                    | _ \<Rightarrow> Publish_Internal (Sfu_Rejected (rr_message msg)))
                in Some (SfuPublishResponse h (Inl error)))
           | _ \<Rightarrow> None))"

text \<open>\<^verbatim>\<open>From<DataTrackInfo>\<close>, for the state that is sent after a reconnect.\<close>

definition proto_track_info_from :: "sid_store \<Rightarrow> track_info \<Rightarrow> proto_track_info" where
  "proto_track_info_from \<sigma> info =
     (let encryption = (if ti_uses_e2ee info then Enc_Gcm else Enc_None)
      in \<lparr>pti_pub_handle = u32_from_handle (ti_pub_handle info),
          pti_sid = string_from_sid (info_sid \<sigma> info),
          pti_name = ti_name info, pti_encryption = encryption_to_int encryption\<rparr>)"

definition publish_responses_for_sync_state ::
    "sid_store \<Rightarrow> track_info list \<Rightarrow> publish_response_msg list" where
  "publish_responses_for_sync_state \<sigma> published =
     map (\<lambda>info. \<lparr>psm_info = Some (proto_track_info_from \<sigma> info)\<rparr>) published"

section \<open>Subscriber\<close>

text \<open>
  The handles of subscriptions. The map of the message is given with the order in which the
  source iterates over it; the first error ends the collection.
\<close>

fun collect_handles ::
    "(32 word \<times> string) list \<Rightarrow> (handle \<rightharpoonup> data_track_sid) \<Rightarrow> (internal_error, handle \<rightharpoonup> data_track_sid) rust" where
  "collect_handles [] m = Ok m"
| "collect_handles ((raw, track_sid) # rest) m =
     (case handle_try_from_u32 raw of
        Err e \<Rightarrow> Err (Handle_Failed e)
      | Panic \<Rightarrow> Panic
      | Ok h \<Rightarrow>
          (case sid_try_from track_sid of
             Err e \<Rightarrow> Err (Sid_Failed e)
           | Panic \<Rightarrow> Panic
           | Ok s \<Rightarrow> collect_handles rest (m(h \<mapsto> s))))"

definition subscriber_handles_try_from ::
    "(32 word \<times> string) list \<Rightarrow> (internal_error, remote_input) rust" where
  "subscriber_handles_try_from sub_handles =
     map_ok SfuSubscriberHandles (collect_handles sub_handles Map.empty)"

fun convert_infos :: "proto_track_info list \<Rightarrow> (sid_store, internal_error, track_info list) comp" where
  "convert_infos [] = ret []"
| "convert_infos (m # ms) =
     sbind (track_info_try_from m) (\<lambda>info. sbind (convert_infos ms) (\<lambda>infos. ret (info # infos)))"

text \<open>
  \<^verbatim>\<open>extract_track_info\<close> takes the list out of the message (an empty one stays behind), and
  \<^verbatim>\<open>event_from_participant_info\<close> goes through the participants until one fails.
\<close>

definition extract_track_info ::
    "participant_info \<Rightarrow> sid_store \<Rightarrow> (internal_error, track_info list) rust \<times> sid_store \<times> participant_info" where
  "extract_track_info msg \<sigma> =
     (let taken = pi_data_tracks msg; (r, \<sigma>) = convert_infos taken \<sigma>
      in (r, \<sigma>, msg\<lparr>pi_data_tracks := []\<rparr>))"

fun collect_updates ::
    "string option \<Rightarrow> participant_info list \<Rightarrow> (string \<rightharpoonup> track_info list) \<Rightarrow> sid_store \<Rightarrow>
     (internal_error, string \<rightharpoonup> track_info list) rust \<times> sid_store \<times> participant_info list" where
  "collect_updates local [] m \<sigma> = (Ok m, \<sigma>, [])"
| "collect_updates local (p # ps) m \<sigma> =
     (if local = Some (pi_identity p)
      then let (r, \<sigma>, ps) = collect_updates local ps m \<sigma> in (r, \<sigma>, p # ps)
      else
        (case extract_track_info p \<sigma> of
           (Ok infos, \<sigma>, p) \<Rightarrow>
             let (r, \<sigma>, ps) = collect_updates local ps (m(pi_identity p \<mapsto> infos)) \<sigma>
             in (r, \<sigma>, p # ps)
         | (Err e, \<sigma>, p) \<Rightarrow> (Err e, \<sigma>, p # ps)
         | (Panic, \<sigma>, p) \<Rightarrow> (Panic, \<sigma>, p # ps)))"

definition event_from_participant_info ::
    "participant_info list \<Rightarrow> string option \<Rightarrow> sid_store \<Rightarrow>
     (internal_error, remote_input) rust \<times> sid_store \<times> participant_info list" where
  "event_from_participant_info msg local \<sigma> =
     (let (r, \<sigma>, msg) = collect_updates local msg Map.empty \<sigma>
      in (map_ok SfuPublicationUpdates r, \<sigma>, msg))"

definition event_from_join ::
    "participant_info list \<Rightarrow> sid_store \<Rightarrow>
     (internal_error, remote_input) rust \<times> sid_store \<times> participant_info list" where
  "event_from_join other_participants \<sigma> = event_from_participant_info other_participants None \<sigma>"

definition event_from_participant_update ::
    "participant_info list \<Rightarrow> string \<Rightarrow> sid_store \<Rightarrow>
     (internal_error, remote_input) rust \<times> sid_store \<times> participant_info list" where
  "event_from_participant_update participants local_participant_identity \<sigma> =
     event_from_participant_info participants (Some local_participant_identity) \<sigma>"

definition update_data_subscription_from :: "data_track_sid \<Rightarrow> bool \<Rightarrow> update_subscription_msg list" where
  "update_data_subscription_from s subscribe =
     (let update = \<lparr>upd_track_sid = string_from_sid s, upd_subscribe = subscribe\<rparr> in [update])"

section \<open>What the conversions guarantee\<close>

definition info_wf :: "sid_store \<Rightarrow> track_info \<Rightarrow> bool" where
  "info_wf \<sigma> info \<longleftrightarrow>
     info_ok \<sigma> info \<and> valid_handle (ti_pub_handle info) \<and> valid_sid (info_sid \<sigma> info)"

lemma info_wf_extend: "info_wf \<sigma> info \<Longrightarrow> info_wf (\<sigma> @ \<tau>) info"
  by (simp add: info_wf_def info_ok_def info_sid_def nth_append)

lemma encryption_roundtrip [simp]: "encryption_of_int (encryption_to_int t) = t"
  by (cases t) (simp_all add: encryption_of_int_def)

lemma track_info_try_from_Ok:
  assumes "track_info_try_from msg \<sigma> = (Ok info, \<sigma>')"
  shows "\<exists>s. \<sigma>' = \<sigma> @ [s] \<and> s = Sid (pti_sid msg) \<and> ti_sid info = length \<sigma>
    \<and> ti_name info = pti_name msg \<and> (ti_uses_e2ee info \<longleftrightarrow> pti_encryption msg = 1)
    \<and> pti_encryption msg \<noteq> 2
    \<and> u32_from_handle (ti_pub_handle info) = pti_pub_handle msg \<and> info_wf \<sigma>' info"
  using assms
  by (auto simp: track_info_try_from_def Let_def sid_try_from_Ok_iff handle_try_from_u32_inverse
      info_wf_def info_ok_def info_sid_def encryption_of_int_def
      split: rust.splits if_splits)

lemma track_info_try_from_store:
  "\<exists>\<tau>. snd (track_info_try_from msg \<sigma>) = \<sigma> @ \<tau>"
  by (auto simp: track_info_try_from_def Let_def split: rust.splits)

text \<open>
  C38. A track's information survives the protocol. What the client sends about a published
  track (the sync state after a reconnect) reads back as the same handle, name and encryption
  flag, with a new cell that holds the same SID; no cell that existed before is touched.
\<close>

theorem track_info_proto_roundtrip:
  assumes "info_wf \<sigma> info"
  shows "track_info_try_from (proto_track_info_from \<sigma> info) \<sigma>
    = (Ok (info\<lparr>ti_sid := length \<sigma>\<rparr>), \<sigma> @ [info_sid \<sigma> info])"
  using assms
  by (cases info)
    (simp add: track_info_try_from_def proto_track_info_from_def info_wf_def handle_u32_roundtrip
      sid_roundtrip Let_def)

theorem track_info_proto_roundtrip_witness:
  "track_info_try_from (proto_track_info_from [Sid ''DTR_ab'']
       \<lparr>ti_sid = 0, ti_pub_handle = Handle 7, ti_name = ''pose'', ti_uses_e2ee = True\<rparr>) [Sid ''DTR_ab'']
   = (Ok \<lparr>ti_sid = 1, ti_pub_handle = Handle 7, ti_name = ''pose'', ti_uses_e2ee = True\<rparr>,
      [Sid ''DTR_ab'', Sid ''DTR_ab''])"
  using track_info_proto_roundtrip [of "[Sid ''DTR_ab'']"
      "\<lparr>ti_sid = 0, ti_pub_handle = Handle 7, ti_name = ''pose'', ti_uses_e2ee = True\<rparr>"]
  by (simp add: info_wf_def info_ok_def info_sid_def valid_handle_def valid_sid_def starts_with_def
      SID_PREFIX_def)

text \<open>
  An unknown kind of encryption is taken for none. A track that the SFU announces with an
  encryption type this version does not know (any integer but 0, 1 and 2) is accepted as an
  unencrypted track, while the known but unsupported type is rejected.
\<close>

lemma unknown_encryption_taken_for_none:
  assumes "pti_encryption msg \<notin> {0, 1, 2}"
  shows "track_info_try_from msg \<sigma> = track_info_try_from (msg\<lparr>pti_encryption := 0\<rparr>) \<sigma>
    \<and> (\<forall>info \<sigma>'. track_info_try_from msg \<sigma> = (Ok info, \<sigma>') \<longrightarrow> \<not> ti_uses_e2ee info)
    \<and> is_ok (fst (track_info_try_from (msg\<lparr>pti_encryption := 2\<rparr>) \<sigma>)) = False"
proof (intro conjI allI impI)
  show "track_info_try_from msg \<sigma> = track_info_try_from (msg\<lparr>pti_encryption := 0\<rparr>) \<sigma>"
    using assms by (simp add: track_info_try_from_def encryption_of_int_def split: rust.split)
  show "is_ok (fst (track_info_try_from (msg\<lparr>pti_encryption := 2\<rparr>) \<sigma>)) = False"
    by (auto simp: track_info_try_from_def encryption_of_int_def Let_def split: rust.splits)
  fix info \<sigma>' assume "track_info_try_from msg \<sigma> = (Ok info, \<sigma>')"
  from track_info_try_from_Ok [OF this] assms show "\<not> ti_uses_e2ee info" by auto
qed

lemma unknown_encryption_taken_for_none_witness:
  "track_info_try_from \<lparr>pti_pub_handle = 7, pti_sid = ''DTR_ab'', pti_name = [], pti_encryption = 3\<rparr> []
   = track_info_try_from \<lparr>pti_pub_handle = 7, pti_sid = ''DTR_ab'', pti_name = [], pti_encryption = 0\<rparr> []"
  using unknown_encryption_taken_for_none [of
      "\<lparr>pti_pub_handle = 7, pti_sid = ''DTR_ab'', pti_name = [], pti_encryption = 3\<rparr>" "[]"]
  by simp

lemma convert_infos_Ok:
  "convert_infos ms \<sigma> = (Ok infos, \<sigma>') \<Longrightarrow>
     \<exists>\<tau>. \<sigma>' = \<sigma> @ \<tau> \<and> list_all (info_wf \<sigma>') infos \<and> length infos = length ms"
proof (induction ms arbitrary: \<sigma> infos)
  case Nil
  then show ?case by (simp add: ret_def)
next
  case (Cons m ms)
  obtain info \<sigma>1 where 1: "track_info_try_from m \<sigma> = (Ok info, \<sigma>1)"
    using Cons.prems by (auto simp: sbind_def split: prod.splits rust.splits)
  obtain infos' where 2: "convert_infos ms \<sigma>1 = (Ok infos', \<sigma>')" and infos: "infos = info # infos'"
    using Cons.prems 1 by (auto simp: sbind_def ret_def split: prod.splits rust.splits)
  from track_info_try_from_Ok [OF 1] obtain s where s: "\<sigma>1 = \<sigma> @ [s]" "info_wf \<sigma>1 info" by auto
  from Cons.IH [OF 2] obtain \<tau> where "\<sigma>' = \<sigma>1 @ \<tau>" "list_all (info_wf \<sigma>') infos'"
    "length infos' = length ms" by auto
  with s info_wf_extend [OF s(2), of \<tau>] show ?case by (simp add: infos)
qed

lemma collect_updates_Ok:
  "collect_updates me ps m \<sigma> = (Ok m', \<sigma>', ps') \<Longrightarrow>
     (\<forall>i infos. m i = Some infos \<longrightarrow> list_all (info_wf \<sigma>) infos) \<Longrightarrow>
     (\<exists>\<tau>. \<sigma>' = \<sigma> @ \<tau>)
     \<and> dom m' = dom m \<union> pi_identity ` {p \<in> set ps. me \<noteq> Some (pi_identity p)}
     \<and> (\<forall>i infos. m' i = Some infos \<longrightarrow> list_all (info_wf \<sigma>') infos)
     \<and> ps' = map (\<lambda>p. if me = Some (pi_identity p) then p else p\<lparr>pi_data_tracks := []\<rparr>) ps"
proof (induction ps arbitrary: m \<sigma> ps')
  case Nil
  then show ?case by auto
next
  case (Cons p ps)
  show ?case
  proof (cases "me = Some (pi_identity p)")
    case True
    then obtain qs where "collect_updates me ps m \<sigma> = (Ok m', \<sigma>', qs)" "ps' = p # qs"
      using Cons.prems(1) by (auto simp: Let_def split: prod.splits)
    with Cons.IH [of m \<sigma> qs] Cons.prems(2) True show ?thesis by (auto simp: Let_def)
  next
    case False
    then obtain infos \<sigma>1 qs where
      c: "convert_infos (pi_data_tracks p) \<sigma> = (Ok infos, \<sigma>1)" and
      r: "collect_updates me ps (m(pi_identity p \<mapsto> infos)) \<sigma>1 = (Ok m', \<sigma>', qs)" and
      ps': "ps' = p\<lparr>pi_data_tracks := []\<rparr> # qs"
      using Cons.prems(1) by (auto simp: extract_track_info_def Let_def split: prod.splits rust.splits)
    from convert_infos_Ok [OF c] obtain \<tau> where t: "\<sigma>1 = \<sigma> @ \<tau>" "list_all (info_wf \<sigma>1) infos" by auto
    have "\<forall>i infos'. (m(pi_identity p \<mapsto> infos)) i = Some infos' \<longrightarrow> list_all (info_wf \<sigma>1) infos'"
      using Cons.prems(2) t by (auto simp: list_all_iff intro: info_wf_extend)
    note ih = Cons.IH [OF r this]
    have "{q \<in> set (p # ps). me \<noteq> Some (pi_identity q)}
        = insert p {q \<in> set ps. me \<noteq> Some (pi_identity q)}"
      using False by auto
    moreover have "dom (m(pi_identity p \<mapsto> infos)) = insert (pi_identity p) (dom m)" by simp
    ultimately have "dom m' = dom m \<union> pi_identity ` {q \<in> set (p # ps). me \<noteq> Some (pi_identity q)}"
      using ih by (simp only: image_insert) blast
    moreover have "\<exists>\<tau>. \<sigma>' = \<sigma> @ \<tau>" using ih t(1) by auto
    ultimately show ?thesis using ih False by (simp add: ps')
  qed
qed

text \<open>
  What a participant update turns into. If the conversion succeeds, the event lists exactly
  the participants of the message other than the local one, each with well-formed track
  information (valid handle and SID, its own cell); the lists were taken out of the message for
  these participants and left alone for the local one; no existing SID cell was changed.
\<close>

lemma participant_update_event:
  assumes "event_from_participant_update ps me \<sigma> = (Ok (SfuPublicationUpdates m), \<sigma>', ps')"
  shows "dom m = pi_identity ` set ps - {me}
    \<and> (\<forall>i infos. m i = Some infos \<longrightarrow> list_all (info_wf \<sigma>') infos)
    \<and> ps' = map (\<lambda>p. if pi_identity p = me then p else p\<lparr>pi_data_tracks := []\<rparr>) ps
    \<and> take (length \<sigma>) \<sigma>' = \<sigma>"
proof -
  from assms have "collect_updates (Some me) ps Map.empty \<sigma> = (Ok m, \<sigma>', ps')"
    by (auto simp: event_from_participant_update_def event_from_participant_info_def Let_def
        map_ok_eq_Ok split: prod.splits)
  from collect_updates_Ok [OF this] show ?thesis by (auto intro!: map_cong)
qed

lemma participant_update_event_witness:
  "\<exists>m \<sigma>' ps'. event_from_participant_update
       [\<lparr>pi_identity = ''me'', pi_data_tracks = []\<rparr>, \<lparr>pi_identity = ''bob'', pi_data_tracks =
          [\<lparr>pti_pub_handle = 7, pti_sid = ''DTR_ab'', pti_name = [], pti_encryption = 1\<rparr>]\<rparr>] ''me'' []
     = (Ok (SfuPublicationUpdates m), \<sigma>', ps') \<and> dom m = {''bob''}"
proof -
  let ?ps = "[\<lparr>pi_identity = ''me'', pi_data_tracks = []\<rparr>, \<lparr>pi_identity = ''bob'', pi_data_tracks =
          [\<lparr>pti_pub_handle = 7, pti_sid = ''DTR_ab'', pti_name = [], pti_encryption = 1\<rparr>]\<rparr>]"
  have "handle_try_from_u32 7 = Ok (Handle 7)"
    by (simp add: handle_try_from_u32_Ok_iff)
  then obtain m \<sigma>' ps' where e: "event_from_participant_update ?ps ''me'' [] = (Ok (SfuPublicationUpdates m), \<sigma>', ps')"
    by (simp add: event_from_participant_update_def event_from_participant_info_def Let_def
        extract_track_info_def track_info_try_from_def encryption_of_int_def sid_try_from_def
        starts_with_def SID_PREFIX_def sbind_def ret_def)
  from participant_update_event [OF e] have "dom m = {''bob''}" by auto
  with e show ?thesis by blast
qed

lemma convert_infos_store: "\<exists>\<tau>. snd (convert_infos ms \<sigma>) = \<sigma> @ \<tau>"
proof (induction ms arbitrary: \<sigma>)
  case (Cons m ms)
  obtain r \<sigma>1 where 1: "track_info_try_from m \<sigma> = (r, \<sigma>1)" by fastforce
  obtain \<tau> where "\<sigma>1 = \<sigma> @ \<tau>" using track_info_try_from_store [of m \<sigma>] 1 by auto
  with 1 Cons.IH [of \<sigma>1] show ?case
    by (cases r; cases "convert_infos ms \<sigma>1"; cases "fst (convert_infos ms \<sigma>1)")
      (auto simp: sbind_def ret_def)
qed (simp add: ret_def)

lemma collect_updates_store: "\<exists>\<tau>. fst (snd (collect_updates me ps m \<sigma>)) = \<sigma> @ \<tau>"
proof (induction ps arbitrary: m \<sigma>)
  case (Cons p ps)
  obtain r \<sigma>1 where 1: "convert_infos (pi_data_tracks p) \<sigma> = (r, \<sigma>1)" by fastforce
  obtain \<tau> where t: "\<sigma>1 = \<sigma> @ \<tau>" using convert_infos_store [of "pi_data_tracks p" \<sigma>] 1 by auto
  show ?case
  proof (cases r)
    case (Ok infos)
    with 1 t Cons.IH [of m \<sigma>] Cons.IH [of "m(pi_identity p \<mapsto> infos)" \<sigma>1] show ?thesis
      by (auto simp: extract_track_info_def Let_def split_beta simp del: fun_upd_apply)
  qed (use 1 t Cons.IH [of m \<sigma>] in \<open>auto simp: extract_track_info_def Let_def split_beta\<close>)
qed simp

end
