(* ===== verification/Local_Manager.thy ===== *)
theory Local_Manager
  imports Pipelines Track_Proto
begin

text \<open>
  The publisher's manager: \<^verbatim>\<open>local/manager.rs\<close> and the operations of a local track in
  \<^verbatim>\<open>local/mod.rs\<close>. One record holds the manager's fields and what its tasks share with it:
  the bounded input queue, the one-shot channels of pending publications, the watched publish
  states, the tasks. Every handler is a function on it. Output events, answers to the user and
  query results are appended to logs. Iterating over the map of descriptors takes the order of
  its keys as an argument; instants and random numbers are arguments too.
\<close>

section \<open>State\<close>

text \<open>
  \<^verbatim>\<open>Descriptor::Pending\<close> holds the one-shot sender of its result; \<^verbatim>\<open>Descriptor::Active\<close> the
  information, the cell of the publish state and the task.
\<close>

datatype descriptor =
    Pending nat
  | Active track_info cell nat

text \<open>
  A one-shot channel: nothing sent yet, a value sent, the receiver dropped, the sender dropped
  without sending.
\<close>

datatype oneshot = Waiting | Filled publish_result | Receiver_Gone | Sender_Gone

text \<open>\<^verbatim>\<open>forward_publish_result\<close>, the task between a pending publication and the user.\<close>

record forward_task =
  fw_handle :: handle
  fw_result_rx :: nat
  fw_user :: tx
  fw_done :: bool

record track_task =
  tt_info :: track_info
  tt_pipeline :: pipeline
  tt_state_rx :: cell
  tt_frame_rx :: "data_track_frame list"
  tt_state :: publish_state
  tt_done :: bool

record local_manager =
  lm_encryption_provider :: "encryption_provider option"
  lm_event_in :: "local_input list"
  lm_event_out :: "local_output list"
  lm_handle_allocator :: handle_allocator
  lm_descriptors :: "handle \<rightharpoonup> descriptor"
  lm_results :: "oneshot list"
  lm_forwards :: "forward_task list"
  lm_replies :: "(tx \<times> publish_result) list"
  lm_queries :: "(tx \<times> track_info list) list"
  lm_sids :: sid_store
  lm_states :: "publish_state list"
  lm_tasks :: "track_task list"

definition FRAME_BUFFER_COUNT :: nat where "FRAME_BUFFER_COUNT = 16"
definition EVENT_BUFFER_COUNT :: nat where "EVENT_BUFFER_COUNT = 16"

definition local_manager_new :: "encryption_provider option \<Rightarrow> local_manager" where
  "local_manager_new provider =
     \<lparr>lm_encryption_provider = provider, lm_event_in = [], lm_event_out = [],
      lm_handle_allocator = new_allocator, lm_descriptors = Map.empty, lm_results = [],
      lm_forwards = [], lm_replies = [], lm_queries = [], lm_sids = [], lm_states = [],
      lm_tasks = []\<rparr>"

section \<open>Channels\<close>

definition send_out :: "local_output \<Rightarrow> local_manager \<Rightarrow> local_manager" where
  "send_out ev s = s\<lparr>lm_event_out := lm_event_out s @ [ev]\<rparr>"

definition reply :: "tx \<Rightarrow> publish_result \<Rightarrow> local_manager \<Rightarrow> local_manager" where
  "reply user r s = s\<lparr>lm_replies := lm_replies s @ [(user, r)]\<rparr>"

text \<open>
  A watch channel keeps its value and drops the new one when it has no receiver left; its only
  receiver belongs to the task of the track.
\<close>

definition has_receiver :: "cell \<Rightarrow> local_manager \<Rightarrow> bool" where
  "has_receiver c s \<longleftrightarrow> list_ex (\<lambda>t. tt_state_rx t = c \<and> \<not> tt_done t) (lm_tasks s)"

lemma has_receiver_updates [simp]:
  "has_receiver c (s\<lparr>lm_descriptors := m\<rparr>) = has_receiver c s" "has_receiver c (s\<lparr>lm_sids := x\<rparr>) = has_receiver c s"
  "has_receiver c (s\<lparr>lm_states := y\<rparr>) = has_receiver c s" "has_receiver c (s\<lparr>lm_results := z\<rparr>) = has_receiver c s"
  "has_receiver c (s\<lparr>lm_event_out := e\<rparr>) = has_receiver c s"
  by (simp_all add: has_receiver_def)

definition set_state :: "cell \<Rightarrow> publish_state \<Rightarrow> local_manager \<Rightarrow> local_manager" where
  "set_state c st s = (if has_receiver c s then s\<lparr>lm_states := (lm_states s)[c := st]\<rparr> else s)"

text \<open>
  \<^verbatim>\<open>LocalTrackInner::local_unpublish\<close>, which the user calls through \<^verbatim>\<open>unpublish\<close> and which
  runs when the last handle on a track is dropped.
\<close>

definition local_unpublish :: "local_track \<Rightarrow> local_manager \<Rightarrow> local_manager" where
  "local_unpublish t s = set_state (lt_state_tx t) Unpublished s"

text \<open>A result that cannot be delivered is dropped; a track in it is unpublished by that.\<close>

fun drop_result :: "publish_result \<Rightarrow> local_manager \<Rightarrow> local_manager" where
  "drop_result (Inl e) s = s"
| "drop_result (Inr t) s = local_unpublish t s"

definition send_result :: "nat \<Rightarrow> publish_result \<Rightarrow> local_manager \<Rightarrow> local_manager" where
  "send_result i r s =
     (if lm_results s ! i = Receiver_Gone then drop_result r s
      else s\<lparr>lm_results := (lm_results s)[i := Filled r]\<rparr>)"

text \<open>Dropping the sender of a one-shot channel, as removing a pending descriptor does.\<close>

definition drop_sender :: "nat \<Rightarrow> local_manager \<Rightarrow> local_manager" where
  "drop_sender i s =
     (if lm_results s ! i = Waiting then s\<lparr>lm_results := (lm_results s)[i := Sender_Gone]\<rparr> else s)"

fun drop_descriptor :: "descriptor \<Rightarrow> local_manager \<Rightarrow> local_manager" where
  "drop_descriptor (Pending i) s = drop_sender i s"
| "drop_descriptor (Active info c t) s = s"

text \<open>\<^verbatim>\<open>try_send\<close> on the input channel: it fails when the queue is full.\<close>

definition try_send_in :: "local_input \<Rightarrow> local_manager \<Rightarrow> local_manager option" where
  "try_send_in ev s =
     (if length (lm_event_in s) < EVENT_BUFFER_COUNT
      then Some (s\<lparr>lm_event_in := lm_event_in s @ [ev]\<rparr>) else None)"

section \<open>Handlers of the manager\<close>

definition on_publish_request :: "track_options \<Rightarrow> tx \<Rightarrow> local_manager \<Rightarrow> local_manager" where
  "on_publish_request options result_tx s =
     (case allocator_get (lm_handle_allocator s) of
        (None, a) \<Rightarrow> reply result_tx (Inl LimitReached) (s\<lparr>lm_handle_allocator := a\<rparr>)
      | (Some h, a) \<Rightarrow>
          let s = s\<lparr>lm_handle_allocator := a\<rparr>
          in if lm_descriptors s h \<noteq> None
             then reply result_tx (Inl (Publish_Internal Descriptor_Exists)) s
             else
               let i = length (lm_results s);
                   s = s\<lparr>lm_results := lm_results s @ [Waiting],
                         lm_descriptors := (lm_descriptors s)(h \<mapsto> Pending i),
                         lm_forwards := lm_forwards s @
                           [\<lparr>fw_handle = h, fw_result_rx = i, fw_user = result_tx, fw_done = False\<rparr>]\<rparr>
               in send_out (SfuPublishRequest h (opt_name options)
                    (lm_encryption_provider s \<noteq> None)) s)"

text \<open>
  One poll of \<^verbatim>\<open>forward_publish_result\<close>. The select is biased: a result is forwarded first. When
  the user's receiver is gone, the task ends, drops its own receiver, and tries to tell the
  manager; a full queue loses the message.
\<close>

definition poll_forward :: "nat \<Rightarrow> bool \<Rightarrow> local_manager \<Rightarrow> local_manager" where
  "poll_forward k user_gone s =
     (let f = lm_forwards s ! k;
          finish = (\<lambda>s. s\<lparr>lm_forwards := (lm_forwards s)[k := f\<lparr>fw_done := True\<rparr>]\<rparr>)
      in if fw_done f then s
         else
           (case lm_results s ! fw_result_rx f of
              Filled r \<Rightarrow>
                finish (if user_gone then drop_result r s else reply (fw_user f) r s)
            | other \<Rightarrow>
                if user_gone
                then
                  let s = finish (if other = Waiting
                        then s\<lparr>lm_results := (lm_results s)[fw_result_rx f := Receiver_Gone]\<rparr> else s)
                  in (case try_send_in (PublishCancelled (fw_handle f)) s of
                        Some s' \<Rightarrow> s' | None \<Rightarrow> s)
                else s))"

definition on_publish_cancelled :: "handle \<Rightarrow> local_manager \<Rightarrow> local_manager" where
  "on_publish_cancelled h s =
     (case lm_descriptors s h of
        None \<Rightarrow> s
      | Some d \<Rightarrow> drop_descriptor d (s\<lparr>lm_descriptors := (lm_descriptors s)(h := None)\<rparr>))"

fun active_info :: "descriptor \<Rightarrow> track_info option" where
  "active_info (Pending i) = None"
| "active_info (Active info c t) = Some info"

definition published_infos :: "handle list \<Rightarrow> local_manager \<Rightarrow> track_info list" where
  "published_infos ks s =
     List.map_filter (\<lambda>h. Option.bind (lm_descriptors s h) active_info) ks"

definition on_query_published :: "tx \<Rightarrow> handle list \<Rightarrow> local_manager \<Rightarrow> local_manager" where
  "on_query_published result_tx ks s =
     s\<lparr>lm_queries := lm_queries s @ [(result_tx, published_infos ks s)]\<rparr>"

definition remove_descriptor :: "handle \<Rightarrow> local_manager \<Rightarrow> local_manager" where
  "remove_descriptor h s =
     (case lm_descriptors s h of
        None \<Rightarrow> s
      | Some d \<Rightarrow>
          let s = s\<lparr>lm_descriptors := (lm_descriptors s)(h := None)\<rparr>
          in (case d of
                Pending i \<Rightarrow> drop_sender i s
              | Active info c t \<Rightarrow>
                  if lm_states s ! c \<noteq> Unpublished then set_state c Unpublished s else s))"

definition on_unpublish_request :: "handle \<Rightarrow> local_manager \<Rightarrow> local_manager" where
  "on_unpublish_request h s = send_out (SfuUnpublishRequest h) (remove_descriptor h s)"

definition on_sfu_unpublish_response :: "handle \<Rightarrow> local_manager \<Rightarrow> local_manager" where
  "on_sfu_unpublish_response h s = remove_descriptor h s"

definition create_local_track ::
    "track_info \<Rightarrow> instant \<Rightarrow> u32 \<Rightarrow> local_manager \<Rightarrow> local_track \<times> local_manager" where
  "create_local_track info now rnd s =
     (let provider = (if ti_uses_e2ee info then lm_encryption_provider s else None);
          pipeline = pipeline_new info provider now rnd;
          c = length (lm_states s);
          t = length (lm_tasks s);
          task = \<lparr>tt_info = info, tt_pipeline = pipeline, tt_state_rx = c, tt_frame_rx = [],
                  tt_state = Published, tt_done = False\<rparr>
      in (\<lparr>lt_info = info, lt_frame_tx = t, lt_state_tx = c\<rparr>,
          s\<lparr>lm_states := lm_states s @ [Published], lm_tasks := lm_tasks s @ [task],
            lm_descriptors := (lm_descriptors s)(ti_pub_handle info \<mapsto> Active info c t)\<rparr>))"

definition on_sfu_publish_response ::
    "handle \<Rightarrow> publish_error + track_info \<Rightarrow> instant \<Rightarrow> u32 \<Rightarrow> local_manager \<Rightarrow> local_manager" where
  "on_sfu_publish_response h result now rnd s =
     (case lm_descriptors s h of
        None \<Rightarrow> send_out (SfuUnpublishRequest h) s
      | Some d \<Rightarrow>
          let s = s\<lparr>lm_descriptors := (lm_descriptors s)(h := None)\<rparr>
          in (case d of
                Pending i \<Rightarrow>
                  if lm_results s ! i = Receiver_Gone then s
                  else
                    (case result of
                       Inl e \<Rightarrow> send_result i (Inl e) s
                     | Inr info \<Rightarrow>
                         let (t, s) = create_local_track info now rnd s in send_result i (Inr t) s)
              | Active info c t \<Rightarrow>
                  if lm_states s ! c \<noteq> Republishing then s
                  else
                    (case result of
                       Inl e \<Rightarrow> s
                     | Inr updated \<Rightarrow>
                         let s = s\<lparr>lm_sids := (lm_sids s)[ti_sid info := info_sid (lm_sids s) updated]\<rparr>;
                             s = set_state c Published s
                         in s\<lparr>lm_descriptors := (lm_descriptors s)(h \<mapsto> d)\<rparr>)))"

text \<open>
  \<^verbatim>\<open>on_republish_tracks\<close> takes the descriptors out of the manager and goes through them, putting
  the active ones back.
\<close>

fun republish_loop :: "(handle \<times> descriptor) list \<Rightarrow> local_manager \<Rightarrow> local_manager" where
  "republish_loop [] s = s"
| "republish_loop ((h, d) # ds) s =
     republish_loop ds
       (case d of
          Pending i \<Rightarrow> send_result i (Inl Publish_Disconnected) s
        | Active info c t \<Rightarrow>
            let s = set_state c Republishing s;
                s = send_out (SfuPublishRequest (ti_pub_handle info) (ti_name info) (ti_uses_e2ee info)) s
            in s\<lparr>lm_descriptors := (lm_descriptors s)(h \<mapsto> d)\<rparr>)"

definition entries_in_order :: "handle list \<Rightarrow> (handle \<rightharpoonup> 'd) \<Rightarrow> (handle \<times> 'd) list" where
  "entries_in_order ks m = List.map_filter (\<lambda>h. map_option (\<lambda>d. (h, d)) (m h)) ks"

definition on_republish_tracks :: "handle list \<Rightarrow> local_manager \<Rightarrow> local_manager" where
  "on_republish_tracks ks s =
     republish_loop (entries_in_order ks (lm_descriptors s)) (s\<lparr>lm_descriptors := Map.empty\<rparr>)"

text \<open>
  \<^verbatim>\<open>shutdown\<close> takes the descriptors one after the other: it fails a pending publication, and it
  tells the task of an active track to stop and awaits it. \<open>sh_awaited\<close> is the task it waits for.
  The receiver of the input queue lives until shutdown returns, but nobody receives any more.
\<close>

record shutting_down =
  sh_left :: "(handle \<times> descriptor) list"
  sh_awaited :: "nat option"
  sh_manager :: local_manager

definition shutdown_begin :: "handle list \<Rightarrow> local_manager \<Rightarrow> shutting_down" where
  "shutdown_begin ks s =
     \<lparr>sh_left = entries_in_order ks (lm_descriptors s), sh_awaited = None,
      sh_manager = s\<lparr>lm_descriptors := Map.empty\<rparr>\<rparr>"

definition shutdown_turn :: "shutting_down \<Rightarrow> shutting_down" where
  "shutdown_turn d =
     (case sh_awaited d of
        Some t \<Rightarrow> if tt_done (lm_tasks (sh_manager d) ! t) then d\<lparr>sh_awaited := None\<rparr> else d
      | None \<Rightarrow>
          (case sh_left d of
             [] \<Rightarrow> d
           | (h, Pending i) # ds \<Rightarrow>
               d\<lparr>sh_left := ds, sh_manager := send_result i (Inl Publish_Disconnected) (sh_manager d)\<rparr>
           | (h, Active info c t) # ds \<Rightarrow>
               d\<lparr>sh_left := ds, sh_awaited := Some t, sh_manager := set_state c Unpublished (sh_manager d)\<rparr>))"

definition shutdown_returned :: "shutting_down \<Rightarrow> bool" where
  "shutdown_returned d \<longleftrightarrow> sh_left d = [] \<and> sh_awaited d = None"

section \<open>The run loop\<close>

text \<open>What the environment supplies to a handler: an order of the keys, the time, a random number.\<close>

type_synonym environment = "handle list \<times> instant \<times> u32"

fun handle_input :: "local_input \<Rightarrow> environment \<Rightarrow> local_manager \<Rightarrow> local_manager" where
  "handle_input (PublishRequest options result_tx) env s = on_publish_request options result_tx s"
| "handle_input (PublishCancelled h) env s = on_publish_cancelled h s"
| "handle_input (QueryPublished result_tx) (ks, now, rnd) s = on_query_published result_tx ks s"
| "handle_input (UnpublishRequest h) env s = on_unpublish_request h s"
| "handle_input (SfuPublishResponse h result) (ks, now, rnd) s =
     on_sfu_publish_response h result now rnd s"
| "handle_input (SfuUnpublishResponse h) env s = on_sfu_unpublish_response h s"
| "handle_input RepublishTracks (ks, now, rnd) s = on_republish_tracks ks s"
| "handle_input LocalShutdown env s = s"

text \<open>
  \<^verbatim>\<open>run\<close>, one environment per event that is received: it stops waiting when the queue is empty
  (\<open>Inl\<close>, to be continued) and leaves the loop at a shutdown event (\<open>Inr\<close>, where \<^verbatim>\<open>shutdown\<close>
  begins).
\<close>

definition receive :: "environment \<Rightarrow> local_manager \<Rightarrow> local_manager" where
  "receive env s =
     (case lm_event_in s of
        [] \<Rightarrow> s
      | ev # rest \<Rightarrow> handle_input ev env (s\<lparr>lm_event_in := rest\<rparr>))"

fun local_run :: "environment list \<Rightarrow> local_manager \<Rightarrow> local_manager + shutting_down" where
  "local_run [] s = Inl s"
| "local_run ((ks, now, rnd) # envs) s =
     (case lm_event_in s of
        [] \<Rightarrow> Inl s
      | LocalShutdown # rest \<Rightarrow> Inr (shutdown_begin ks (s\<lparr>lm_event_in := rest\<rparr>))
      | ev # rest \<Rightarrow> local_run envs (receive (ks, now, rnd) s))"

section \<open>The task of a track\<close>

text \<open>
  \<^verbatim>\<open>process_and_send\<close>; the outgoing channel may have no room. A panic of the serializer would
  end the task.
\<close>

definition process_and_send ::
    "nat \<Rightarrow> data_track_frame \<Rightarrow> instant \<Rightarrow> bool \<Rightarrow> local_manager \<Rightarrow> local_manager" where
  "process_and_send k frame now out_room s =
     (let t = lm_tasks s ! k;
          (r, pl) = process_frame frame now (tt_pipeline t);
          s = s\<lparr>lm_tasks := (lm_tasks s)[k := t\<lparr>tt_pipeline := pl\<rparr>]\<rparr>;
          die = s\<lparr>lm_tasks := (lm_tasks s)[k := t\<lparr>tt_pipeline := pl, tt_done := True\<rparr>]\<rparr>
      in (case r of
            Ok packets \<Rightarrow>
              (case collect_results packet_serialize packets of
                 Ok raws \<Rightarrow> (if out_room then send_out (PacketsAvailable raws) s else s)
               | _ \<Rightarrow> die)
          | Err e \<Rightarrow> s
          | Panic \<Rightarrow> die))"

datatype task_branch = State_Changed | Frame_Ready instant bool

definition poll_task :: "nat \<Rightarrow> task_branch \<Rightarrow> local_manager \<Rightarrow> local_manager" where
  "poll_task k branch s =
     (let t = lm_tasks s ! k
      in if tt_done t then s
         else if tt_state t = Unpublished
         then (case try_send_in (UnpublishRequest (ti_pub_handle (tt_info t))) s of
                 None \<Rightarrow> s
               | Some s \<Rightarrow> s\<lparr>lm_tasks := (lm_tasks s)[k := t\<lparr>tt_done := True\<rparr>]\<rparr>)
         else
           (case branch of
              State_Changed \<Rightarrow>
                s\<lparr>lm_tasks := (lm_tasks s)[k := t\<lparr>tt_state := lm_states s ! tt_state_rx t\<rparr>]\<rparr>
            | Frame_Ready now out_room \<Rightarrow>
                (case tt_frame_rx t of
                   [] \<Rightarrow> s
                 | frame # rest \<Rightarrow>
                     let s = s\<lparr>lm_tasks := (lm_tasks s)[k := t\<lparr>tt_frame_rx := rest\<rparr>]\<rparr>
                     in if tt_state t = Republishing then s
                        else process_and_send k frame now out_room s)))"

section \<open>The user's handle on a track\<close>

definition is_published :: "local_track \<Rightarrow> local_manager \<Rightarrow> bool" where
  "is_published t s \<longleftrightarrow> lm_states s ! lt_state_tx t \<noteq> Unpublished"

definition try_push ::
    "local_track \<Rightarrow> data_track_frame \<Rightarrow> local_manager \<Rightarrow> (push_frame_error, unit) rust \<times> local_manager" where
  "try_push t frame s =
     (case lm_states s ! lt_state_tx t of
        Republishing \<Rightarrow> (Err QueueFull, s)
      | Unpublished \<Rightarrow> (Err TrackUnpublished, s)
      | Published \<Rightarrow>
          let task = lm_tasks s ! lt_frame_tx t
          in if \<not> tt_done task \<and> length (tt_frame_rx task) < FRAME_BUFFER_COUNT
             then (Ok (), s\<lparr>lm_tasks := (lm_tasks s)[lt_frame_tx t :=
                     task\<lparr>tt_frame_rx := tt_frame_rx task @ [frame]\<rparr>]\<rparr>)
             else (Err QueueFull, s))"

section \<open>All steps\<close>

text \<open>
  Everything that can happen to a manager that runs: requests of the user and messages of the
  SFU enter its queue (or are refused when it is full), it takes the next event, and its tasks
  and the holders of tracks take their steps.
\<close>

datatype local_move =
    User_Publish track_options tx
  | User_Query tx
  | Signal_Publish_Response publish_response_msg
  | Signal_Request_Response request_response
  | Signal_Unpublish_Response unpublish_response_msg
  | Reconnected
  | Receive environment
  | Poll_Forward nat bool
  | Poll_Task nat task_branch
  | User_Push local_track data_track_frame
  | User_Unpublish local_track

definition enqueue :: "local_input \<Rightarrow> local_manager \<Rightarrow> local_manager" where
  "enqueue ev s = (case try_send_in ev s of None \<Rightarrow> s | Some s' \<Rightarrow> s')"

fun local_step :: "local_manager \<Rightarrow> local_move \<Rightarrow> local_manager" where
  "local_step s (User_Publish options user) =
     (case try_send_in (PublishRequest options user) s of
        None \<Rightarrow> reply user (Inl Publish_Disconnected) s
      | Some s' \<Rightarrow> s')"
| "local_step s (User_Query user) = enqueue (QueryPublished user) s"
| "local_step s (Signal_Publish_Response msg) =
     (case publish_response_try_from msg (lm_sids s) of
        (Ok ev, \<sigma>) \<Rightarrow> enqueue ev (s\<lparr>lm_sids := \<sigma>\<rparr>)
      | (_, \<sigma>) \<Rightarrow> s\<lparr>lm_sids := \<sigma>\<rparr>)"
| "local_step s (Signal_Request_Response msg) =
     (case publish_result_from_request_response msg of None \<Rightarrow> s | Some ev \<Rightarrow> enqueue ev s)"
| "local_step s (Signal_Unpublish_Response msg) =
     (case unpublish_response_try_from msg of Ok ev \<Rightarrow> enqueue ev s | _ \<Rightarrow> s)"
| "local_step s Reconnected = enqueue RepublishTracks s"
| "local_step s (Receive env) = receive env s"
| "local_step s (Poll_Forward k user_gone) = poll_forward k user_gone s"
| "local_step s (Poll_Task k branch) = poll_task k branch s"
| "local_step s (User_Push t frame) = snd (try_push t frame s)"
| "local_step s (User_Unpublish t) = local_unpublish t s"

text \<open>While the manager shuts down, everything but receiving goes on.\<close>

datatype shutdown_move = Shutdown_Turn | Meanwhile local_move

fun shutdown_step :: "shutting_down \<Rightarrow> shutdown_move \<Rightarrow> shutting_down" where
  "shutdown_step d Shutdown_Turn = shutdown_turn d"
| "shutdown_step d (Meanwhile (Receive env)) = d"
| "shutdown_step d (Meanwhile move) = d\<lparr>sh_manager := local_step (sh_manager d) move\<rparr>"

text \<open>
  What a step may assume: orders of iteration are orders of the map's keys, tasks exist, and a
  track handle is one that the manager made.
\<close>

definition track_ok :: "local_manager \<Rightarrow> local_track \<Rightarrow> bool" where
  "track_ok s t \<longleftrightarrow> lt_state_tx t < length (lm_states s) \<and> lt_frame_tx t < length (lm_tasks s)"

fun step_ok :: "local_manager \<Rightarrow> local_move \<Rightarrow> bool" where
  "step_ok s (Receive (ks, now, rnd)) \<longleftrightarrow> iteration_order (lm_descriptors s) ks"
| "step_ok s (Poll_Forward k user_gone) \<longleftrightarrow> k < length (lm_forwards s)"
| "step_ok s (Poll_Task k branch) \<longleftrightarrow> k < length (lm_tasks s)"
| "step_ok s (User_Push t frame) \<longleftrightarrow> track_ok s t"
| "step_ok s (User_Unpublish t) \<longleftrightarrow> track_ok s t"
| "step_ok s _ \<longleftrightarrow> True"

section \<open>Invariant\<close>

definition allocated :: "u16 \<Rightarrow> handle \<Rightarrow> bool" where
  "allocated a h \<longleftrightarrow> valid_handle h \<and> unat (u16_from_handle h) \<le> unat a"

text \<open>
  A descriptor in terms of the one-shot channels, the number of SID cells and the information
  of the tasks: a pending one has a channel that nothing was sent on; an active one stands
  under its own handle and has a task, whose cell has the number of the task.
\<close>

fun descriptor_ok :: "oneshot list \<Rightarrow> nat \<Rightarrow> track_info list \<Rightarrow> handle \<Rightarrow> descriptor \<Rightarrow> bool" where
  "descriptor_ok res n infos h (Pending i) \<longleftrightarrow>
     i < length res \<and> res ! i \<in> {Waiting, Receiver_Gone}"
| "descriptor_ok res n infos h (Active info c t) \<longleftrightarrow>
     ti_pub_handle info = h \<and> ti_sid info < n \<and> c = t \<and> t < length infos \<and> infos ! t = info"

fun apart :: "descriptor \<Rightarrow> descriptor \<Rightarrow> bool" where
  "apart (Pending i) (Pending j) \<longleftrightarrow> i \<noteq> j"
| "apart (Active info c t) (Active info' c' t') \<longleftrightarrow> t \<noteq> t'"
| "apart _ _ \<longleftrightarrow> True"

definition descs_ok ::
    "u16 \<Rightarrow> oneshot list \<Rightarrow> nat \<Rightarrow> track_info list \<Rightarrow> (handle \<rightharpoonup> descriptor) \<Rightarrow> bool" where
  "descs_ok a res n infos m \<longleftrightarrow>
     (\<forall>h d. m h = Some d \<longrightarrow> allocated a h \<and> descriptor_ok res n infos h d)
     \<and> (\<forall>h h' d d'. m h = Some d \<longrightarrow> m h' = Some d' \<longrightarrow> h \<noteq> h' \<longrightarrow> apart d d')"

definition event_ok :: "nat \<Rightarrow> local_input \<Rightarrow> bool" where
  "event_ok n ev \<longleftrightarrow> (\<forall>h info. ev = SfuPublishResponse h (Inr info) \<longrightarrow>
     ti_pub_handle info = h \<and> ti_sid info < n)"

definition local_inv :: "local_manager \<Rightarrow> bool" where
  "local_inv s \<longleftrightarrow>
     descs_ok (alloc_value (lm_handle_allocator s)) (lm_results s) (length (lm_sids s))
       (map tt_info (lm_tasks s)) (lm_descriptors s)
     \<and> map tt_state_rx (lm_tasks s) = [0..<length (lm_states s)]
     \<and> (\<forall>f \<in> set (lm_forwards s). fw_result_rx f < length (lm_results s))
     \<and> (\<forall>ev \<in> set (lm_event_in s). event_ok (length (lm_sids s)) ev)
     \<and> length (lm_event_in s) \<le> EVENT_BUFFER_COUNT
     \<and> (\<forall>t \<in> set (lm_tasks s). length (tt_frame_rx t) \<le> FRAME_BUFFER_COUNT)"

lemma local_inv_new: "local_inv (local_manager_new provider)"
  by (simp add: local_inv_def local_manager_new_def descs_ok_def)

lemma descs_ok_sub:
  "descs_ok a res n infos m \<Longrightarrow> m' \<subseteq>\<^sub>m m \<Longrightarrow> descs_ok a res n infos m'"
  unfolding descs_ok_def map_le_def by (metis domI)

lemma descs_ok_remove: "descs_ok a res n infos m \<Longrightarrow> descs_ok a res n infos (m(h := None))"
  by (erule descs_ok_sub) (simp add: map_le_def)

lemma descriptor_ok_grow:
  "descriptor_ok res n infos h d \<Longrightarrow> n \<le> n' \<Longrightarrow>
     descriptor_ok (res @ res') n' (infos @ infos') h d"
  by (cases d) (auto simp: nth_append)

lemma descs_ok_grow:
  "descs_ok a res n infos m \<Longrightarrow> unat a \<le> unat a' \<Longrightarrow> n \<le> n' \<Longrightarrow>
     descs_ok a' (res @ res') n' (infos @ infos') m"
  unfolding descs_ok_def allocated_def using descriptor_ok_grow le_trans by blast

lemma descs_ok_result:
  assumes "descs_ok a res n infos m" and "v \<in> {Waiting, Receiver_Gone} \<or> (\<forall>h. m h \<noteq> Some (Pending i))"
  shows "descs_ok a (res[i := v]) n infos m"
proof -
  have "descriptor_ok (res[i := v]) n infos h d" if "m h = Some d" for h d
  proof -
    from that assms(1) have "descriptor_ok res n infos h d" by (auto simp: descs_ok_def)
    show ?thesis
    proof (cases d)
      case (Pending j)
      with that assms(2) \<open>descriptor_ok res n infos h d\<close> show ?thesis by (cases "i = j") auto
    next
      case (Active info c t)
      with \<open>descriptor_ok res n infos h d\<close> show ?thesis by simp
    qed
  qed
  with assms(1) show ?thesis by (auto simp: descs_ok_def)
qed

lemma descs_ok_insert:
  assumes "descs_ok a res n infos m" and "allocated a h" and "descriptor_ok res n infos h d"
    and "\<And>h' d'. m h' = Some d' \<Longrightarrow> h' \<noteq> h \<Longrightarrow> apart d d' \<and> apart d' d"
  shows "descs_ok a res n infos (m(h \<mapsto> d))"
  using assms unfolding descs_ok_def by auto

lemma descs_ok_only:
  "descs_ok a res n infos m \<Longrightarrow> m h = Some (Pending i) \<Longrightarrow> (m(h := None)) h' \<noteq> Some (Pending i)"
  by (auto simp: descs_ok_def) (metis apart.simps(1))

lemma descs_ok_bounds:
  assumes "descs_ok a res n infos m" and "m h = Some d"
  shows "allocated a h" and "descriptor_ok res n infos h d"
  using assms by (auto simp: descs_ok_def)

lemma apart_fresh:
  "descs_ok a res n infos m \<Longrightarrow> m h = Some d \<Longrightarrow>
     apart (Pending (length res)) d \<and> apart d (Pending (length res))
     \<and> apart (Active info c (length infos)) d \<and> apart d (Active info c (length infos))"
  by (drule (1) descs_ok_bounds(2)) (cases d; auto)

section \<open>Every handler keeps the invariant\<close>

lemma local_invI:
  assumes "descs_ok (alloc_value (lm_handle_allocator s)) (lm_results s) (length (lm_sids s))
       (map tt_info (lm_tasks s)) (lm_descriptors s)"
    and "map tt_state_rx (lm_tasks s) = [0..<length (lm_states s)]"
    and "\<And>f. f \<in> set (lm_forwards s) \<Longrightarrow> fw_result_rx f < length (lm_results s)"
    and "\<And>ev. ev \<in> set (lm_event_in s) \<Longrightarrow> event_ok (length (lm_sids s)) ev"
    and "length (lm_event_in s) \<le> EVENT_BUFFER_COUNT"
    and "\<And>t. t \<in> set (lm_tasks s) \<Longrightarrow> length (tt_frame_rx t) \<le> FRAME_BUFFER_COUNT"
  shows "local_inv s"
  using assms by (simp add: local_inv_def)

lemma local_inv_descs:
  "local_inv s \<Longrightarrow> descs_ok (alloc_value (lm_handle_allocator s)) (lm_results s) (length (lm_sids s))
     (map tt_info (lm_tasks s)) (lm_descriptors s)"
  by (simp add: local_inv_def)

lemma local_inv_lengths: "local_inv s \<Longrightarrow> length (lm_states s) = length (lm_tasks s)"
  by (auto simp: local_inv_def dest: arg_cong [where f = length])

lemma inv_send_out [simp]: "local_inv (send_out ev s) = local_inv s"
  by (simp add: local_inv_def send_out_def)

lemma inv_reply [simp]: "local_inv (reply user r s) = local_inv s"
  by (simp add: local_inv_def reply_def)

lemma inv_set_state [simp]: "local_inv (set_state c st s) = local_inv s"
  by (simp add: local_inv_def set_state_def)

lemma inv_drop_result [simp]: "local_inv (drop_result r s) = local_inv s"
  by (cases r) (simp_all add: local_unpublish_def)

lemma inv_remove: "local_inv s \<Longrightarrow> local_inv (s\<lparr>lm_descriptors := (lm_descriptors s)(h := None)\<rparr>)"
  by (simp add: local_inv_def descs_ok_remove)

lemma inv_result:
  assumes "local_inv s"
    and "v \<in> {Waiting, Receiver_Gone} \<or> (\<forall>h. lm_descriptors s h \<noteq> Some (Pending i))"
  shows "local_inv (s\<lparr>lm_results := (lm_results s)[i := v]\<rparr>)"
  using assms descs_ok_result [OF local_inv_descs [OF assms(1)] assms(2)]
  by (simp add: local_inv_def)

lemma inv_send_result:
  "local_inv s \<Longrightarrow> \<forall>h. lm_descriptors s h \<noteq> Some (Pending i) \<Longrightarrow> local_inv (send_result i r s)"
  by (simp add: send_result_def inv_result)

lemma inv_drop_sender:
  "local_inv s \<Longrightarrow> \<forall>h. lm_descriptors s h \<noteq> Some (Pending i) \<Longrightarrow> local_inv (drop_sender i s)"
  by (simp add: drop_sender_def inv_result)

lemma inv_only:
  "local_inv s \<Longrightarrow> lm_descriptors s h = Some (Pending i) \<Longrightarrow>
     \<forall>h'. lm_descriptors (s\<lparr>lm_descriptors := (lm_descriptors s)(h := None)\<rparr>) h' \<noteq> Some (Pending i)"
  using descs_ok_only [OF local_inv_descs] by auto

lemma inv_try_send_in:
  "local_inv s \<Longrightarrow> event_ok (length (lm_sids s)) ev \<Longrightarrow> try_send_in ev s = Some s' \<Longrightarrow> local_inv s'"
  by (auto simp: try_send_in_def local_inv_def split: if_splits)

lemma inv_enqueue: "local_inv s \<Longrightarrow> event_ok (length (lm_sids s)) ev \<Longrightarrow> local_inv (enqueue ev s)"
  by (auto simp: enqueue_def intro: inv_try_send_in split: option.split)

text \<open>Changes to a task that leave its information, its cell and the bound of its queue.\<close>

lemma inv_task:
  assumes "local_inv s" and "k < length (lm_tasks s)"
    and "tt_info t = tt_info (lm_tasks s ! k)" and "tt_state_rx t = tt_state_rx (lm_tasks s ! k)"
    and "length (tt_frame_rx t) \<le> FRAME_BUFFER_COUNT"
  shows "local_inv (s\<lparr>lm_tasks := (lm_tasks s)[k := t]\<rparr>)"
proof (rule local_invI)
  have same: "map f ((lm_tasks s)[k := t]) = map f (lm_tasks s)" if "f t = f (lm_tasks s ! k)" for f :: "track_task \<Rightarrow> 'x"
    using that assms(2) by (simp add: map_update) (metis list_update_id nth_map map_update)
  show "descs_ok (alloc_value (lm_handle_allocator (s\<lparr>lm_tasks := (lm_tasks s)[k := t]\<rparr>)))
     (lm_results (s\<lparr>lm_tasks := (lm_tasks s)[k := t]\<rparr>)) (length (lm_sids (s\<lparr>lm_tasks := (lm_tasks s)[k := t]\<rparr>)))
     (map tt_info (lm_tasks (s\<lparr>lm_tasks := (lm_tasks s)[k := t]\<rparr>)))
     (lm_descriptors (s\<lparr>lm_tasks := (lm_tasks s)[k := t]\<rparr>))"
    using local_inv_descs [OF assms(1)] same [OF assms(3)] by simp
  show "map tt_state_rx (lm_tasks (s\<lparr>lm_tasks := (lm_tasks s)[k := t]\<rparr>))
     = [0..<length (lm_states (s\<lparr>lm_tasks := (lm_tasks s)[k := t]\<rparr>))]"
    using assms(1) same [OF assms(4)] by (simp add: local_inv_def)
qed (use assms in \<open>auto simp: local_inv_def dest: set_update_subset_insert [THEN subsetD]\<close>)

lemma inv_publish_request: "local_inv s \<Longrightarrow> local_inv (on_publish_request options user s)"
proof -
  assume inv: "local_inv s"
  obtain r a where g: "allocator_get (lm_handle_allocator s) = (r, a)" by fastforce
  note descs = local_inv_descs [OF inv]
  show ?thesis
  proof (cases r)
    case None
    then have "a = lm_handle_allocator s" using g by (auto simp: allocator_get_cases split: if_splits)
    with inv g None show ?thesis by (simp add: on_publish_request_def)
  next
    case (Some h)
    note alloc = allocator_get_Some [OF g [unfolded Some]]
    have le: "unat (alloc_value (lm_handle_allocator s)) \<le> unat (alloc_value a)"
      using alloc by simp
    have grown: "descs_ok (alloc_value a) (lm_results s @ [Waiting]) (length (lm_sids s))
        (map tt_info (lm_tasks s)) (lm_descriptors s)"
      using descs_ok_grow [OF descs le order_refl, of "[Waiting]" "[]"] by simp
    have "descs_ok (alloc_value a) (lm_results s @ [Waiting]) (length (lm_sids s))
        (map tt_info (lm_tasks s)) ((lm_descriptors s)(h \<mapsto> Pending (length (lm_results s))))"
      by (rule descs_ok_insert [OF grown])
        (use alloc apart_fresh [OF descs] in \<open>auto simp: allocated_def\<close>)
    moreover have "local_inv (s\<lparr>lm_handle_allocator := a\<rparr>)"
      using inv descs_ok_grow [OF descs le order_refl, of "[]" "[]"] by (simp add: local_inv_def)
    ultimately show ?thesis
      using inv g Some
      by (auto simp: on_publish_request_def Let_def intro!: local_invI)
        (auto simp: local_inv_def less_Suc_eq)
  qed
qed

lemma inv_poll_forward:
  assumes "local_inv s" and "k < length (lm_forwards s)"
  shows "local_inv (poll_forward k gone s)"
proof -
  let ?f = "lm_forwards s ! k"
  have done_ok: "local_inv (s'\<lparr>lm_forwards := (lm_forwards s')[k := ?f\<lparr>fw_done := True\<rparr>]\<rparr>)"
    if inv: "local_inv s'" and len: "length (lm_results s') = length (lm_results s)" for s'
  proof -
    have "fw_result_rx ?f < length (lm_results s)"
      using assms by (auto simp: local_inv_def)
    then have "\<forall>f \<in> set ((lm_forwards s')[k := ?f\<lparr>fw_done := True\<rparr>]). fw_result_rx f < length (lm_results s')"
      using inv len by (auto simp: local_inv_def dest!: set_update_subset_insert [THEN subsetD])
    with inv show ?thesis by (simp add: local_inv_def)
  qed
  have res: "length (lm_results (drop_result r s)) = length (lm_results s)"
    "length (lm_results (reply u r s)) = length (lm_results s)" for r u
    by (cases r; simp add: local_unpublish_def set_state_def reply_def)+
  have gone: "local_inv (s\<lparr>lm_results := (lm_results s)[j := Receiver_Gone]\<rparr>)" for j
    using inv_result [OF assms(1), of Receiver_Gone j] by simp
  have cancel: "local_inv (case try_send_in (PublishCancelled h) s' of Some s'' \<Rightarrow> s'' | None \<Rightarrow> s')"
    if "local_inv s'" for s' h
    using inv_enqueue [OF that, of "PublishCancelled h"] by (simp add: enqueue_def event_ok_def option.case_eq_if)
  have drop: "local_inv ((drop_result r s)\<lparr>lm_forwards := (lm_forwards (drop_result r s))[k := ?f\<lparr>fw_done := True\<rparr>]\<rparr>)"
    and rep: "local_inv ((reply u r s)\<lparr>lm_forwards := (lm_forwards (reply u r s))[k := ?f\<lparr>fw_done := True\<rparr>]\<rparr>)"
    for u r
    by (rule done_ok; simp add: res assms(1))+
  note gone' = done_ok [OF gone, simplified]
  note same = done_ok [OF assms(1) refl]
  show ?thesis
  proof (cases "fw_done ?f")
    case False
    then show ?thesis
    proof (cases "lm_results s ! fw_result_rx ?f")
      case (Filled r)
      with False drop rep show ?thesis by (simp add: poll_forward_def Let_def)
    next
      case Waiting
      with False cancel [OF gone'] assms(1) show ?thesis by (simp add: poll_forward_def Let_def)
    next
      case Receiver_Gone
      with False cancel [OF same] assms(1) show ?thesis by (simp add: poll_forward_def Let_def)
    next
      case Sender_Gone
      with False cancel [OF same] assms(1) show ?thesis by (simp add: poll_forward_def Let_def)
    qed
  qed (simp add: poll_forward_def assms(1))
qed

lemma inv_publish_cancelled: "local_inv s \<Longrightarrow> local_inv (on_publish_cancelled h s)"
proof (cases "lm_descriptors s h")
  case (Some d)
  assume inv: "local_inv s"
  show ?thesis
  proof (cases d)
    case (Pending i)
    with Some inv_drop_sender [OF inv_remove [OF inv] inv_only [OF inv]] show ?thesis
      by (simp add: on_publish_cancelled_def)
  next
    case (Active info c t)
    with Some inv_remove [OF inv] show ?thesis by (simp add: on_publish_cancelled_def)
  qed
qed (simp add: on_publish_cancelled_def)

lemma inv_query: "local_inv s \<Longrightarrow> local_inv (on_query_published user ks s)"
  by (simp add: on_query_published_def local_inv_def)

lemma inv_remove_descriptor: "local_inv s \<Longrightarrow> local_inv (remove_descriptor h s)"
proof (cases "lm_descriptors s h")
  case (Some d)
  assume inv: "local_inv s"
  show ?thesis
  proof (cases d)
    case (Pending i)
    with Some inv_drop_sender [OF inv_remove [OF inv] inv_only [OF inv]] show ?thesis
      by (simp add: remove_descriptor_def Let_def)
  next
    case (Active info c t)
    with Some inv_remove [OF inv] show ?thesis by (simp add: remove_descriptor_def Let_def)
  qed
qed (simp add: remove_descriptor_def)

lemma create_local_track_frame:
  "create_local_track info now rnd s = (t, s') \<Longrightarrow>
     lm_results s' = lm_results s \<and> lm_sids s' = lm_sids s \<and> lm_event_in s' = lm_event_in s
     \<and> lm_handle_allocator s' = lm_handle_allocator s
     \<and> lm_descriptors s' = (lm_descriptors s)(ti_pub_handle info \<mapsto> Active info (lt_state_tx t) (lt_frame_tx t))
     \<and> lt_info t = info \<and> lt_state_tx t = length (lm_states s) \<and> lt_frame_tx t = length (lm_tasks s)
     \<and> lm_states s' = lm_states s @ [Published] \<and> lm_event_out s' = lm_event_out s
     \<and> lm_replies s' = lm_replies s"
  by (auto simp: create_local_track_def Let_def)

lemma inv_create:
  assumes inv: "local_inv s" and "allocated (alloc_value (lm_handle_allocator s)) (ti_pub_handle info)"
    and "ti_sid info < length (lm_sids s)"
  shows "local_inv (snd (create_local_track info now rnd s))"
proof -
  note descs = local_inv_descs [OF inv]
  have len: "length (lm_states s) = length (lm_tasks s)" by (rule local_inv_lengths [OF inv])
  have grown: "descs_ok (alloc_value (lm_handle_allocator s)) (lm_results s) (length (lm_sids s))
      (map tt_info (lm_tasks s) @ [info]) (lm_descriptors s)"
    using descs_ok_grow [OF descs order_refl order_refl, of "[]" "[info]"] by simp
  have "descs_ok (alloc_value (lm_handle_allocator s)) (lm_results s) (length (lm_sids s))
      (map tt_info (lm_tasks s) @ [info])
      ((lm_descriptors s)(ti_pub_handle info \<mapsto> Active info (length (lm_tasks s)) (length (lm_tasks s))))"
    by (rule descs_ok_insert [OF grown])
      (use assms(2,3) apart_fresh [OF descs] in \<open>auto simp: nth_append\<close>)
  then show ?thesis
    using inv len by (auto simp: create_local_track_def Let_def local_inv_def)
qed

lemma inv_sfu_publish_response:
  assumes inv: "local_inv s" and ev: "event_ok (length (lm_sids s)) (SfuPublishResponse h result)"
  shows "local_inv (on_sfu_publish_response h result now rnd s)"
proof (cases "lm_descriptors s h")
  case None
  with inv show ?thesis by (simp add: on_sfu_publish_response_def)
next
  case (Some d)
  let ?s = "s\<lparr>lm_descriptors := (lm_descriptors s)(h := None)\<rparr>"
  have inv': "local_inv ?s" by (rule inv_remove [OF inv])
  have alloc: "allocated (alloc_value (lm_handle_allocator s)) h"
    and d_ok: "descriptor_ok (lm_results s) (length (lm_sids s)) (map tt_info (lm_tasks s)) h d"
    using descs_ok_bounds [OF local_inv_descs [OF inv] Some] .
  show ?thesis
  proof (cases d)
    case (Pending i)
    note only = inv_only [OF inv Some [unfolded Pending]]
    show ?thesis
    proof (cases result)
      case (Inl e)
      with Some Pending inv' inv_send_result [OF inv' only] show ?thesis
        by (simp add: on_sfu_publish_response_def Let_def)
    next
      case (Inr info)
      with ev have info: "ti_pub_handle info = h" "ti_sid info < length (lm_sids s)"
        by (simp_all add: event_ok_def)
      obtain t s' where c: "create_local_track info now rnd ?s = (t, s')" by fastforce
      have "local_inv s'" using inv_create [OF inv', of info now rnd] alloc info c by simp
      moreover have "\<forall>h'. lm_descriptors s' h' \<noteq> Some (Pending i)"
        using create_local_track_frame [OF c] only by auto
      ultimately have "local_inv (send_result i (Inr t) s')" by (rule inv_send_result)
      with Some Pending Inr c inv' show ?thesis
        by (simp add: on_sfu_publish_response_def Let_def)
    qed
  next
    case (Active info c t)
    have "local_inv (set_state c Published (s\<lparr>lm_sids := (lm_sids s)[ti_sid info := x]\<rparr>))" for x
    proof -
      have "local_inv (s\<lparr>lm_sids := (lm_sids s)[ti_sid info := x]\<rparr>)"
        using inv by (simp add: local_inv_def)
      then show ?thesis by simp
    qed
    moreover have "(set_state c Published (?s\<lparr>lm_sids := (lm_sids s)[ti_sid info := x]\<rparr>))
        \<lparr>lm_descriptors := (lm_descriptors s)(h \<mapsto> d)\<rparr>
        = set_state c Published (s\<lparr>lm_sids := (lm_sids s)[ti_sid info := x]\<rparr>)" for x
      using Some by (simp add: set_state_def fun_upd_idem)
    ultimately show ?thesis
      using Some Active inv'
      by (auto simp: on_sfu_publish_response_def Let_def set_state_def split: sum.split)
  qed
qed

text \<open>
  The republish loop: what is still to do, put back into the map, gives the invariant at every
  turn.
\<close>

lemma send_result_frame [simp]:
  "lm_descriptors (send_result i r s) = lm_descriptors s"
  "lm_handle_allocator (send_result i r s) = lm_handle_allocator s"
  "lm_sids (send_result i r s) = lm_sids s"
  "lm_tasks (send_result i r s) = lm_tasks s"
  "lm_event_in (send_result i r s) = lm_event_in s"
  "lm_event_out (send_result i r s) = lm_event_out s"
  by (cases r; simp add: send_result_def local_unpublish_def set_state_def)+

lemma set_state_frame [simp]:
  "lm_descriptors (set_state c st s) = lm_descriptors s"
  "lm_results (set_state c st s) = lm_results s"
  "lm_tasks (set_state c st s) = lm_tasks s"
  "lm_event_in (set_state c st s) = lm_event_in s"
  "lm_event_out (set_state c st s) = lm_event_out s"
  "lm_sids (set_state c st s) = lm_sids s"
  "lm_states (set_state c st s) = (if has_receiver c s then (lm_states s)[c := st] else lm_states s)"
  by (simp_all add: set_state_def)

lemma send_out_frame [simp]:
  "lm_descriptors (send_out ev s) = lm_descriptors s"
  "lm_results (send_out ev s) = lm_results s"
  "lm_tasks (send_out ev s) = lm_tasks s"
  "lm_states (send_out ev s) = lm_states s"
  "lm_event_in (send_out ev s) = lm_event_in s"
  "lm_event_out (send_out ev s) = lm_event_out s @ [ev]"
  "lm_sids (send_out ev s) = lm_sids s"
  by (simp_all add: send_out_def)

definition inv_at :: "(handle \<rightharpoonup> descriptor) \<Rightarrow> local_manager \<Rightarrow> bool" where
  "inv_at m s \<longleftrightarrow> local_inv (s\<lparr>lm_descriptors := m\<rparr>)"

lemma inv_at_send_result:
  "inv_at m s \<Longrightarrow> \<forall>h. m h \<noteq> Some (Pending i) \<Longrightarrow> inv_at m (send_result i r s)"
  by (cases r; cases "lm_results s ! i = Receiver_Gone")
    (auto simp: inv_at_def local_inv_def send_result_def local_unpublish_def set_state_def
      intro: descs_ok_result)

lemma inv_at_simps [simp]:
  "inv_at m (set_state c st s) = inv_at m s"
  "inv_at m (send_out ev s) = inv_at m s"
  "inv_at m (s\<lparr>lm_descriptors := m'\<rparr>) = inv_at m s"
  by (simp_all add: inv_at_def local_inv_def set_state_def send_out_def)

lemma inv_at_remove: "inv_at m s \<Longrightarrow> inv_at (m(h := None)) s"
  unfolding inv_at_def using inv_remove [of "s\<lparr>lm_descriptors := m\<rparr>" h] by simp

lemma inv_at_only: "inv_at m s \<Longrightarrow> m h = Some (Pending i) \<Longrightarrow> (m(h := None)) h' \<noteq> Some (Pending i)"
  unfolding inv_at_def using inv_only [of "s\<lparr>lm_descriptors := m\<rparr>" h i] by simp

lemma inv_republish_loop:
  "inv_at (lm_descriptors s ++ map_of ds) s \<Longrightarrow> distinct (map fst ds) \<Longrightarrow>
     dom (lm_descriptors s) \<inter> fst ` set ds = {} \<Longrightarrow> local_inv (republish_loop ds s)"
proof (induction ds arbitrary: s)
  case Nil
  then show ?case by (simp add: inv_at_def)
next
  case (Cons x ds)
  obtain h d where x: "x = (h, d)" by fastforce
  let ?m = "lm_descriptors s ++ map_of (x # ds)"
  have h: "?m h = Some d" "lm_descriptors s h = None" "h \<notin> fst ` set ds"
    using Cons.prems(2,3) by (auto simp: x)
  show ?case
  proof (cases d)
    case (Pending i)
    have eq: "?m(h := None) = lm_descriptors s ++ map_of ds"
      using h(2,3) by (auto simp: x map_add_def map_of_eq_None_iff fun_eq_iff split: option.splits)
    have "inv_at (lm_descriptors s ++ map_of ds) (send_result i (Inl Publish_Disconnected) s)"
    proof (rule inv_at_send_result)
      show "inv_at (lm_descriptors s ++ map_of ds) s"
        using inv_at_remove [OF Cons.prems(1), of h] by (simp only: eq)
      show "\<forall>h'. (lm_descriptors s ++ map_of ds) h' \<noteq> Some (Pending i)"
        using inv_at_only [OF Cons.prems(1) h(1) [unfolded Pending]] by (simp only: eq) simp
    qed
    then have "local_inv (republish_loop ds (send_result i (Inl Publish_Disconnected) s))"
      by (intro Cons.IH) (use Cons.prems(2,3) in auto)
    then show ?thesis by (simp add: x Pending)
  next
    case (Active info c t)
    let ?s = "send_out (SfuPublishRequest (ti_pub_handle info) (ti_name info) (ti_uses_e2ee info))
        (set_state c Republishing s)"
    let ?s' = "?s\<lparr>lm_descriptors := (lm_descriptors s)(h \<mapsto> d)\<rparr>"
    have "map_of ds h = None" using h(3) by (simp add: map_of_eq_None_iff)
    then have eq: "(lm_descriptors s)(h \<mapsto> d) ++ map_of ds = ?m"
      by (auto simp: x map_add_def fun_eq_iff split: option.splits)
    have "local_inv (republish_loop ds ?s')"
    proof (rule Cons.IH)
      show "inv_at (lm_descriptors ?s' ++ map_of ds) ?s'"
        using Cons.prems(1) by (simp del: map_of.simps fun_upd_apply add: eq)
      show "dom (lm_descriptors ?s') \<inter> fst ` set ds = {}"
        using Cons.prems(3) h(3) by (simp add: x)
    qed (use Cons.prems(2) in simp)
    then show ?thesis by (simp add: x Active Let_def)
  qed
qed

lemma entries_in_order_eq:
  "iteration_order m ks \<Longrightarrow> entries_in_order ks m = map (\<lambda>h. (h, the (m h))) ks"
proof -
  assume "iteration_order m ks"
  then have "\<forall>h \<in> set ks. m h \<noteq> None" by (auto simp: iteration_orderD)
  then show ?thesis
    by (induction ks) (auto simp: entries_in_order_def map_filter_simps)
qed

lemma entries_in_order_props:
  assumes "iteration_order m ks"
  shows "map_of (entries_in_order ks m) = m" and "distinct (map fst (entries_in_order ks m))"
proof -
  have eq: "entries_in_order ks m = map (\<lambda>h. (h, the (m h))) ks"
    by (rule entries_in_order_eq [OF assms])
  show "distinct (map fst (entries_in_order ks m))"
    using iteration_order_distinct [OF assms] by (simp add: eq comp_def)
  show "map_of (entries_in_order ks m) = m"
  proof
    fix h
    show "map_of (entries_in_order ks m) h = m h"
      using iteration_orderD [OF assms, of h]
      by (cases "h \<in> set ks") (auto simp: eq map_of_map_restrict restrict_map_def)
  qed
qed

lemma inv_republish:
  assumes "local_inv s" and "iteration_order (lm_descriptors s) ks"
  shows "local_inv (on_republish_tracks ks s)"
proof -
  have "inv_at (lm_descriptors s) s" using assms(1) by (simp add: inv_at_def)
  then show ?thesis
    unfolding on_republish_tracks_def
    by (intro inv_republish_loop) (simp_all add: entries_in_order_props [OF assms(2)])
qed

lemma inv_receive:
  assumes "local_inv s" and "iteration_order (lm_descriptors s) ks"
  shows "local_inv (receive (ks, now, rnd) s)"
proof (cases "lm_event_in s")
  case (Cons ev rest)
  have inv: "local_inv (s\<lparr>lm_event_in := rest\<rparr>)" and ev: "event_ok (length (lm_sids s)) ev"
    using assms(1) Cons by (auto simp: local_inv_def)
  have "local_inv (handle_input ev (ks, now, rnd) (s\<lparr>lm_event_in := rest\<rparr>))"
    using inv ev assms(2)
    by (cases ev) (simp_all add: inv_publish_request inv_publish_cancelled inv_query
        inv_remove_descriptor on_unpublish_request_def on_sfu_unpublish_response_def
        inv_sfu_publish_response inv_republish)
  with Cons show ?thesis by (simp add: receive_def)
qed (use assms in \<open>simp add: receive_def\<close>)

lemma inv_process_and_send:
  assumes "local_inv s" and "k < length (lm_tasks s)"
  shows "local_inv (process_and_send k frame now room s)"
proof -
  let ?t = "lm_tasks s ! k"
  have "length (tt_frame_rx ?t) \<le> FRAME_BUFFER_COUNT" using assms by (auto simp: local_inv_def)
  then have "local_inv (s\<lparr>lm_tasks := (lm_tasks s)[k := ?t\<lparr>tt_pipeline := pl, tt_done := b\<rparr>]\<rparr>)"
    and "local_inv (s\<lparr>lm_tasks := (lm_tasks s)[k := ?t\<lparr>tt_pipeline := pl\<rparr>]\<rparr>)" for pl b
    using assms by (auto intro!: inv_task)
  then show ?thesis
    by (auto simp: process_and_send_def Let_def split: rust.split prod.split)
qed

lemma inv_poll_task:
  assumes "local_inv s" and "k < length (lm_tasks s)"
  shows "local_inv (poll_task k branch s)"
proof -
  let ?t = "lm_tasks s ! k"
  have fr: "length (tt_frame_rx ?t) \<le> FRAME_BUFFER_COUNT" using assms by (auto simp: local_inv_def)
  have sent: "local_inv (s'\<lparr>lm_tasks := (lm_tasks s')[k := ?t\<lparr>tt_done := True\<rparr>]\<rparr>)"
    if "try_send_in (UnpublishRequest h) s = Some s'" for s' h
    using that inv_try_send_in [OF assms(1) _ that] assms(2) fr
    by (intro inv_task) (auto simp: event_ok_def try_send_in_def split: if_splits)
  have pop: "local_inv (s\<lparr>lm_tasks := (lm_tasks s)[k := ?t\<lparr>tt_frame_rx := rest\<rparr>]\<rparr>)"
    if "tt_frame_rx ?t = frame # rest" for frame rest
    using that assms fr by (intro inv_task) auto
  have seen: "local_inv (s\<lparr>lm_tasks := (lm_tasks s)[k := ?t\<lparr>tt_state := st\<rparr>]\<rparr>)" for st
    using assms fr by (intro inv_task) auto
  show ?thesis
    using assms sent pop seen
    by (auto simp: poll_task_def Let_def intro!: inv_process_and_send
        split: option.split task_branch.split list.split)
qed

lemma inv_try_push:
  assumes "local_inv s" and "track_ok s t"
  shows "local_inv (snd (try_push t frame s))"
  using assms
  by (auto simp: try_push_def track_ok_def Let_def intro!: inv_task split: publish_state.split)

interpretation lm: guarded_machine local_step step_ok local_inv
proof
  fix s e assume inv: "local_inv s" and ok: "step_ok s e"
  have proto: "local_inv (case publish_response_try_from msg (lm_sids s) of
        (Ok ev, \<sigma>) \<Rightarrow> enqueue ev (s\<lparr>lm_sids := \<sigma>\<rparr>) | (_, \<sigma>) \<Rightarrow> s\<lparr>lm_sids := \<sigma>\<rparr>)" for msg
  proof -
    have grow: "local_inv (s\<lparr>lm_sids := lm_sids s @ \<tau>\<rparr>)" for \<tau>
      using inv descs_ok_grow [OF local_inv_descs [OF inv] order_refl, of _ "[]" "[]"]
      by (auto simp: local_inv_def event_ok_def)
    show ?thesis
    proof (cases "psm_info msg")
      case None
      with inv show ?thesis by (simp add: publish_response_try_from_def throw_def)
    next
      case (Some m)
      obtain r \<sigma> where c: "track_info_try_from m (lm_sids s) = (r, \<sigma>)" by fastforce
      obtain \<tau> where \<tau>: "\<sigma> = lm_sids s @ \<tau>" using track_info_try_from_store [of m "lm_sids s"] c by auto
      show ?thesis
        using grow [of \<tau>] c Some \<tau> track_info_try_from_Ok [of m "lm_sids s"]
        by (cases r)
          (auto simp: publish_response_try_from_def sbind_def ret_def event_ok_def info_wf_def
            info_ok_def intro!: inv_enqueue)
    qed
  qed
  have sid: "unpublish_response_try_from msg = Ok ev \<Longrightarrow> \<exists>h. ev = SfuUnpublishResponse h" for msg ev
    by (auto simp: unpublish_response_try_from_def map_ok_eq_Ok split: option.splits)
  have err: "publish_result_from_request_response msg = Some ev \<Longrightarrow> \<exists>h e. ev = SfuPublishResponse h (Inl e)"
    for msg ev
    by (auto simp: publish_result_from_request_response_def Let_def
        split: option.splits request.splits rust.splits)
  show "local_inv (local_step s e)"
  proof (cases e)
    case (User_Publish options user)
    with inv show ?thesis
      by (auto simp: event_ok_def intro: inv_try_send_in split: option.split)
  next
    case (Signal_Publish_Response msg)
    with proto show ?thesis by simp
  next
    case (Signal_Request_Response msg)
    with inv show ?thesis by (auto simp: event_ok_def intro!: inv_enqueue dest: err split: option.split)
  next
    case (Signal_Unpublish_Response msg)
    with inv show ?thesis by (auto simp: event_ok_def intro!: inv_enqueue dest: sid split: rust.split)
  next
    case (Receive env)
    with inv ok show ?thesis by (cases env) (auto intro: inv_receive)
  qed (use inv ok in \<open>auto simp: event_ok_def local_unpublish_def
        intro: inv_enqueue inv_poll_forward inv_poll_task inv_try_push\<close>)
qed

section \<open>What the manager guarantees\<close>

text \<open>
  C28. Publishing never collides. In every state the manager can reach, a publish request is
  refused only when all 65535 handles have been given out; otherwise it takes a new handle that
  no publication holds, remembers the publication as pending on a new channel, and asks the SFU
  for the track, encrypted exactly when a provider is configured. The internal error for a
  handle in use cannot occur.
\<close>

theorem publish_request_outcome:
  assumes "run_ok local_step step_ok (local_manager_new provider) es"
  defines "s \<equiv> foldl local_step (local_manager_new provider) es"
  shows "case allocator_get (lm_handle_allocator s) of
      (None, a) \<Rightarrow> on_publish_request options user s = reply user (Inl LimitReached) s
    | (Some h, a) \<Rightarrow> lm_descriptors s h = None
        \<and> lm_descriptors (on_publish_request options user s) =
            (lm_descriptors s)(h \<mapsto> Pending (length (lm_results s)))
        \<and> lm_results (on_publish_request options user s) = lm_results s @ [Waiting]
        \<and> lm_replies (on_publish_request options user s) = lm_replies s
        \<and> lm_event_out (on_publish_request options user s) =
            lm_event_out s @ [SfuPublishRequest h (opt_name options) (lm_encryption_provider s \<noteq> None)]"
proof -
  have inv: "local_inv s"
    unfolding s_def by (rule lm.grun_inv [OF local_inv_new assms(1)])
  obtain r a where g: "allocator_get (lm_handle_allocator s) = (r, a)" by fastforce
  show ?thesis
  proof (cases r)
    case None
    then have "a = lm_handle_allocator s" using g by (auto simp: allocator_get_cases split: if_splits)
    with g None show ?thesis by (simp add: on_publish_request_def)
  next
    case (Some h)
    have "\<not> allocated (alloc_value (lm_handle_allocator s)) h"
      using allocator_get_Some(1) [OF g [unfolded Some]] by (simp add: allocated_def)
    then have "lm_descriptors s h = None"
      using descs_ok_bounds(1) [OF local_inv_descs [OF inv]] by (cases "lm_descriptors s h") auto
    with g Some show ?thesis
      by (simp add: on_publish_request_def reply_def send_out_def Let_def)
  qed
qed

text \<open>
  A response that is not the confirmation of a republish makes the manager forget an active
  track. It takes the descriptor out of its map first and puts it back only when the track was
  being republished and the SFU agreed; on a duplicate confirmation and on a failed republish
  nothing else happens, so the track is missing from queries and from the next republish while
  its holder still sees it as published.
\<close>

lemma response_forgets_active_track:
  assumes "lm_descriptors s h = Some (Active info c t)"
    and "lm_states s ! c \<noteq> Republishing \<or> (\<exists>e. result = Inl e)"
    and "lm_states s ! c \<noteq> Unpublished" and "lt_state_tx track = c"
  shows "on_sfu_publish_response h result now rnd s
       = s\<lparr>lm_descriptors := (lm_descriptors s)(h := None)\<rparr>
    \<and> is_published track (on_sfu_publish_response h result now rnd s)"
  using assms
  by (auto simp: on_sfu_publish_response_def is_published_def Let_def split: sum.split)

text \<open>
  A publication that the user gave up is left on the SFU. When the user's receiver is gone
  but the manager has not yet seen the cancellation, a successful response removes the pending
  descriptor and nothing is sent; had the cancellation come first, the same response would have
  been answered with an unpublish request.
\<close>

lemma cancelled_publication_stays:
  assumes "lm_descriptors s h = Some (Pending i)" and "lm_results s ! i = Receiver_Gone"
  shows "on_sfu_publish_response h (Inr info) now rnd s
       = s\<lparr>lm_descriptors := (lm_descriptors s)(h := None)\<rparr>
    \<and> lm_event_out (on_sfu_publish_response h (Inr info) now rnd (on_publish_cancelled h s))
       = lm_event_out s @ [SfuUnpublishRequest h]"
  using assms
  by (simp add: on_sfu_publish_response_def on_publish_cancelled_def drop_sender_def send_out_def Let_def)

text \<open>The effect of a republish on one track and on the events sent.\<close>

fun republish_event :: "handle \<times> descriptor \<Rightarrow> local_output option" where
  "republish_event (h, Pending i) = None"
| "republish_event (h, Active info c t) =
     Some (SfuPublishRequest (ti_pub_handle info) (ti_name info) (ti_uses_e2ee info))"

lemma republish_loop_effect:
  "\<lbrakk>distinct (map fst ds); fst ` set ds \<inter> dom (lm_descriptors s) = {};
    \<forall>(h, d) \<in> set ds. \<forall>info c t. d = Active info c t \<longrightarrow> c < length (lm_states s)\<rbrakk> \<Longrightarrow>
   lm_event_out (republish_loop ds s) = lm_event_out s @ List.map_filter republish_event ds
   \<and> (\<forall>c. has_receiver c s \<and> (\<exists>h info t. (h, Active info c t) \<in> set ds) \<or> lm_states s ! c = Republishing \<longrightarrow>
        c < length (lm_states s) \<longrightarrow> lm_states (republish_loop ds s) ! c = Republishing)
   \<and> lm_descriptors (republish_loop ds s) =
        (\<lambda>h. case map_of ds h of Some (Active info c t) \<Rightarrow> Some (Active info c t) | _ \<Rightarrow> lm_descriptors s h)"
proof (induction ds arbitrary: s)
  case Nil
  then show ?case by (simp add: map_filter_simps)
next
  case (Cons x ds)
  obtain h d where x: "x = (h, d)" by fastforce
  show ?case
  proof (cases d)
    case (Pending i)
    let ?s = "send_result i (Inl Publish_Disconnected) s"
    have st: "lm_states ?s = lm_states s" "has_receiver c ?s = has_receiver c s" for c
      by (simp_all add: send_result_def)
    have "map_of ds h = None" "lm_descriptors s h = None"
      using Cons.prems(1,2) by (auto simp: x map_of_eq_None_iff)
    with Cons.IH [of ?s] Cons.prems st show ?thesis
      by (auto simp: x Pending map_filter_simps fun_eq_iff split: option.split descriptor.split)
  next
    case (Active info c t)
    let ?s = "(send_out (SfuPublishRequest (ti_pub_handle info) (ti_name info) (ti_uses_e2ee info))
        (set_state c Republishing s))\<lparr>lm_descriptors := (lm_descriptors s)(h \<mapsto> d)\<rparr>"
    have ih: "lm_event_out (republish_loop ds ?s) = lm_event_out ?s @ List.map_filter republish_event ds
      \<and> (\<forall>c. has_receiver c ?s \<and> (\<exists>h info t. (h, Active info c t) \<in> set ds) \<or> lm_states ?s ! c = Republishing \<longrightarrow>
          c < length (lm_states ?s) \<longrightarrow> lm_states (republish_loop ds ?s) ! c = Republishing)
      \<and> lm_descriptors (republish_loop ds ?s) =
          (\<lambda>h. case map_of ds h of Some (Active info c t) \<Rightarrow> Some (Active info c t) | _ \<Rightarrow> lm_descriptors ?s h)"
    proof (rule Cons.IH)
      show "fst ` set ds \<inter> dom (lm_descriptors ?s) = {}"
        using Cons.prems(1,2) by (simp add: x)
    qed (use Cons.prems in \<open>simp_all add: x\<close>)
    have recv: "has_receiver c' ?s = has_receiver c' s" for c' by (simp add: send_out_def set_state_def)
    have "map_of ds h = None"
      using Cons.prems(1) by (auto simp: x map_of_eq_None_iff)
    moreover have "republish_loop (x # ds) s = republish_loop ds ?s" by (simp add: x Active Let_def)
    moreover have "lm_states (republish_loop ds ?s) ! c' = Republishing"
      if c': "has_receiver c' s \<and> (\<exists>h info t. (h, Active info c' t) \<in> set (x # ds)) \<or> lm_states s ! c' = Republishing"
        "c' < length (lm_states s)" for c'
    proof (cases "c' = c \<or> lm_states s ! c' = Republishing")
      case True
      then have "lm_states ?s ! c' = Republishing" using c' by (cases "c' = c") auto
      with ih c'(2) show ?thesis by simp
    next
      case False
      then have "has_receiver c' s \<and> (\<exists>h info t. (h, Active info c' t) \<in> set ds)" using c'(1) by (auto simp: x Active)
      with ih c'(2) recv show ?thesis by simp
    qed
    ultimately show ?thesis using ih
      by (simp add: x Active map_filter_simps fun_eq_iff split: option.split descriptor.split)
  qed
qed

lemma local_inv_active:
  "local_inv s \<Longrightarrow> lm_descriptors s h = Some (Active info c t) \<Longrightarrow>
     ti_pub_handle info = h \<and> c = t \<and> t < length (lm_tasks s) \<and> c < length (lm_states s)
     \<and> tt_info (lm_tasks s ! t) = info"
  using descs_ok_bounds(2) [OF local_inv_descs, of s h] local_inv_lengths [of s] by fastforce

text \<open>
  After a full reconnect every active track is asked for again and no other. In any state
  the manager can reach, republishing keeps exactly the active descriptors, sends one publish
  request for each, with its own handle, name and encryption flag, in the order of the map, and
  leaves each of their states at Republishing where the task still runs; pending publications are gone. That includes a
  track that its holder had just unpublished: the state is overwritten, so the unpublish is
  lost unless the track's task had already seen it.
\<close>

lemma republish_requests_active_tracks:
  assumes "run_ok local_step step_ok (local_manager_new provider) es"
    and "iteration_order (lm_descriptors (foldl local_step (local_manager_new provider) es)) ks"
  shows "let s = foldl local_step (local_manager_new provider) es; s' = on_republish_tracks ks s in
      lm_event_out s' = lm_event_out s @
        List.map_filter (\<lambda>h. case lm_descriptors s h of
            Some (Active info c t) \<Rightarrow> Some (SfuPublishRequest h (ti_name info) (ti_uses_e2ee info))
          | _ \<Rightarrow> None) ks
      \<and> (\<forall>h. lm_descriptors s' h = (case lm_descriptors s h of
            Some (Active info c t) \<Rightarrow> Some (Active info c t) | _ \<Rightarrow> None))
      \<and> (\<forall>h info c t. lm_descriptors s h = Some (Active info c t) \<and> \<not> tt_done (lm_tasks s ! t)
            \<longrightarrow> lm_states s' ! c = Republishing)"
proof -
  define s where "s = foldl local_step (local_manager_new provider) es"
  let ?ds = "entries_in_order ks (lm_descriptors s)"
  let ?s' = "on_republish_tracks ks s"
  have order: "iteration_order (lm_descriptors s) ks" using assms(2) by (simp only: s_def)
  have inv: "local_inv s" unfolding s_def by (rule lm.grun_inv [OF local_inv_new assms(1)])
  note act = local_inv_active [OF inv]
  note props = entries_in_order_props [OF order]
  have mem: "(h, d) \<in> set ?ds \<longleftrightarrow> lm_descriptors s h = Some d" for h d
    using map_of_iff_set [OF props(2)] props(1) by metis
  have "\<forall>(h, d) \<in> set ?ds. \<forall>info c t. d = Active info c t \<longrightarrow>
      c < length (lm_states (s\<lparr>lm_descriptors := Map.empty\<rparr>))"
    using act by (auto simp: mem)
  note eff = republish_loop_effect [OF props(2) _ this, folded on_republish_tracks_def]
  have evs: "List.map_filter republish_event (entries_in_order ks m) = List.map_filter (\<lambda>h. case m h of
            Some (Active info c t) \<Rightarrow> Some (SfuPublishRequest h (ti_name info) (ti_uses_e2ee info))
          | _ \<Rightarrow> None) ks"
    if "\<forall>h info c t. m h = Some (Active info c t) \<longrightarrow> ti_pub_handle info = h" for m
    using that
    by (induction ks) (auto simp: entries_in_order_def map_filter_simps split: option.split descriptor.split)
  have "lm_event_out ?s' = lm_event_out s @ List.map_filter republish_event ?ds"
    using eff by simp
  moreover have "\<forall>h info c t. lm_descriptors s h = Some (Active info c t) \<longrightarrow> ti_pub_handle info = h"
    using act by blast
  note evs [OF this]
  moreover have "lm_descriptors ?s' h = (case lm_descriptors s h of
            Some (Active info c t) \<Rightarrow> Some (Active info c t) | _ \<Rightarrow> None)" for h
    using eff by (simp add: props(1) split: option.split descriptor.split)
  moreover have "lm_states ?s' ! c = Republishing"
    if "lm_descriptors s h = Some (Active info c t)" "\<not> tt_done (lm_tasks s ! t)" for h info c t
  proof -
    have "(h, Active info c t) \<in> set ?ds" using that by (simp add: mem)
    moreover have c: "c < length (lm_states s)" "c = t" "t < length (lm_tasks s)" using act [OF that(1)] by simp_all
    moreover have "tt_state_rx (lm_tasks s ! t) = map tt_state_rx (lm_tasks s) ! t" using c(3) by simp
    then have "tt_state_rx (lm_tasks s ! t) = [0..<length (lm_states s)] ! t"
      using inv by (simp only: local_inv_def)
    then have "tt_state_rx (lm_tasks s ! t) = t" using c by simp
    then have "has_receiver c s" using c that(2) by (auto simp: has_receiver_def list_ex_length)
    ultimately show ?thesis using eff by simp blast
  qed
  ultimately show ?thesis unfolding s_def [symmetric] Let_def by (simp, blast)
qed

section \<open>Shutdown\<close>

text \<open>
  A task that ends normally has put its unpublish request into the queue; one that has panicked
  has ended in another state.
\<close>

definition panicked :: "track_task \<Rightarrow> bool" where
  "panicked task \<longleftrightarrow> tt_done task \<and> tt_state task \<noteq> Unpublished"

definition requested :: "track_task \<Rightarrow> bool" where
  "requested task \<longleftrightarrow> tt_done task \<and> tt_state task = Unpublished"

lemma process_and_send_task:
  assumes "\<not> requested (lm_tasks s ! k)" and "tt_state (lm_tasks s ! k) \<noteq> Unpublished"
  shows "lm_event_in (process_and_send k frame now room s) = lm_event_in s"
    and "length (lm_tasks (process_and_send k frame now room s)) = length (lm_tasks s)"
    and "t \<noteq> k \<Longrightarrow> lm_tasks (process_and_send k frame now room s) ! t = lm_tasks s ! t"
    and "\<not> requested (lm_tasks (process_and_send k frame now room s) ! k)"
proof -
  obtain r pl where p: "process_frame frame now (tt_pipeline (lm_tasks s ! k)) = (r, pl)" by fastforce
  let ?t = "(lm_tasks s ! k)\<lparr>tt_pipeline := pl\<rparr>"
  have ts: "lm_tasks (process_and_send k frame now room s) = (lm_tasks s)[k := ?t]
      \<or> lm_tasks (process_and_send k frame now room s) = (lm_tasks s)[k := ?t\<lparr>tt_done := True\<rparr>]"
    and ev: "lm_event_in (process_and_send k frame now room s) = lm_event_in s"
    by (auto simp: process_and_send_def p Let_def send_out_def split: rust.split)
  show "lm_event_in (process_and_send k frame now room s) = lm_event_in s" by (rule ev)
  show "length (lm_tasks (process_and_send k frame now room s)) = length (lm_tasks s)" using ts by auto
  show "t \<noteq> k \<Longrightarrow> lm_tasks (process_and_send k frame now room s) ! t = lm_tasks s ! t" using ts by auto
  show "\<not> requested (lm_tasks (process_and_send k frame now room s) ! k)"
    using assms ts by (cases "k < length (lm_tasks s)") (auto simp: requested_def list_update_beyond)
qed

text \<open>
  Every step but receiving changes at most one task; one that ends normally has its request in the queue.
\<close>

definition step_grows :: "local_manager \<Rightarrow> local_manager \<Rightarrow> bool" where
  "step_grows s s' \<longleftrightarrow> length (lm_tasks s') = length (lm_tasks s) \<and> length (lm_event_in s') \<le> EVENT_BUFFER_COUNT
     \<and> (\<forall>t. tt_done (lm_tasks s ! t) \<longrightarrow> tt_done (lm_tasks s' ! t)
          \<and> requested (lm_tasks s' ! t) = requested (lm_tasks s ! t))
     \<and> length (lm_event_in s) \<le> length (lm_event_in s')
     \<and> (\<exists>k. \<forall>t. requested (lm_tasks s' ! t) \<and> \<not> requested (lm_tasks s ! t) \<longrightarrow>
          t = k \<and> length (lm_event_in s) < length (lm_event_in s'))"

lemma step_grows_refl: "length (lm_event_in s) \<le> EVENT_BUFFER_COUNT \<Longrightarrow> step_grows s s"
  by (simp add: step_grows_def)

lemma step_grows_same:
  assumes "lm_tasks s' = lm_tasks s" and "length (lm_event_in s) \<le> length (lm_event_in s')"
    and "length (lm_event_in s') \<le> EVENT_BUFFER_COUNT"
  shows "step_grows s s'"
  using assms by (auto simp: step_grows_def)

lemma drop_result_frame [simp]:
  "lm_tasks (drop_result r s) = lm_tasks s" "lm_event_in (drop_result r s) = lm_event_in s"
  by (cases r; simp add: local_unpublish_def set_state_def)+

lemma poll_task_grows:
  assumes "length (lm_event_in s) \<le> EVENT_BUFFER_COUNT" and "k < length (lm_tasks s)"
  shows "step_grows s (poll_task k branch s)"
proof -
  let ?t = "lm_tasks s ! k"
  consider "tt_done ?t" | "\<not> tt_done ?t" "tt_state ?t = Unpublished" | "\<not> tt_done ?t" "tt_state ?t \<noteq> Unpublished" by blast
  then show ?thesis
  proof cases
    case 1
    then show ?thesis using assms(1) by (simp add: poll_task_def step_grows_refl)
  next
    case 2
    have "step_grows s (s\<lparr>lm_event_in := lm_event_in s @ [ev], lm_tasks := (lm_tasks s)[k := ?t\<lparr>tt_done := True\<rparr>]\<rparr>)"
      if "length (lm_event_in s) < EVENT_BUFFER_COUNT" for ev
      using that assms(2) 2 by (auto simp: step_grows_def nth_list_update intro!: exI [of _ k])
    with 2 assms(1) show ?thesis
      by (auto simp: poll_task_def Let_def try_send_in_def step_grows_refl split: option.split)
  next
    case 3
    have other: "step_grows s s'" if "lm_event_in s' = lm_event_in s" "length (lm_tasks s') = length (lm_tasks s)"
      "\<And>t. t \<noteq> k \<Longrightarrow> lm_tasks s' ! t = lm_tasks s ! t" "\<not> requested (lm_tasks s' ! k)" for s'
    proof -
      have "lm_tasks s' ! t = lm_tasks s ! t" if "tt_done (lm_tasks s ! t)" for t
        using that \<open>\<And>t. t \<noteq> k \<Longrightarrow> lm_tasks s' ! t = lm_tasks s ! t\<close> 3 by (cases "t = k") auto
      moreover have "requested (lm_tasks s ! t)" if "requested (lm_tasks s' ! t)" for t
        using that \<open>\<And>t. t \<noteq> k \<Longrightarrow> lm_tasks s' ! t = lm_tasks s ! t\<close> \<open>\<not> requested (lm_tasks s' ! k)\<close>
        by (cases "t = k") auto
      ultimately show ?thesis using that(1,2) assms(1) by (auto simp: step_grows_def)
    qed
    show ?thesis
    proof (cases branch)
      case State_Changed
      with 3 assms(2) show ?thesis by (auto simp: poll_task_def requested_def Let_def intro!: other)
    next
      case (Frame_Ready now room)
      show ?thesis
      proof (cases "tt_frame_rx ?t")
        case Nil
        with Frame_Ready 3 assms(1) show ?thesis by (simp add: poll_task_def Let_def step_grows_refl)
      next
        case (Cons frame rest)
        let ?s = "s\<lparr>lm_tasks := (lm_tasks s)[k := ?t\<lparr>tt_frame_rx := rest\<rparr>]\<rparr>"
        have r: "\<not> requested (lm_tasks ?s ! k)" "tt_state (lm_tasks ?s ! k) \<noteq> Unpublished"
          using 3 assms(2) by (simp_all add: requested_def)
        note ps = process_and_send_task [OF r]
        show ?thesis
          using Frame_Ready Cons 3 assms(2) r(1)
          by (auto simp: poll_task_def Let_def ps intro!: other)
      qed
    qed
  qed
qed

lemma meanwhile_grows:
  assumes "length (lm_event_in s) \<le> EVENT_BUFFER_COUNT" and "\<forall>env. move \<noteq> Receive env" and "step_ok s move"
  shows "step_grows s (local_step s move)"
proof (cases move)
  case (Poll_Task k branch)
  with assms show ?thesis by (simp add: poll_task_grows)
next
  case (User_Push track frame)
  with assms show ?thesis
    by (auto simp: try_push_def Let_def step_grows_def requested_def nth_list_update track_ok_def
        split: publish_state.split)
next
  case (Receive env)
  with assms(2) show ?thesis by simp
qed (use assms(1) in \<open>auto simp: enqueue_def reply_def local_unpublish_def poll_forward_def Let_def
    try_send_in_def set_state_def split: option.split prod.split rust.split oneshot.split
    intro!: step_grows_same\<close>)

lemma requested_grows:
  assumes "step_grows s s'" and "finite T"
  shows "card {t \<in> T. requested (lm_tasks s' ! t)} + length (lm_event_in s)
    \<le> card {t \<in> T. requested (lm_tasks s ! t)} + length (lm_event_in s')"
proof -
  let ?R = "{t \<in> T. requested (lm_tasks s ! t)}" and ?R' = "{t \<in> T. requested (lm_tasks s' ! t)}"
  from assms(1) obtain k where k: "\<And>t. requested (lm_tasks s' ! t) \<Longrightarrow> \<not> requested (lm_tasks s ! t) \<Longrightarrow>
      t = k \<and> length (lm_event_in s) < length (lm_event_in s')" and le: "length (lm_event_in s) \<le> length (lm_event_in s')"
    by (auto simp: step_grows_def)
  have fin: "finite ?R" using assms(2) by simp
  show ?thesis
  proof (cases "?R' \<subseteq> ?R")
    case True
    from card_mono [OF fin this] le show ?thesis by simp
  next
    case False
    then obtain t where t: "t \<in> ?R'" "t \<notin> ?R" by blast
    then have "length (lm_event_in s) < length (lm_event_in s')" using k [of t] by auto
    moreover have "?R' \<subseteq> insert k ?R" using k by auto
    then have "card ?R' \<le> Suc (card ?R)"
      using card_mono [of "insert k ?R" ?R'] fin card_insert_le_m1 by (fastforce simp: card_insert_if split: if_splits)
    ultimately show ?thesis by linarith
  qed
qed

definition running_tracks :: "local_manager \<Rightarrow> nat set" where
  "running_tracks s =
     {t. \<exists>h info c. lm_descriptors s h = Some (Active info c t) \<and> \<not> tt_done (lm_tasks s ! t)}"

fun shutdown_ok :: "shutting_down \<Rightarrow> shutdown_move \<Rightarrow> bool" where
  "shutdown_ok d Shutdown_Turn \<longleftrightarrow> True"
| "shutdown_ok d (Meanwhile move) \<longleftrightarrow> step_ok (sh_manager d) move"

definition shutdown_inv :: "nat \<Rightarrow> nat set \<Rightarrow> shutting_down \<Rightarrow> bool" where
  "shutdown_inv n T d \<longleftrightarrow> length (lm_event_in (sh_manager d)) \<le> EVENT_BUFFER_COUNT
     \<and> n + card {t \<in> T. requested (lm_tasks (sh_manager d) ! t)} \<le> length (lm_event_in (sh_manager d))
     \<and> (\<forall>t \<in> T. (\<exists>h info c. (h, Active info c t) \<in> set (sh_left d)) \<or> sh_awaited d = Some t
          \<or> tt_done (lm_tasks (sh_manager d) ! t))"

lemma shutdown_turn_inv: "shutdown_inv n T d \<Longrightarrow> shutdown_inv n T (shutdown_turn d)"
  by (fastforce simp: shutdown_inv_def shutdown_turn_def split: option.splits list.splits descriptor.splits)

lemma meanwhile_inv:
  assumes "shutdown_inv n T d" and "finite T" and "\<forall>env. move \<noteq> Receive env" and "step_ok (sh_manager d) move"
  shows "shutdown_inv n T (d\<lparr>sh_manager := local_step (sh_manager d) move\<rparr>)"
proof -
  have g: "step_grows (sh_manager d) (local_step (sh_manager d) move)"
    by (rule meanwhile_grows) (use assms in \<open>auto simp: shutdown_inv_def\<close>)
  from requested_grows [OF this assms(2)] g assms(1) show ?thesis
    by (auto simp: shutdown_inv_def step_grows_def)
qed

interpretation shutting: guarded_machine shutdown_step shutdown_ok "\<lambda>d. finite T \<and> shutdown_inv n T d" for n T
proof
  fix d e assume inv: "finite T \<and> shutdown_inv n T d" and ok: "shutdown_ok d e"
  show "finite T \<and> shutdown_inv n T (shutdown_step d e)"
  proof (cases e)
    case (Meanwhile move)
    with inv ok meanwhile_inv [of n T d move] show ?thesis by (cases move) simp_all
  qed (use inv in \<open>simp add: shutdown_turn_inv\<close>)
qed

text \<open>
  C30. Shutting down can hang. The tasks of the tracks announce their end in the bounded input queue,
  which nobody reads any more, and the manager awaits them. From any state the manager can reach,
  whatever else is sent and done while it shuts down: shutdown returns only when the queue had room for
  a request from every active track whose task was running, not counting tasks that panic. With an
  empty queue it hangs for good from 17 published tracks on.
\<close>

theorem shutdown_needs_room:
  assumes "s = foldl local_step (local_manager_new provider) es"
    and "d = foldl shutdown_step (shutdown_begin ks s) moves"
    and "run_ok local_step step_ok (local_manager_new provider) es"
    and "iteration_order (lm_descriptors s) ks"
    and "run_ok shutdown_step shutdown_ok (shutdown_begin ks s) moves"
    and "shutdown_returned d"
  shows "length (lm_event_in s) + card (running_tracks s)
    \<le> 16 + card {t \<in> running_tracks s. panicked (lm_tasks (sh_manager d) ! t)}"
proof -
  let ?T = "running_tracks s"
  have inv: "local_inv s" unfolding assms(1) by (rule lm.grun_inv [OF local_inv_new assms(3)])
  have "?T \<subseteq> {..<length (lm_tasks s)}" using local_inv_active [OF inv] by (auto simp: running_tracks_def)
  then have fin: "finite ?T" by (rule finite_subset) simp
  have none: "{t \<in> ?T. requested (lm_tasks s ! t)} = {}" by (auto simp: running_tracks_def requested_def)
  have entries: "(h, Active info c t) \<in> set (entries_in_order ks (lm_descriptors s))"
    if "lm_descriptors s h = Some (Active info c t)" for h info c t
    using that entries_in_order_props(1) [OF assms(4)] map_of_SomeD by metis
  have "\<exists>h info c. (h, Active info c t) \<in> set (entries_in_order ks (lm_descriptors s))" if "t \<in> ?T" for t
    using that entries unfolding running_tracks_def by blast
  then have "shutdown_inv (length (lm_event_in s)) ?T (shutdown_begin ks s)"
    using inv by (simp add: shutdown_inv_def shutdown_begin_def local_inv_def none)
  with fin shutting.grun_inv [OF _ assms(5), of ?T "length (lm_event_in s)"]
  have "shutdown_inv (length (lm_event_in s)) ?T d" by (simp add: assms(2))
  with assms(6) have room: "length (lm_event_in s) + card {t \<in> ?T. requested (lm_tasks (sh_manager d) ! t)} \<le> 16"
    and ended: "\<forall>t \<in> ?T. tt_done (lm_tasks (sh_manager d) ! t)"
    by (auto simp: shutdown_inv_def shutdown_returned_def EVENT_BUFFER_COUNT_def)
  have "?T = {t \<in> ?T. requested (lm_tasks (sh_manager d) ! t)} \<union> {t \<in> ?T. panicked (lm_tasks (sh_manager d) ! t)}"
    using ended by (auto simp: requested_def panicked_def)
  then have "card ?T \<le> card {t \<in> ?T. requested (lm_tasks (sh_manager d) ! t)} + card {t \<in> ?T. panicked (lm_tasks (sh_manager d) ! t)}"
    by (metis (no_types, lifting) card_Un_le)
  with room show ?thesis by linarith
qed

section \<open>Encryption is decided by the response\<close>

text \<open>
  Whether a track's frames are encrypted is decided by the SFU's response alone. When the
  information in it says that the track uses no encryption, the frames leave in clear, with
  every payload byte in the packets and no encryption extension, also when an encryption
  provider is configured and the publish request asked for encryption.
\<close>

lemma response_decides_encryption:
  assumes "\<not> ti_uses_e2ee info"
    and "create_local_track info now rnd s = (track, s')"
    and "process_frame frame now' (tt_pipeline (lm_tasks s' ! lt_frame_tx track)) = (Ok ps, pl)"
  shows "concat (map pkt_payload ps) = fr_payload frame
    \<and> (\<forall>q \<in> set ps. e2ee (extensions_of (pkt_header q)) = None)"
proof -
  have pipe: "tt_pipeline (lm_tasks s' ! lt_frame_tx track) = pipeline_new info None now rnd"
    using assms(1,2) by (auto simp: create_local_track_def Let_def)
  have "\<exists>pk. packetize (packetizer_frame_from frame) now' (pl_packetizer (pipeline_new info None now rnd)) = (Ok ps, pk)"
    using assms(3)
    by (auto simp: pipe process_frame_def encrypt_if_needed_def pipeline_new_def Let_def split_beta
        intro: prod_eqI) (metis map_err.simps prod.collapse rust.exhaust rust.inject(1) rust.distinct(1,3))
  then obtain pk where "packetize (packetizer_frame_from frame) now' (pl_packetizer (pipeline_new info None now rnd)) = (Ok ps, pk)"
    by blast
  from packetize_payloads [OF this] show ?thesis by (simp add: packetizer_frame_from_def)
qed

section \<open>A concrete run\<close>

definition example_response :: publish_response_msg where
  "example_response = \<lparr>psm_info = Some
     \<lparr>pti_pub_handle = 1, pti_sid = ''DTR_a'', pti_name = ''pose'', pti_encryption = 0\<rparr>\<rparr>"

definition example_run :: "local_move list" where
  "example_run =
     [User_Publish \<lparr>opt_name = ''pose''\<rparr> 5, Receive ([], 0, 0),
      Signal_Publish_Response example_response, Receive ([Handle 1], 0, 0)]"

definition example_info :: track_info where
  "example_info = \<lparr>ti_sid = 0, ti_pub_handle = Handle 1, ti_name = ''pose'', ti_uses_e2ee = False\<rparr>"

lemma example_allocation: "allocator_get new_allocator = (Some (Handle 1), \<lparr>alloc_value = 1\<rparr>)"
  by (simp add: allocator_get_cases new_allocator_def)

lemma example_try_from: "publish_response_try_from example_response []
    = (Ok (SfuPublishResponse (Handle 1) (Inr example_info)), [Sid ''DTR_a''])"
proof -
  have "handle_try_from_u32 1 = Ok (Handle 1)" by (simp add: handle_try_from_u32_Ok_iff)
  then show ?thesis
    by (simp add: publish_response_try_from_def example_response_def track_info_try_from_def
        encryption_of_int_def sid_try_from_def starts_with_def SID_PREFIX_def sbind_def ret_def
        example_info_def Let_def)
qed

lemmas example_steps =
  local_manager_new_def try_send_in_def enqueue_def EVENT_BUFFER_COUNT_def receive_def
  on_publish_request_def example_allocation example_try_from send_out_def reply_def
  on_sfu_publish_response_def create_local_track_def send_result_def example_info_def

lemma example_run_state:
  "run_ok local_step step_ok (local_manager_new p) example_run
   \<and> lm_descriptors (foldl local_step (local_manager_new p) example_run) =
        [Handle 1 \<mapsto> Active example_info 0 0]
   \<and> lm_event_in (foldl local_step (local_manager_new p) example_run) = []
   \<and> lm_states (foldl local_step (local_manager_new p) example_run) = [Published]
   \<and> lm_event_out (foldl local_step (local_manager_new p) example_run) =
        [SfuPublishRequest (Handle 1) ''pose'' (p \<noteq> None)]
   \<and> alloc_value (lm_handle_allocator (foldl local_step (local_manager_new p) example_run)) = 1
   \<and> map tt_done (lm_tasks (foldl local_step (local_manager_new p) example_run)) = [False]"
  by (simp add: example_run_def example_steps Let_def iteration_order_def)

theorem publish_request_outcome_witness:
  "lm_event_out (on_publish_request \<lparr>opt_name = ''b''\<rparr> 6
      (foldl local_step (local_manager_new None) example_run))
   = [SfuPublishRequest (Handle 1) ''pose'' False, SfuPublishRequest (Handle 2) ''b'' False]"
proof -
  let ?s = "foldl local_step (local_manager_new None) example_run"
  have "allocator_get (lm_handle_allocator ?s) = (Some (Handle 2), \<lparr>alloc_value = 2\<rparr>)"
    using example_run_state [of None] by (cases "lm_handle_allocator ?s") (simp add: allocator_get_cases)
  moreover have "lm_encryption_provider ?s = None"
    by (simp add: example_run_def example_steps Let_def)
  ultimately show ?thesis
    using publish_request_outcome [of None example_run "\<lparr>opt_name = ''b''\<rparr>" 6] example_run_state [of None]
    by simp
qed

lemma response_forgets_active_track_witness:
  "lm_descriptors (on_sfu_publish_response (Handle 1) (Inr example_info) 0 0
      (foldl local_step (local_manager_new None) example_run)) (Handle 1) = None"
  using response_forgets_active_track [of "foldl local_step (local_manager_new None) example_run"
      "Handle 1" example_info 0 0 "Inr example_info" "\<lparr>lt_info = example_info, lt_frame_tx = 0, lt_state_tx = 0\<rparr>" 0 0]
    example_run_state [of None] by simp

lemma cancelled_publication_stays_witness:
  "let s = (local_manager_new None)\<lparr>lm_descriptors := [Handle 1 \<mapsto> Pending 0], lm_results := [Receiver_Gone]\<rparr>
   in lm_event_out (on_sfu_publish_response (Handle 1) (Inr example_info) 0 0 s) = []
     \<and> lm_event_out (on_sfu_publish_response (Handle 1) (Inr example_info) 0 0
          (on_publish_cancelled (Handle 1) s)) = [SfuUnpublishRequest (Handle 1)]"
  using cancelled_publication_stays [of
      "(local_manager_new None)\<lparr>lm_descriptors := [Handle 1 \<mapsto> Pending 0], lm_results := [Receiver_Gone]\<rparr>"
      "Handle 1" 0 example_info 0 0]
  by (simp add: local_manager_new_def)

lemma republish_requests_active_tracks_witness:
  "lm_event_out (on_republish_tracks [Handle 1] (foldl local_step (local_manager_new None) example_run))
   = [SfuPublishRequest (Handle 1) ''pose'' False, SfuPublishRequest (Handle 1) ''pose'' False]"
  using republish_requests_active_tracks [of None example_run "[Handle 1]"] example_run_state [of None]
  by (simp add: Let_def iteration_order_def map_filter_simps example_info_def)

text \<open>A shutdown with one track that returns: the task sees the state, ends, and is awaited.\<close>

theorem shutdown_needs_room_witness:
  "let s = foldl local_step (local_manager_new None) example_run;
       d = foldl shutdown_step (shutdown_begin [Handle 1] s)
         [Shutdown_Turn, Meanwhile (Poll_Task 0 State_Changed), Meanwhile (Poll_Task 0 State_Changed), Shutdown_Turn]
   in shutdown_returned d \<and> length (lm_event_in (sh_manager d)) = 1 \<and> running_tracks s = {0}
    \<and> length (lm_event_in s) + card (running_tracks s)
        \<le> 16 + card {t \<in> running_tracks s. panicked (lm_tasks (sh_manager d) ! t)}"
proof -
  define s where "s = foldl local_step (local_manager_new None) example_run"
  note state = example_run_state [of None, folded s_def]
  obtain task where task: "lm_tasks s = [task]" "\<not> tt_done task" using state by auto
  have rx: "tt_state_rx task = 0" "tt_state task = Published"
    using task(1) by (auto simp: s_def example_run_def example_steps Let_def)
  let ?moves = "[Shutdown_Turn, Meanwhile (Poll_Task 0 State_Changed), Meanwhile (Poll_Task 0 State_Changed), Shutdown_Turn]"
  have start: "shutdown_begin [Handle 1] s = \<lparr>sh_left = [(Handle 1, Active example_info 0 0)], sh_awaited = None,
      sh_manager = s\<lparr>lm_descriptors := Map.empty\<rparr>\<rparr>"
    using state by (simp add: shutdown_begin_def entries_in_order_def map_filter_simps)
  note steps = start shutdown_turn_def poll_task_def task rx try_send_in_def set_state_def has_receiver_def state EVENT_BUFFER_COUNT_def Let_def
  have "run_ok shutdown_step shutdown_ok (shutdown_begin [Handle 1] s) ?moves" by (simp add: steps)
  moreover have returned: "shutdown_returned (foldl shutdown_step (shutdown_begin [Handle 1] s) ?moves)
      \<and> length (lm_event_in (sh_manager (foldl shutdown_step (shutdown_begin [Handle 1] s) ?moves))) = 1"
    by (simp add: steps shutdown_returned_def)
  moreover have "iteration_order (lm_descriptors s) [Handle 1]" using state by (simp add: iteration_order_def)
  moreover have "running_tracks s = {0}" using state task by (auto simp: running_tracks_def split: if_splits)
  ultimately show ?thesis
    using shutdown_needs_room [OF s_def refl, of "[Handle 1]" ?moves] state
    by (simp only: Let_def s_def [symmetric])
qed

lemma response_decides_encryption_witness:
  "\<exists>track s' ps pl. create_local_track example_info 0 0 (local_manager_new (Some prefixing_encryptor)) = (track, s')
     \<and> process_frame (frame_new [1, 2, 3]) 0 (tt_pipeline (lm_tasks s' ! lt_frame_tx track)) = (Ok ps, pl)
     \<and> concat (map pkt_payload ps) = [1, 2, 3]"
proof -
  let ?s = "local_manager_new (Some prefixing_encryptor)"
  obtain track s' where c: "create_local_track example_info 0 0 ?s = (track, s')" by fastforce
  then have pipe: "tt_pipeline (lm_tasks s' ! lt_frame_tx track) = pipeline_new example_info None 0 0"
    by (auto simp: create_local_track_def Let_def example_info_def)
  have "payload_room (packetizer_new h TRANSPORT_MTU 0 0) (packetizer_frame_from (frame_new [1, 2, 3])) = 15988" for h
    by (simp add: payload_room_def packetizer_new_def TRANSPORT_MTU_def packetizer_frame_from_def
        frame_new_def has_extensions_def)
  then obtain ps pl where p: "process_frame (frame_new [1, 2, 3]) 0 (tt_pipeline (lm_tasks s' ! lt_frame_tx track)) = (Ok ps, pl)"
    by (simp add: pipe process_frame_def encrypt_if_needed_def pipeline_new_def Let_def split_beta packetize_closed)
  have "\<not> ti_uses_e2ee example_info" by (simp add: example_info_def)
  from response_decides_encryption [OF this c p] c p show ?thesis by (auto simp: frame_new_def)
qed

end
