(* ===== verification/Remote_Manager.thy ===== *)
theory Remote_Manager
  imports Pipelines Track_Proto
begin

text \<open>
  The subscriber's manager: \<^verbatim>\<open>remote/manager.rs\<close> and the operations of a remote track in
  \<^verbatim>\<open>remote/mod.rs\<close>. As on the publisher's side, one record holds the manager's fields and what
  its tasks share with it: the bounded input queue, the watched flags, the tasks with their
  packet queues and broadcast channels. A broadcast channel belongs to a task: the number of
  its receivers and the frames that were sent on it. One-shot receivers that the user dropped
  are remembered in \<open>rm_gone\<close>. The orders of iteration over maps are arguments.
\<close>

section \<open>State\<close>

datatype subscription_state =
    Sub_None
  | Sub_Pending "tx list" nat
  | Sub_Active handle nat

record remote_descriptor =
  rd_info :: track_info
  rd_publisher_identity :: string
  rd_published_tx :: cell
  rd_subscription :: subscription_state

record remote_task =
  rk_info :: track_info
  rk_pipeline :: remote_pipeline
  rk_published_rx :: cell
  rk_packet_rx :: "packet list"
  rk_receivers :: nat
  rk_frames :: "data_track_frame list"
  rk_closing :: bool
  rk_done :: bool

type_synonym subscribe_result = "subscribe_error + nat"

record remote_manager =
  rm_decryption_provider :: "decryption_provider option"
  rm_event_in :: "remote_input list"
  rm_event_out :: "remote_output list"
  rm_descriptors :: "data_track_sid \<rightharpoonup> remote_descriptor"
  rm_sub_handles :: "handle \<rightharpoonup> data_track_sid"
  rm_sids :: sid_store
  rm_published :: "bool list"
  rm_tasks :: "remote_task list"
  rm_replies :: "(tx \<times> subscribe_result) list"
  rm_gone :: "tx list"

definition PACKET_BUFFER_COUNT :: nat where "PACKET_BUFFER_COUNT = 16"
definition REMOTE_EVENT_BUFFER_COUNT :: nat where "REMOTE_EVENT_BUFFER_COUNT = 16"

definition remote_manager_new :: "decryption_provider option \<Rightarrow> remote_manager" where
  "remote_manager_new provider =
     \<lparr>rm_decryption_provider = provider, rm_event_in = [], rm_event_out = [],
      rm_descriptors = Map.empty, rm_sub_handles = Map.empty, rm_sids = [], rm_published = [],
      rm_tasks = [], rm_replies = [], rm_gone = []\<rparr>"

section \<open>Channels\<close>

definition emit :: "remote_output \<Rightarrow> remote_manager \<Rightarrow> remote_manager" where
  "emit ev s = s\<lparr>rm_event_out := rm_event_out s @ [ev]\<rparr>"

definition set_task :: "nat \<Rightarrow> remote_task \<Rightarrow> remote_manager \<Rightarrow> remote_manager" where
  "set_task k t s = s\<lparr>rm_tasks := (rm_tasks s)[k := t]\<rparr>"

definition set_descriptor :: "data_track_sid \<Rightarrow> remote_descriptor \<Rightarrow> remote_manager \<Rightarrow> remote_manager" where
  "set_descriptor sid d s = s\<lparr>rm_descriptors := (rm_descriptors s)(sid \<mapsto> d)\<rparr>"

definition remote_try_send_in :: "remote_input \<Rightarrow> remote_manager \<Rightarrow> remote_manager option" where
  "remote_try_send_in ev s =
     (if length (rm_event_in s) < REMOTE_EVENT_BUFFER_COUNT
      then Some (s\<lparr>rm_event_in := rm_event_in s @ [ev]\<rparr>) else None)"

text \<open>An error answers a subscribe request; nobody may be waiting for it.\<close>

definition answer_error :: "subscribe_error \<Rightarrow> tx \<Rightarrow> remote_manager \<Rightarrow> remote_manager" where
  "answer_error e user s =
     (if user \<in> set (rm_gone s) then s else s\<lparr>rm_replies := rm_replies s @ [(user, Inl e)]\<rparr>)"

text \<open>
  A new receiver on the channel of task \<open>k\<close>, sent to a user; one that cannot be sent is dropped
  at once.
\<close>

definition answer_receiver :: "nat \<Rightarrow> tx \<Rightarrow> remote_manager \<Rightarrow> remote_manager" where
  "answer_receiver k user s =
     (if user \<in> set (rm_gone s) then s
      else
        let t = rm_tasks s ! k
        in (set_task k (t\<lparr>rk_receivers := rk_receivers t + 1\<rparr>) s)
             \<lparr>rm_replies := rm_replies s @ [(user, Inr k)]\<rparr>)"

section \<open>Handlers\<close>

definition on_subscribe_request ::
    "data_track_sid \<Rightarrow> subscribe_options \<Rightarrow> tx \<Rightarrow> remote_manager \<Rightarrow> remote_manager" where
  "on_subscribe_request sid options result_tx s =
     (case rm_descriptors s sid of
        None \<Rightarrow> answer_error (Sub_Internal Unknown_Track) result_tx s
      | Some d \<Rightarrow>
          (case rd_subscription d of
             Sub_None \<Rightarrow>
               let s = emit (SfuUpdateSubscription sid True) s
               in set_descriptor sid
                    (d\<lparr>rd_subscription := Sub_Pending [result_tx] (buffer_size options)\<rparr>) s
           | Sub_Pending result_txs cap \<Rightarrow>
               set_descriptor sid
                 (d\<lparr>rd_subscription := Sub_Pending (result_txs @ [result_tx]) cap\<rparr>) s
           | Sub_Active sub_handle k \<Rightarrow> answer_receiver k result_tx s))"

definition on_unsubscribe_request :: "data_track_sid \<Rightarrow> remote_manager \<Rightarrow> remote_manager" where
  "on_unsubscribe_request sid s =
     (case rm_descriptors s sid of
        None \<Rightarrow> s
      | Some d \<Rightarrow>
          (case rd_subscription d of
             Sub_Active sub_handle k \<Rightarrow>
               let s = set_descriptor sid (d\<lparr>rd_subscription := Sub_None\<rparr>) s;
                   s = s\<lparr>rm_sub_handles := (rm_sub_handles s)(sub_handle := None)\<rparr>
               in emit (SfuUpdateSubscription sid False) s
           | _ \<Rightarrow> s))"

definition handle_track_published :: "string \<Rightarrow> track_info \<Rightarrow> remote_manager \<Rightarrow> remote_manager" where
  "handle_track_published publisher_identity info s =
     (let sid = info_sid (rm_sids s) info
      in if rm_descriptors s sid \<noteq> None then s
         else
           let c = length (rm_published s);
               s = s\<lparr>rm_published := rm_published s @ [True]\<rparr>;
               d = \<lparr>rd_info = info, rd_publisher_identity = publisher_identity,
                    rd_published_tx = c, rd_subscription = Sub_None\<rparr>;
               s = set_descriptor sid d s
           in emit (TrackPublishedOut
                \<lparr>rt_info = info, rt_published_rx = c, rt_publisher_identity = publisher_identity\<rparr>) s)"

definition handle_track_unpublished :: "data_track_sid \<Rightarrow> remote_manager \<Rightarrow> remote_manager" where
  "handle_track_unpublished sid s =
     (case rm_descriptors s sid of
        None \<Rightarrow> s
      | Some d \<Rightarrow>
          let s = s\<lparr>rm_descriptors := (rm_descriptors s)(sid := None)\<rparr>;
              s = (case rd_subscription d of
                     Sub_Active sub_handle k \<Rightarrow>
                       s\<lparr>rm_sub_handles := (rm_sub_handles s)(sub_handle := None)\<rparr>
                   | _ \<Rightarrow> s);
              s = s\<lparr>rm_published := (rm_published s)[rd_published_tx d := False]\<rparr>
          in emit (TrackUnpublishedOut sid) s)"

text \<open>
  \<^verbatim>\<open>on_sfu_publication_updates\<close>: \<open>ids\<close> is the order of the updates, \<open>ids'\<close> the order of the
  map of SIDs built from them (with the same keys), \<open>sids\<close> the order of the descriptors when
  the second loop begins.
\<close>

fun publish_tracks :: "string \<Rightarrow> track_info list \<Rightarrow> remote_manager \<Rightarrow> remote_manager" where
  "publish_tracks publisher [] s = s"
| "publish_tracks publisher (info # infos) s =
     publish_tracks publisher infos
       (if rm_descriptors s (info_sid (rm_sids s) info) \<noteq> None then s
        else handle_track_published publisher info s)"

definition unpublish_missing ::
    "string \<Rightarrow> data_track_sid set \<Rightarrow> data_track_sid list \<Rightarrow> remote_manager \<Rightarrow> remote_manager" where
  "unpublish_missing publisher sids_in_update sids s =
     (let unpublished = filter (\<lambda>sid. case rm_descriptors s sid of
            None \<Rightarrow> False
          | Some d \<Rightarrow> rd_publisher_identity d = publisher \<and> sid \<notin> sids_in_update) sids
      in fold handle_track_unpublished unpublished s)"

definition sids_of :: "sid_store \<Rightarrow> track_info list \<Rightarrow> data_track_sid set" where
  "sids_of \<sigma> infos = info_sid \<sigma> ` set infos"

definition updated_infos :: "(string \<rightharpoonup> track_info list) \<Rightarrow> string \<Rightarrow> track_info list" where
  "updated_infos updates i = (case updates i of None \<Rightarrow> [] | Some infos \<Rightarrow> infos)"

definition on_sfu_publication_updates ::
    "(string \<rightharpoonup> track_info list) \<Rightarrow> string list \<Rightarrow> string list \<Rightarrow> data_track_sid list
     \<Rightarrow> remote_manager \<Rightarrow> remote_manager" where
  "on_sfu_publication_updates updates ids ids' sids s =
     (if ids = [] then s
      else
        let s = fold (\<lambda>i. publish_tracks i (updated_infos updates i)) ids s
        in fold (\<lambda>i s. unpublish_missing i (sids_of (rm_sids s) (updated_infos updates i)) sids s) ids' s)"

definition register_subscriber_handle :: "handle \<Rightarrow> data_track_sid \<Rightarrow> remote_manager \<Rightarrow> remote_manager" where
  "register_subscriber_handle assigned_handle sid s =
     (case rm_descriptors s sid of
        None \<Rightarrow> s
      | Some d \<Rightarrow>
          (case rd_subscription d of
             Sub_None \<Rightarrow> s
           | Sub_Active sub_handle k \<Rightarrow>
               let s = s\<lparr>rm_sub_handles := (rm_sub_handles s)(sub_handle := None)\<rparr>;
                   s = set_descriptor sid (d\<lparr>rd_subscription := Sub_Active assigned_handle k\<rparr>) s
               in s\<lparr>rm_sub_handles := (rm_sub_handles s)(assigned_handle \<mapsto> sid)\<rparr>
           | Sub_Pending result_txs cap \<Rightarrow>
               let provider = (if ti_uses_e2ee (rd_info d) then rm_decryption_provider s else None);
                   pipeline = remote_pipeline_new (rd_publisher_identity d) provider;
                   k = length (rm_tasks s);
                   task = \<lparr>rk_info = rd_info d, rk_pipeline = pipeline,
                           rk_published_rx = rd_published_tx d, rk_packet_rx = [],
                           rk_receivers = 0, rk_frames = [], rk_closing = False, rk_done = False\<rparr>;
                   s = s\<lparr>rm_tasks := rm_tasks s @ [task]\<rparr>;
                   s = set_descriptor sid (d\<lparr>rd_subscription := Sub_Active assigned_handle k\<rparr>) s;
                   s = s\<lparr>rm_sub_handles := (rm_sub_handles s)(assigned_handle \<mapsto> sid)\<rparr>
               in fold (answer_receiver k) result_txs s))"

definition on_sfu_subscriber_handles ::
    "(handle \<rightharpoonup> data_track_sid) \<Rightarrow> handle list \<Rightarrow> remote_manager \<Rightarrow> remote_manager" where
  "on_sfu_subscriber_handles mapping hs s =
     fold (\<lambda>h s. case mapping h of None \<Rightarrow> s | Some sid \<Rightarrow> register_subscriber_handle h sid s) hs s"

definition on_packet_received :: "bytes \<Rightarrow> remote_manager \<Rightarrow> remote_manager" where
  "on_packet_received raw s =
     (case packet_deserialize raw of
        Ok p \<Rightarrow>
          (case rm_sub_handles s (track_handle (pkt_header p)) of
             None \<Rightarrow> s
           | Some sid \<Rightarrow>
               (case rm_descriptors s sid of
                  None \<Rightarrow> s
                | Some d \<Rightarrow>
                    (case rd_subscription d of
                       Sub_Active sub_handle k \<Rightarrow>
                         let t = rm_tasks s ! k
                         in if \<not> rk_done t \<and> length (rk_packet_rx t) < PACKET_BUFFER_COUNT
                            then set_task k (t\<lparr>rk_packet_rx := rk_packet_rx t @ [p]\<rparr>) s else s
                     | _ \<Rightarrow> s)))
      | _ \<Rightarrow> s)"

definition on_resend_subscription_updates :: "data_track_sid list \<Rightarrow> remote_manager \<Rightarrow> remote_manager" where
  "on_resend_subscription_updates sids s =
     fold emit (List.map_filter (\<lambda>sid. case rm_descriptors s sid of
         None \<Rightarrow> None
       | Some d \<Rightarrow> (case rd_subscription d of
             Sub_None \<Rightarrow> None
           | _ \<Rightarrow> Some (SfuUpdateSubscription sid True))) sids) s"

text \<open>
  \<^verbatim>\<open>shutdown\<close> awaits the task of every active subscription after telling it that the track is
  no longer published. A task that is already blocked on sending its unsubscribe request ends
  only when the queue has room, and nobody empties the queue any more (\<open>None\<close>).
\<close>

definition await_remote_task :: "nat \<Rightarrow> remote_manager \<Rightarrow> remote_manager option" where
  "await_remote_task k s =
     (let t = rm_tasks s ! k; ended = t\<lparr>rk_done := True\<rparr>
      in if rk_done t then Some s
         else if rk_closing t
         then map_option (set_task k ended)
                (remote_try_send_in (UnsubscribeRequest (info_sid (rm_sids s) (rk_info t))) s)
         else Some (set_task k ended s))"

fun remote_shutdown_loop :: "remote_descriptor list \<Rightarrow> remote_manager \<Rightarrow> remote_manager option" where
  "remote_shutdown_loop [] s = Some s"
| "remote_shutdown_loop (d # ds) s =
     (let s = s\<lparr>rm_published := (rm_published s)[rd_published_tx d := False]\<rparr>
      in case rd_subscription d of
           Sub_None \<Rightarrow> remote_shutdown_loop ds s
         | Sub_Pending result_txs cap \<Rightarrow>
             remote_shutdown_loop ds (fold (answer_error Sub_Disconnected) result_txs s)
         | Sub_Active sub_handle k \<Rightarrow>
             Option.bind (await_remote_task k s) (remote_shutdown_loop ds))"

definition remote_shutdown :: "data_track_sid list \<Rightarrow> remote_manager \<Rightarrow> remote_manager option" where
  "remote_shutdown sids s =
     remote_shutdown_loop (List.map_filter (rm_descriptors s) sids)
       (s\<lparr>rm_descriptors := Map.empty, rm_sub_handles := Map.empty\<rparr>)"

section \<open>The run loop\<close>

text \<open>The orders of iteration that a handler may need.\<close>

record orders =
  ord_ids :: "string list"
  ord_ids' :: "string list"
  ord_sids :: "data_track_sid list"
  ord_handles :: "handle list"

fun handle_remote_input :: "remote_input \<Rightarrow> orders \<Rightarrow> remote_manager \<Rightarrow> remote_manager" where
  "handle_remote_input (SubscribeRequest sid options result_tx) ord s =
     on_subscribe_request sid options result_tx s"
| "handle_remote_input (UnsubscribeRequest sid) ord s = on_unsubscribe_request sid s"
| "handle_remote_input (SfuPublicationUpdates updates) ord s =
     on_sfu_publication_updates updates (ord_ids ord) (ord_ids' ord) (ord_sids ord) s"
| "handle_remote_input (SfuSubscriberHandles mapping) ord s =
     on_sfu_subscriber_handles mapping (ord_handles ord) s"
| "handle_remote_input (PacketReceived raw) ord s = on_packet_received raw s"
| "handle_remote_input ResendSubscriptionUpdates ord s =
     on_resend_subscription_updates (ord_sids ord) s"
| "handle_remote_input RemoteShutdown ord s = s"

definition remote_receive :: "orders \<Rightarrow> remote_manager \<Rightarrow> remote_manager" where
  "remote_receive ord s =
     (case rm_event_in s of
        [] \<Rightarrow> s
      | ev # rest \<Rightarrow> handle_remote_input ev ord (s\<lparr>rm_event_in := rest\<rparr>))"

fun remote_run :: "orders list \<Rightarrow> remote_manager \<Rightarrow> remote_manager + remote_manager option" where
  "remote_run [] s = Inl s"
| "remote_run (ord # ords) s =
     (case rm_event_in s of
        [] \<Rightarrow> Inl s
      | RemoteShutdown # rest \<Rightarrow> Inr (remote_shutdown (ord_sids ord) (s\<lparr>rm_event_in := rest\<rparr>))
      | ev # rest \<Rightarrow> remote_run ords (remote_receive ord s))"

section \<open>The task of a subscription\<close>

text \<open>Received frames go to every receiver of the broadcast channel.\<close>

definition task_receive :: "nat \<Rightarrow> packet \<Rightarrow> remote_manager \<Rightarrow> remote_manager" where
  "task_receive k p s =
     (let t = rm_tasks s ! k
      in case process_packet p (rk_pipeline t) of
           (None, pl) \<Rightarrow> set_task k (t\<lparr>rk_pipeline := pl\<rparr>) s
         | (Some frame, pl) \<Rightarrow>
             set_task k (t\<lparr>rk_pipeline := pl, rk_frames := rk_frames t @ [frame]\<rparr>) s)"

text \<open>
  One turn of the task. The select is biased: a change of the published flag comes first, then
  the departure of the last receiver, then packets.
\<close>

definition poll_remote_task :: "nat \<Rightarrow> remote_manager \<Rightarrow> remote_manager" where
  "poll_remote_task k s =
     (let t = rm_tasks s ! k;
          request = UnsubscribeRequest (info_sid (rm_sids s) (rk_info t))
      in if rk_done t then s
         else if \<not> rk_closing t \<and> \<not> rm_published s ! rk_published_rx t
         then set_task k (t\<lparr>rk_done := True\<rparr>) s
         else if rk_closing t \<or> rk_receivers t = 0
         then (case remote_try_send_in request s of
                 None \<Rightarrow> set_task k (t\<lparr>rk_closing := True\<rparr>) s
               | Some s \<Rightarrow> set_task k (t\<lparr>rk_done := True\<rparr>) s)
         else
           (case rk_packet_rx t of
              [] \<Rightarrow> s
            | p # rest \<Rightarrow> task_receive k p (set_task k (t\<lparr>rk_packet_rx := rest\<rparr>) s)))"

text \<open>A user drops the stream of a subscription, or stops waiting for one.\<close>

definition drop_receiver :: "nat \<Rightarrow> remote_manager \<Rightarrow> remote_manager" where
  "drop_receiver k s =
     (let t = rm_tasks s ! k in set_task k (t\<lparr>rk_receivers := rk_receivers t - 1\<rparr>) s)"

definition give_up :: "tx \<Rightarrow> remote_manager \<Rightarrow> remote_manager" where
  "give_up user s = s\<lparr>rm_gone := user # rm_gone s\<rparr>"

definition remote_is_published :: "remote_track \<Rightarrow> remote_manager \<Rightarrow> bool" where
  "remote_is_published t s \<longleftrightarrow> rm_published s ! rt_published_rx t"

section \<open>All steps\<close>

datatype remote_move =
    User_Subscribe data_track_sid subscribe_options tx
  | User_Gives_Up tx
  | User_Drops nat
  | Signal_Updates "participant_info list" string
  | Signal_Handles "(32 word \<times> string) list"
  | Transport_Packet bytes
  | Remote_Reconnected
  | Remote_Receive orders
  | Poll_Remote_Task nat

definition remote_enqueue :: "remote_input \<Rightarrow> remote_manager \<Rightarrow> remote_manager" where
  "remote_enqueue ev s = (case remote_try_send_in ev s of None \<Rightarrow> s | Some s' \<Rightarrow> s')"

fun remote_step :: "remote_manager \<Rightarrow> remote_move \<Rightarrow> remote_manager" where
  "remote_step s (User_Subscribe sid options user) = remote_enqueue (SubscribeRequest sid options user) s"
| "remote_step s (User_Gives_Up user) = give_up user s"
| "remote_step s (User_Drops k) = drop_receiver k s"
| "remote_step s (Signal_Updates ps me) =
     (case event_from_participant_update ps me (rm_sids s) of
        (Ok ev, \<sigma>, ps') \<Rightarrow> remote_enqueue ev (s\<lparr>rm_sids := \<sigma>\<rparr>)
      | (_, \<sigma>, ps') \<Rightarrow> s\<lparr>rm_sids := \<sigma>\<rparr>)"
| "remote_step s (Signal_Handles sub_handles) =
     (case subscriber_handles_try_from sub_handles of Ok ev \<Rightarrow> remote_enqueue ev s | _ \<Rightarrow> s)"
| "remote_step s (Transport_Packet raw) = remote_enqueue (PacketReceived raw) s"
| "remote_step s Remote_Reconnected = remote_enqueue ResendSubscriptionUpdates s"
| "remote_step s (Remote_Receive ord) = remote_receive ord s"
| "remote_step s (Poll_Remote_Task k) = poll_remote_task k s"

fun remote_step_ok :: "remote_manager \<Rightarrow> remote_move \<Rightarrow> bool" where
  "remote_step_ok s (User_Drops k) \<longleftrightarrow> k < length (rm_tasks s)"
| "remote_step_ok s (Poll_Remote_Task k) \<longleftrightarrow> k < length (rm_tasks s)"
| "remote_step_ok s _ \<longleftrightarrow> True"

section \<open>Invariant\<close>

definition task_key :: "remote_task \<Rightarrow> track_info \<times> cell \<times> string" where
  "task_key t = (rk_info t, rk_published_rx t, rp_publisher_identity (rk_pipeline t))"

text \<open>
  A descriptor stands under the SID of its information, and an active one has a task made for
  the same track and publisher; no two descriptors share a task.
\<close>

fun subscription_ok ::
    "(track_info \<times> cell \<times> string) list \<Rightarrow> remote_descriptor \<Rightarrow> subscription_state \<Rightarrow> bool" where
  "subscription_ok keys d (Sub_Active h k) \<longleftrightarrow>
     k < length keys \<and> keys ! k = (rd_info d, rd_published_tx d, rd_publisher_identity d)"
| "subscription_ok keys d _ \<longleftrightarrow> True"

definition remote_descs_ok ::
    "sid_store \<Rightarrow> nat \<Rightarrow> (track_info \<times> cell \<times> string) list \<Rightarrow> (data_track_sid \<rightharpoonup> remote_descriptor) \<Rightarrow> bool" where
  "remote_descs_ok \<sigma> n keys m \<longleftrightarrow>
     (\<forall>sid d. m sid = Some d \<longrightarrow> info_ok \<sigma> (rd_info d) \<and> info_sid \<sigma> (rd_info d) = sid
        \<and> rd_published_tx d < n \<and> subscription_ok keys d (rd_subscription d))
     \<and> (\<forall>sid sid' d d' h h' k. m sid = Some d \<longrightarrow> m sid' = Some d' \<longrightarrow>
          rd_subscription d = Sub_Active h k \<longrightarrow> rd_subscription d' = Sub_Active h' k \<longrightarrow> sid = sid')"

text \<open>Every route leads to a track with an active subscription under that very handle.\<close>

definition routes_ok ::
    "(handle \<rightharpoonup> data_track_sid) \<Rightarrow> (data_track_sid \<rightharpoonup> remote_descriptor) \<Rightarrow> bool" where
  "routes_ok r m \<longleftrightarrow> (\<forall>h sid. r h = Some sid \<longrightarrow>
     (\<exists>d k. m sid = Some d \<and> rd_subscription d = Sub_Active h k))"

definition remote_event_ok :: "nat \<Rightarrow> remote_input \<Rightarrow> bool" where
  "remote_event_ok n ev \<longleftrightarrow> (\<forall>updates i infos. ev = SfuPublicationUpdates updates \<longrightarrow>
     updates i = Some infos \<longrightarrow> (\<forall>info \<in> set infos. ti_sid info < n))"

definition remote_inv :: "remote_manager \<Rightarrow> bool" where
  "remote_inv s \<longleftrightarrow>
     remote_descs_ok (rm_sids s) (length (rm_published s)) (map task_key (rm_tasks s)) (rm_descriptors s)
     \<and> routes_ok (rm_sub_handles s) (rm_descriptors s)
     \<and> (\<forall>ev \<in> set (rm_event_in s). remote_event_ok (length (rm_sids s)) ev)
     \<and> length (rm_event_in s) \<le> REMOTE_EVENT_BUFFER_COUNT
     \<and> (\<forall>t \<in> set (rm_tasks s). length (rk_packet_rx t) \<le> PACKET_BUFFER_COUNT)"

lemma remote_inv_new: "remote_inv (remote_manager_new provider)"
  by (simp add: remote_inv_def remote_manager_new_def remote_descs_ok_def routes_ok_def)

lemma remote_descs_okD:
  assumes "remote_descs_ok \<sigma> n keys m" and "m sid = Some d"
  shows "info_ok \<sigma> (rd_info d)" and "info_sid \<sigma> (rd_info d) = sid" and "rd_published_tx d < n"
    and "subscription_ok keys d (rd_subscription d)"
  using assms by (auto simp: remote_descs_ok_def)

lemma subscription_ok_grow: "subscription_ok keys d st \<Longrightarrow> subscription_ok (keys @ keys') d st"
  by (cases st) (auto simp: nth_append)

lemma remote_descs_ok_grow:
  assumes "remote_descs_ok \<sigma> n keys m" and "n \<le> n'"
  shows "remote_descs_ok (\<sigma> @ \<tau>) n' (keys @ keys') m"
proof -
  have "info_ok (\<sigma> @ \<tau>) (rd_info d) \<and> info_sid (\<sigma> @ \<tau>) (rd_info d) = sid \<and> rd_published_tx d < n'
      \<and> subscription_ok (keys @ keys') d (rd_subscription d)" if "m sid = Some d" for sid d
    using remote_descs_okD [OF assms(1) that] assms(2)
    by (auto simp: info_ok_def info_sid_def nth_append intro: subscription_ok_grow)
  with assms(1) show ?thesis unfolding remote_descs_ok_def by blast
qed

lemma remote_descs_ok_remove: "remote_descs_ok \<sigma> n keys m \<Longrightarrow> remote_descs_ok \<sigma> n keys (m(sid := None))"
  unfolding remote_descs_ok_def by (auto split: if_splits)

text \<open>Changing the subscription of a descriptor.\<close>

lemma remote_descs_ok_subscription:
  assumes ok: "remote_descs_ok \<sigma> n keys m" and "m sid = Some d"
    and "subscription_ok keys d st"
    and fresh: "\<And>h k sid' d' h'. st = Sub_Active h k \<Longrightarrow> m sid' = Some d' \<Longrightarrow>
      rd_subscription d' = Sub_Active h' k \<Longrightarrow> sid' = sid"
  shows "remote_descs_ok \<sigma> n keys (m(sid \<mapsto> d\<lparr>rd_subscription := st\<rparr>))"
proof -
  have "subscription_ok keys (d\<lparr>rd_subscription := st\<rparr>) st" using assms(3) by (cases st) auto
  with remote_descs_okD [OF ok assms(2)] ok show ?thesis
    unfolding remote_descs_ok_def by (auto dest: fresh)
qed

lemma remote_descs_ok_insert:
  assumes "remote_descs_ok \<sigma> n keys m" and "info_ok \<sigma> info" and "c < n"
  shows "remote_descs_ok \<sigma> n keys (m(info_sid \<sigma> info \<mapsto> \<lparr>rd_info = info, rd_publisher_identity = p,
      rd_published_tx = c, rd_subscription = Sub_None\<rparr>))"
  using assms unfolding remote_descs_ok_def by auto

lemma routes_ok_remove:
  "routes_ok r m \<Longrightarrow> m sid = Some d \<Longrightarrow> rd_subscription d = Sub_Active h k \<Longrightarrow>
     routes_ok (r(h := None)) (m(sid := d'))"
  unfolding routes_ok_def by (auto split: if_splits) (metis option.inject subscription_state.inject(2))

text \<open>A track without an active subscription has no route.\<close>

lemma routes_ok_inactive:
  assumes "routes_ok r m" and "\<And>d h k. m sid = Some d \<Longrightarrow> rd_subscription d \<noteq> Sub_Active h k"
  shows "r h \<noteq> Some sid" and "routes_ok r (m(sid := x))"
proof -
  show no: "r h \<noteq> Some sid" for h
    using assms unfolding routes_ok_def by blast
  show "routes_ok r (m(sid := x))"
    using assms(1) no unfolding routes_ok_def by auto
qed

lemma routes_ok_insert:
  "routes_ok r (m(sid := None)) \<Longrightarrow> rd_subscription d = Sub_Active h k \<Longrightarrow>
     routes_ok (r(h \<mapsto> sid)) (m(sid \<mapsto> d))"
  unfolding routes_ok_def by (auto split: if_splits)

section \<open>Every handler keeps the invariant\<close>

lemma remote_inv_descs:
  "remote_inv s \<Longrightarrow> remote_descs_ok (rm_sids s) (length (rm_published s)) (map task_key (rm_tasks s)) (rm_descriptors s)"
  by (simp add: remote_inv_def)

lemma remote_inv_routes: "remote_inv s \<Longrightarrow> routes_ok (rm_sub_handles s) (rm_descriptors s)"
  by (simp add: remote_inv_def)

lemma remote_inv_emit [simp]: "remote_inv (emit ev s) = remote_inv s"
  by (simp add: remote_inv_def emit_def)

lemma remote_inv_answer_error [simp]: "remote_inv (answer_error e user s) = remote_inv s"
  by (simp add: remote_inv_def answer_error_def)

lemma remote_inv_give_up [simp]: "remote_inv (give_up user s) = remote_inv s"
  by (simp add: remote_inv_def give_up_def)

lemma remote_inv_published [simp]:
  "remote_inv (s\<lparr>rm_published := (rm_published s)[c := b]\<rparr>) = remote_inv s"
  by (simp add: remote_inv_def)

lemma remote_inv_set_task:
  assumes "remote_inv s" and "k < length (rm_tasks s)" and "task_key t = task_key (rm_tasks s ! k)"
    and "length (rk_packet_rx t) \<le> PACKET_BUFFER_COUNT"
  shows "remote_inv (set_task k t s)"
proof -
  have "map task_key ((rm_tasks s)[k := t]) = map task_key (rm_tasks s)"
    using assms(2,3) by (simp add: map_update) (metis list_update_id nth_map map_update)
  with assms show ?thesis
    by (auto simp: remote_inv_def set_task_def dest!: set_update_subset_insert [THEN subsetD])
qed

lemma remote_inv_queue:
  "remote_inv s \<Longrightarrow> k < length (rm_tasks s) \<Longrightarrow> length (rk_packet_rx (rm_tasks s ! k)) \<le> PACKET_BUFFER_COUNT"
  by (auto simp: remote_inv_def)

lemma remote_inv_answer_receiver:
  "remote_inv s \<Longrightarrow> k < length (rm_tasks s) \<Longrightarrow> remote_inv (answer_receiver k user s)"
  using remote_inv_set_task [of s k "(rm_tasks s ! k)\<lparr>rk_receivers := rk_receivers (rm_tasks s ! k) + 1\<rparr>"]
    remote_inv_queue [of s k]
  by (auto simp: answer_receiver_def Let_def task_key_def remote_inv_def)

lemma answer_receiver_frame [simp]:
  "length (rm_tasks (answer_receiver k user s)) = length (rm_tasks s)"
  "rm_sids (answer_receiver k user s) = rm_sids s"
  "rm_descriptors (answer_receiver k user s) = rm_descriptors s"
  "rm_event_out (answer_receiver k user s) = rm_event_out s"
  "rm_gone (answer_receiver k user s) = rm_gone s"
  "rm_sub_handles (answer_receiver k user s) = rm_sub_handles s"
  by (simp_all add: answer_receiver_def set_task_def Let_def)

lemma remote_inv_active:
  "remote_inv s \<Longrightarrow> rm_descriptors s sid = Some d \<Longrightarrow> rd_subscription d = Sub_Active h k \<Longrightarrow>
     k < length (rm_tasks s) \<and> task_key (rm_tasks s ! k) = (rd_info d, rd_published_tx d, rd_publisher_identity d)"
  using remote_descs_okD(4) [OF remote_inv_descs, of s sid d] by auto

text \<open>A descriptor that is not active may change to any other inactive state.\<close>

lemma remote_inv_set_inactive:
  assumes "remote_inv s" and "rm_descriptors s sid = Some d"
    and "\<And>h k. rd_subscription d \<noteq> Sub_Active h k" and "\<And>h k. st \<noteq> Sub_Active h k"
  shows "remote_inv (set_descriptor sid (d\<lparr>rd_subscription := st\<rparr>) s)"
proof -
  have "subscription_ok keys d st" for keys using assms(4) by (cases st) auto
  moreover have "routes_ok (rm_sub_handles s) ((rm_descriptors s)(sid \<mapsto> d\<lparr>rd_subscription := st\<rparr>))"
    by (rule routes_ok_inactive(2) [OF remote_inv_routes [OF assms(1)]]) (use assms(2,3) in auto)
  ultimately show ?thesis
    using assms(1) remote_descs_ok_subscription [OF remote_inv_descs [OF assms(1)] assms(2), of st] assms(4)
    by (simp add: remote_inv_def set_descriptor_def)
qed

lemma remote_inv_subscribe: "remote_inv s \<Longrightarrow> remote_inv (on_subscribe_request sid options user s)"
proof (cases "rm_descriptors s sid")
  case (Some d)
  assume inv: "remote_inv s"
  show ?thesis
  proof (cases "rd_subscription d")
    case Sub_None
    have "remote_inv (set_descriptor sid (d\<lparr>rd_subscription := Sub_Pending [user] (buffer_size options)\<rparr>)
        (emit (SfuUpdateSubscription sid True) s))"
      by (rule remote_inv_set_inactive) (use inv Some Sub_None in \<open>simp_all add: emit_def remote_inv_def\<close>)
    with Some Sub_None show ?thesis by (simp add: on_subscribe_request_def)
  next
    case (Sub_Pending txs cap)
    with inv Some show ?thesis
      by (simp add: on_subscribe_request_def remote_inv_set_inactive)
  next
    case (Sub_Active h k)
    with inv Some remote_inv_active [OF inv Some] show ?thesis
      by (simp add: on_subscribe_request_def remote_inv_answer_receiver)
  qed
qed (simp add: on_subscribe_request_def)

lemma remote_inv_unsubscribe: "remote_inv s \<Longrightarrow> remote_inv (on_unsubscribe_request sid s)"
proof (cases "rm_descriptors s sid")
  case (Some d)
  assume inv: "remote_inv s"
  show ?thesis
  proof (cases "rd_subscription d")
    case (Sub_Active h k)
    have "remote_descs_ok (rm_sids s) (length (rm_published s)) (map task_key (rm_tasks s))
        ((rm_descriptors s)(sid \<mapsto> d\<lparr>rd_subscription := Sub_None\<rparr>))"
      by (rule remote_descs_ok_subscription [OF remote_inv_descs [OF inv] Some]) simp_all
    moreover have "routes_ok ((rm_sub_handles s)(h := None))
        ((rm_descriptors s)(sid \<mapsto> d\<lparr>rd_subscription := Sub_None\<rparr>))"
      by (rule routes_ok_remove [OF remote_inv_routes [OF inv] Some Sub_Active])
    ultimately show ?thesis
      using inv Some Sub_Active
      by (simp add: on_unsubscribe_request_def Let_def remote_inv_def set_descriptor_def emit_def)
  qed (use inv Some in \<open>simp_all add: on_unsubscribe_request_def\<close>)
qed (simp add: on_unsubscribe_request_def)

lemma handle_track_published_frame [simp]:
  "rm_sids (handle_track_published p info s) = rm_sids s"
  by (simp add: handle_track_published_def Let_def emit_def set_descriptor_def)

lemma handle_track_unpublished_frame [simp]:
  "rm_sids (handle_track_unpublished sid s) = rm_sids s"
  by (auto simp: handle_track_unpublished_def Let_def emit_def split: option.split subscription_state.split)

lemma remote_inv_track_published:
  assumes inv: "remote_inv s" and "info_ok (rm_sids s) info"
  shows "remote_inv (handle_track_published publisher info s)"
proof (cases "rm_descriptors s (info_sid (rm_sids s) info)")
  case None
  let ?d = "\<lparr>rd_info = info, rd_publisher_identity = publisher,
      rd_published_tx = length (rm_published s), rd_subscription = Sub_None\<rparr>"
  have "remote_descs_ok (rm_sids s) (Suc (length (rm_published s))) (map task_key (rm_tasks s)) (rm_descriptors s)"
    using remote_descs_ok_grow [OF remote_inv_descs [OF inv], of "Suc (length (rm_published s))" "[]" "[]"]
    by simp
  from remote_descs_ok_insert [OF this assms(2), of "length (rm_published s)" publisher]
  have "remote_descs_ok (rm_sids s) (Suc (length (rm_published s))) (map task_key (rm_tasks s))
      ((rm_descriptors s)(info_sid (rm_sids s) info \<mapsto> ?d))" by simp
  moreover have "routes_ok (rm_sub_handles s) ((rm_descriptors s)(info_sid (rm_sids s) info \<mapsto> ?d))"
    by (rule routes_ok_inactive(2) [OF remote_inv_routes [OF inv]]) (simp add: None)
  ultimately show ?thesis
    using inv None
    by (simp add: handle_track_published_def Let_def remote_inv_def set_descriptor_def emit_def)
qed (use inv in \<open>simp add: handle_track_published_def\<close>)

lemma remote_inv_track_unpublished:
  assumes inv: "remote_inv s"
  shows "remote_inv (handle_track_unpublished sid s)"
proof (cases "rm_descriptors s sid")
  case (Some d)
  note removed = remote_descs_ok_remove [OF remote_inv_descs [OF inv], of sid]
  show ?thesis
  proof (cases "\<exists>h k. rd_subscription d = Sub_Active h k")
    case True
    then obtain h k where a: "rd_subscription d = Sub_Active h k" by blast
    have "routes_ok ((rm_sub_handles s)(h := None)) ((rm_descriptors s)(sid := None))"
      by (rule routes_ok_remove [OF remote_inv_routes [OF inv] Some a])
    with inv Some a removed show ?thesis
      by (simp add: handle_track_unpublished_def Let_def remote_inv_def emit_def)
  next
    case False
    have "routes_ok (rm_sub_handles s) ((rm_descriptors s)(sid := None))"
      by (rule routes_ok_inactive(2) [OF remote_inv_routes [OF inv]]) (use Some False in auto)
    with inv Some False removed show ?thesis
      by (cases "rd_subscription d")
        (simp_all add: handle_track_unpublished_def Let_def remote_inv_def emit_def)
  qed
qed (use inv in \<open>simp add: handle_track_unpublished_def\<close>)

lemma remote_inv_publish_tracks:
  "remote_inv s \<Longrightarrow> \<forall>info \<in> set infos. info_ok (rm_sids s) info \<Longrightarrow>
     remote_inv (publish_tracks publisher infos s) \<and> rm_sids (publish_tracks publisher infos s) = rm_sids s"
  by (induction infos arbitrary: s) (auto simp: remote_inv_track_published)

lemma remote_inv_fold_unpublish:
  "remote_inv s \<Longrightarrow> remote_inv (fold handle_track_unpublished sids s)
     \<and> rm_sids (fold handle_track_unpublished sids s) = rm_sids s"
  by (induction sids arbitrary: s) (simp_all add: remote_inv_track_unpublished)

lemma remote_inv_updates:
  assumes inv: "remote_inv s"
    and ok: "\<And>i info. info \<in> set (updated_infos updates i) \<Longrightarrow> info_ok (rm_sids s) info"
  shows "remote_inv (on_sfu_publication_updates updates ids ids' sids s)"
proof -
  have 1: "remote_inv (fold (\<lambda>i. publish_tracks i (updated_infos updates i)) ids s)
      \<and> rm_sids (fold (\<lambda>i. publish_tracks i (updated_infos updates i)) ids s) = rm_sids s"
    by (rule fold_invariant [where Q = "\<lambda>_. True" and P = "\<lambda>s'. remote_inv s' \<and> rm_sids s' = rm_sids s"])
      (use inv ok remote_inv_publish_tracks in auto)
  have "remote_inv (fold (\<lambda>i s. unpublish_missing i (sids_of (rm_sids s) (updated_infos updates i)) sids s) ids' s')"
    if "remote_inv s'" for s'
    by (rule fold_invariant [where Q = "\<lambda>_. True" and P = remote_inv])
      (use that remote_inv_fold_unpublish in \<open>auto simp: unpublish_missing_def Let_def\<close>)
  with 1 inv show ?thesis by (simp add: on_sfu_publication_updates_def Let_def)
qed

lemma remote_inv_register:
  assumes inv: "remote_inv s"
  shows "remote_inv (register_subscriber_handle h sid s)"
proof (cases "rm_descriptors s sid")
  case (Some d)
  note descs = remote_inv_descs [OF inv] and routes = remote_inv_routes [OF inv]
  show ?thesis
  proof (cases "rd_subscription d")
    case Sub_None
    with inv Some show ?thesis by (simp add: register_subscriber_handle_def)
  next
    case (Sub_Active h' k)
    have "remote_descs_ok (rm_sids s) (length (rm_published s)) (map task_key (rm_tasks s))
        ((rm_descriptors s)(sid \<mapsto> d\<lparr>rd_subscription := Sub_Active h k\<rparr>))"
    proof (rule remote_descs_ok_subscription [OF descs Some])
      show "subscription_ok (map task_key (rm_tasks s)) d (Sub_Active h k)"
        using remote_descs_okD(4) [OF descs Some] by (simp add: Sub_Active)
      fix h2 k2 sid' d' h3
      assume "Sub_Active h k = Sub_Active h2 k2" "rm_descriptors s sid' = Some d'"
        "rd_subscription d' = Sub_Active h3 k2"
      with descs Some Sub_Active show "sid' = sid" unfolding remote_descs_ok_def by blast
    qed
    moreover have "routes_ok (((rm_sub_handles s)(h' := None))(h \<mapsto> sid))
        ((rm_descriptors s)(sid \<mapsto> d\<lparr>rd_subscription := Sub_Active h k\<rparr>))"
      by (rule routes_ok_insert [OF routes_ok_remove [OF routes Some Sub_Active]]) simp
    ultimately show ?thesis
      using inv Some Sub_Active
      by (simp add: register_subscriber_handle_def Let_def remote_inv_def set_descriptor_def)
  next
    case (Sub_Pending txs cap)
    let ?k = "length (rm_tasks s)"
    let ?task = "\<lparr>rk_info = rd_info d, rk_pipeline = remote_pipeline_new (rd_publisher_identity d)
          (if ti_uses_e2ee (rd_info d) then rm_decryption_provider s else None),
        rk_published_rx = rd_published_tx d, rk_packet_rx = [],
        rk_receivers = 0, rk_frames = [], rk_closing = False, rk_done = False\<rparr>"
    let ?s = "s\<lparr>rm_tasks := rm_tasks s @ [?task],
        rm_descriptors := (rm_descriptors s)(sid \<mapsto> d\<lparr>rd_subscription := Sub_Active h ?k\<rparr>),
        rm_sub_handles := (rm_sub_handles s)(h \<mapsto> sid)\<rparr>"
    have key: "task_key ?task = (rd_info d, rd_published_tx d, rd_publisher_identity d)"
      by (simp add: task_key_def remote_pipeline_new_def)
    have grown: "remote_descs_ok (rm_sids s) (length (rm_published s)) (map task_key (rm_tasks s) @ [task_key ?task])
        (rm_descriptors s)"
      using remote_descs_ok_grow [OF descs order_refl, of "[]" "[task_key ?task]"] by simp
    have "remote_descs_ok (rm_sids s) (length (rm_published s)) (map task_key (rm_tasks s) @ [task_key ?task])
        ((rm_descriptors s)(sid \<mapsto> d\<lparr>rd_subscription := Sub_Active h ?k\<rparr>))"
    proof (rule remote_descs_ok_subscription [OF grown Some])
      show "subscription_ok (map task_key (rm_tasks s) @ [task_key ?task]) d (Sub_Active h ?k)"
        by (simp add: nth_append key)
      fix h2 k2 sid' d' h3
      assume "Sub_Active h ?k = Sub_Active h2 k2" "rm_descriptors s sid' = Some d'"
        "rd_subscription d' = Sub_Active h3 k2"
      with remote_inv_active [OF inv] show "sid' = sid" by fastforce
    qed
    moreover have "routes_ok ((rm_sub_handles s)(h \<mapsto> sid))
        ((rm_descriptors s)(sid \<mapsto> d\<lparr>rd_subscription := Sub_Active h ?k\<rparr>))"
      by (rule routes_ok_insert [OF routes_ok_inactive(2) [OF routes]]) (use Some Sub_Pending in auto)
    ultimately have base: "remote_inv ?s"
      using inv by (simp add: remote_inv_def)
    have "remote_inv (fold (answer_receiver ?k) txs ?s) \<and> ?k < length (rm_tasks (fold (answer_receiver ?k) txs ?s))"
      by (rule fold_invariant [where Q = "\<lambda>_. True"
            and P = "\<lambda>s'. remote_inv s' \<and> ?k < length (rm_tasks s')"])
        (use base in \<open>auto simp: remote_inv_answer_receiver\<close>)
    with Some Sub_Pending show ?thesis
      by (simp add: register_subscriber_handle_def Let_def set_descriptor_def)
  qed
qed (use inv in \<open>simp add: register_subscriber_handle_def\<close>)

lemma remote_inv_handles: "remote_inv s \<Longrightarrow> remote_inv (on_sfu_subscriber_handles mapping hs s)"
  unfolding on_sfu_subscriber_handles_def
  by (rule fold_invariant [where Q = "\<lambda>_. True" and P = remote_inv])
    (auto simp: remote_inv_register split: option.split)

lemma remote_inv_packet: "remote_inv s \<Longrightarrow> remote_inv (on_packet_received raw s)"
  using remote_inv_active [of s]
  by (auto simp: on_packet_received_def Let_def task_key_def intro!: remote_inv_set_task
      split: rust.split option.split subscription_state.split)

lemma remote_inv_resend: "remote_inv s \<Longrightarrow> remote_inv (on_resend_subscription_updates sids s)"
  unfolding on_resend_subscription_updates_def
  by (rule fold_invariant [where Q = "\<lambda>_. True" and P = remote_inv]) auto

lemma remote_inv_enqueue:
  "remote_inv s \<Longrightarrow> remote_event_ok (length (rm_sids s)) ev \<Longrightarrow> remote_inv (remote_enqueue ev s)"
  by (auto simp: remote_enqueue_def remote_try_send_in_def remote_inv_def)

lemma remote_inv_receive: "remote_inv s \<Longrightarrow> remote_inv (remote_receive ord s)"
proof (cases "rm_event_in s")
  case (Cons ev rest)
  assume inv: "remote_inv s"
  have inv': "remote_inv (s\<lparr>rm_event_in := rest\<rparr>)" and ev: "remote_event_ok (length (rm_sids s)) ev"
    using inv Cons by (auto simp: remote_inv_def)
  have "remote_inv (handle_remote_input ev ord (s\<lparr>rm_event_in := rest\<rparr>))"
  proof (cases ev)
    case (SfuPublicationUpdates updates)
    have "info_ok (rm_sids s) info" if "info \<in> set (updated_infos updates i)" for i info
      using that ev SfuPublicationUpdates
      by (cases "updates i") (auto simp: remote_event_ok_def updated_infos_def info_ok_def)
    with SfuPublicationUpdates inv' show ?thesis by (simp add: remote_inv_updates)
  qed (use inv' in \<open>simp_all add: remote_inv_subscribe remote_inv_unsubscribe remote_inv_handles
        remote_inv_packet remote_inv_resend\<close>)
  with Cons show ?thesis by (simp add: remote_receive_def)
qed (simp add: remote_receive_def)

lemma process_packet_identity:
  "process_packet p pl = (r, pl') \<Longrightarrow> rp_publisher_identity pl' = rp_publisher_identity pl
     \<and> rp_e2ee_provider pl' = rp_e2ee_provider pl"
  by (auto simp: process_packet_def depacketize_def Let_def split_beta split: option.splits)

lemma remote_inv_task_receive:
  assumes "remote_inv s" and "k < length (rm_tasks s)"
  shows "remote_inv (task_receive k p s)"
proof -
  obtain r pl where p: "process_packet p (rk_pipeline (rm_tasks s ! k)) = (r, pl)" by fastforce
  show ?thesis
    using assms remote_inv_queue [OF assms] process_packet_identity [OF p]
    by (cases r) (auto simp: task_receive_def p Let_def task_key_def intro!: remote_inv_set_task)
qed

lemma remote_inv_poll:
  assumes "remote_inv s" and "k < length (rm_tasks s)"
  shows "remote_inv (poll_remote_task k s)"
proof -
  let ?t = "rm_tasks s ! k"
  note queue = remote_inv_queue [OF assms]
  have task: "remote_inv (set_task k t s')"
    if "remote_inv s'" "rm_tasks s' = rm_tasks s" "task_key t = task_key ?t" "rk_packet_rx t = rk_packet_rx ?t" for t s'
    using that assms(2) queue by (intro remote_inv_set_task) simp_all
  have sent: "remote_inv s' \<and> rm_tasks s' = rm_tasks s"
    if "remote_try_send_in (UnsubscribeRequest sid) s = Some s'" for sid s'
    using that assms(1) by (auto simp: remote_try_send_in_def remote_inv_def remote_event_ok_def split: if_splits)
  have pop: "remote_inv (task_receive k p (set_task k (?t\<lparr>rk_packet_rx := rest\<rparr>) s))"
    if "rk_packet_rx ?t = p # rest" for p rest
    using that assms queue
    by (intro remote_inv_task_receive remote_inv_set_task) (simp_all add: task_key_def set_task_def)
  show ?thesis
    using assms(1) sent pop
    by (auto simp: poll_remote_task_def Let_def task_key_def intro!: task
        split: option.split list.split)
qed

lemma remote_inv_drop: "remote_inv s \<Longrightarrow> k < length (rm_tasks s) \<Longrightarrow> remote_inv (drop_receiver k s)"
  using remote_inv_queue [of s k]
  by (auto simp: drop_receiver_def Let_def task_key_def intro!: remote_inv_set_task)

interpretation rm: guarded_machine remote_step remote_step_ok remote_inv
proof
  fix s e assume inv: "remote_inv s" and ok: "remote_step_ok s e"
  show "remote_inv (remote_step s e)"
  proof (cases e)
    case (Signal_Updates ps me)
    obtain r \<sigma> ps' where c: "collect_updates (Some me) ps Map.empty (rm_sids s) = (r, \<sigma>, ps')"
      by (metis prod.exhaust)
    obtain \<tau> where \<tau>: "\<sigma> = rm_sids s @ \<tau>" using collect_updates_store [of "Some me" ps Map.empty "rm_sids s"] c by auto
    have inv': "remote_inv (s\<lparr>rm_sids := \<sigma>\<rparr>)"
      using inv remote_descs_ok_grow [OF remote_inv_descs [OF inv] order_refl, of \<tau> "[]"]
      by (auto simp: remote_inv_def remote_event_ok_def \<tau>) (metis trans_less_add1)
    show ?thesis
    proof (cases r)
      case (Ok m)
      from collect_updates_Ok [OF c [unfolded Ok]]
      have "remote_event_ok (length \<sigma>) (SfuPublicationUpdates m)"
        by (auto simp: remote_event_ok_def list_all_iff info_wf_def info_ok_def)
      with inv' show ?thesis
        by (simp add: Signal_Updates event_from_participant_update_def event_from_participant_info_def c Ok
            remote_inv_enqueue)
    qed (use inv' in \<open>simp_all add: Signal_Updates event_from_participant_update_def
          event_from_participant_info_def c\<close>)
  next
    case (Signal_Handles hs)
    with inv show ?thesis
      by (auto simp: subscriber_handles_try_from_def map_ok_eq_Ok remote_event_ok_def
          intro!: remote_inv_enqueue split: rust.split)
  qed (use inv ok in \<open>auto simp: remote_event_ok_def
        intro: remote_inv_enqueue remote_inv_receive remote_inv_poll remote_inv_drop\<close>)
qed

section \<open>Routing\<close>

text \<open>
  C4. Packets reach only the track they belong to. In every state the manager can reach, a
  received packet either changes nothing or is appended to the bounded queue of exactly one
  task: the task made for the track whose active subscription has the packet's handle.
\<close>

theorem packet_routed_to_its_track:
  assumes "run_ok remote_step remote_step_ok (remote_manager_new provider) es"
    and "on_packet_received raw (foldl remote_step (remote_manager_new provider) es)
      \<noteq> foldl remote_step (remote_manager_new provider) es"
  shows "let s = foldl remote_step (remote_manager_new provider) es in
    \<exists>p sid d k. packet_deserialize raw = Ok p \<and> rm_descriptors s sid = Some d
      \<and> rd_subscription d = Sub_Active (track_handle (pkt_header p)) k
      \<and> k < length (rm_tasks s) \<and> rk_info (rm_tasks s ! k) = rd_info d
      \<and> length (rk_packet_rx (rm_tasks s ! k)) < 16
      \<and> on_packet_received raw s =
          s\<lparr>rm_tasks := (rm_tasks s)[k := (rm_tasks s ! k)\<lparr>rk_packet_rx := rk_packet_rx (rm_tasks s ! k) @ [p]\<rparr>]\<rparr>"
proof -
  define s where "s = foldl remote_step (remote_manager_new provider) es"
  have inv: "remote_inv s" unfolding s_def by (rule rm.grun_inv [OF remote_inv_new assms(1)])
  have changed: "on_packet_received raw s \<noteq> s" using assms(2) unfolding s_def .
  then obtain p where p: "packet_deserialize raw = Ok p"
    by (auto simp: on_packet_received_def split: rust.splits)
  with changed obtain sid where r: "rm_sub_handles s (track_handle (pkt_header p)) = Some sid"
    by (auto simp: on_packet_received_def split: option.splits)
  with remote_inv_routes [OF inv] obtain d k where
    d: "rm_descriptors s sid = Some d" "rd_subscription d = Sub_Active (track_handle (pkt_header p)) k"
    unfolding routes_ok_def by blast
  from remote_inv_active [OF inv d] have "k < length (rm_tasks s)" "rk_info (rm_tasks s ! k) = rd_info d"
    by (simp_all add: task_key_def)
  with p r d changed show ?thesis
    unfolding s_def [symmetric] Let_def
    by (intro exI [of _ p] exI [of _ sid] exI [of _ d] exI [of _ k])
      (auto simp: on_packet_received_def set_task_def PACKET_BUFFER_COUNT_def Let_def split: if_splits)
qed

text \<open>
  Exchanging two handles cuts off a track. When a message assigns to two active
  subscriptions each other's handle, the second assignment removes the route that the first
  one has just made: the first track stays active under a handle that no packet is routed by.
\<close>

lemma exchanged_handles_lose_route:
  assumes "rm_descriptors s sid1 = Some d1" and "rd_subscription d1 = Sub_Active h1 k1"
    and "rm_descriptors s sid2 = Some d2" and "rd_subscription d2 = Sub_Active h2 k2"
    and "sid1 \<noteq> sid2" and "h1 \<noteq> h2"
  shows "let s' = on_sfu_subscriber_handles [h2 \<mapsto> sid1, h1 \<mapsto> sid2] [h2, h1] s in
    rm_descriptors s' sid1 = Some (d1\<lparr>rd_subscription := Sub_Active h2 k1\<rparr>)
    \<and> rm_sub_handles s' h2 = None \<and> rm_sub_handles s' h1 = Some sid2"
  using assms
  by (simp add: on_sfu_subscriber_handles_def register_subscriber_handle_def set_descriptor_def Let_def)

section \<open>Subscriptions\<close>

lemma pending_subscribes:
  "rm_descriptors s sid = Some d \<Longrightarrow> rd_subscription d = Sub_Pending us cap \<Longrightarrow>
   fold (\<lambda>(u, options). on_subscribe_request sid options u) reqs s =
     s\<lparr>rm_descriptors := (rm_descriptors s)(sid \<mapsto> d\<lparr>rd_subscription := Sub_Pending (us @ map fst reqs) cap\<rparr>)\<rparr>"
proof (induction reqs arbitrary: s d us)
  case Nil
  then show ?case by (cases d) (simp add: fun_upd_idem)
next
  case (Cons x reqs)
  obtain u options where x: "x = (u, options)" by fastforce
  let ?d = "d\<lparr>rd_subscription := Sub_Pending (us @ [u]) cap\<rparr>"
  let ?s = "s\<lparr>rm_descriptors := (rm_descriptors s)(sid \<mapsto> ?d)\<rparr>"
  have "on_subscribe_request sid options u s = ?s"
    using Cons.prems by (simp add: on_subscribe_request_def set_descriptor_def)
  with Cons.IH [of ?s ?d "us @ [u]"] show ?case by (simp add: x fun_upd_def cong: if_cong)
qed

lemma answer_receivers:
  "k < length (rm_tasks s) \<Longrightarrow>
   rm_replies (fold (answer_receiver k) us s) =
     rm_replies s @ map (\<lambda>u. (u, Inr k)) (filter (\<lambda>u. u \<notin> set (rm_gone s)) us)
   \<and> rk_receivers (rm_tasks (fold (answer_receiver k) us s) ! k) =
     rk_receivers (rm_tasks s ! k) + length (filter (\<lambda>u. u \<notin> set (rm_gone s)) us)
   \<and> rm_event_out (fold (answer_receiver k) us s) = rm_event_out s
   \<and> rm_sub_handles (fold (answer_receiver k) us s) = rm_sub_handles s
   \<and> length (rm_tasks (fold (answer_receiver k) us s)) = length (rm_tasks s)"
proof (induction us arbitrary: s)
  case (Cons u us)
  have "rm_replies (answer_receiver k u s) =
      (if u \<in> set (rm_gone s) then rm_replies s else rm_replies s @ [(u, Inr k)])"
    and "rk_receivers (rm_tasks (answer_receiver k u s) ! k) =
      rk_receivers (rm_tasks s ! k) + (if u \<in> set (rm_gone s) then 0 else 1)"
    using Cons.prems by (simp_all add: answer_receiver_def set_task_def Let_def)
  with Cons.IH [of "answer_receiver k u s"] Cons.prems show ?case by simp
qed simp

text \<open>
  One subscription serves all subscribers. However many requests arrive for a track before
  its handle is assigned, the SFU is asked once; the assignment starts one task, and every
  requester that still waits gets a receiver of that task's channel, and packets with the
  handle are routed to the track.
\<close>

lemma one_subscription_for_all:
  assumes "rm_descriptors s sid = Some d" and "rd_subscription d = Sub_None" and "reqs \<noteq> []"
  shows "let s1 = fold (\<lambda>(u, options). on_subscribe_request sid options u) reqs s;
        s2 = register_subscriber_handle h sid s1; k = length (rm_tasks s);
        waiting = filter (\<lambda>u. u \<notin> set (rm_gone s)) (map fst reqs) in
      rm_event_out s2 = rm_event_out s @ [SfuUpdateSubscription sid True]
      \<and> length (rm_tasks s2) = Suc k
      \<and> rm_replies s2 = rm_replies s @ map (\<lambda>u. (u, Inr k)) waiting
      \<and> rk_receivers (rm_tasks s2 ! k) = length waiting
      \<and> rm_sub_handles s2 h = Some sid"
proof -
  obtain u options reqs' where reqs: "reqs = (u, options) # reqs'"
    using assms(3) by (cases reqs) auto
  let ?d = "d\<lparr>rd_subscription := Sub_Pending [u] (buffer_size options)\<rparr>"
  let ?s = "set_descriptor sid ?d (emit (SfuUpdateSubscription sid True) s)"
  let ?us = "map fst reqs"
  have first: "on_subscribe_request sid options u s = ?s"
    using assms(1,2) by (simp add: on_subscribe_request_def)
  have "fold (\<lambda>(u, options). on_subscribe_request sid options u) reqs s =
      ?s\<lparr>rm_descriptors := (rm_descriptors ?s)(sid \<mapsto> ?d\<lparr>rd_subscription := Sub_Pending ([u] @ map fst reqs') (buffer_size options)\<rparr>)\<rparr>"
    using pending_subscribes [of ?s sid ?d "[u]" "buffer_size options" reqs']
    by (simp add: reqs first set_descriptor_def)
  then have s1: "fold (\<lambda>(u, options). on_subscribe_request sid options u) reqs s =
      set_descriptor sid (d\<lparr>rd_subscription := Sub_Pending ?us (buffer_size options)\<rparr>)
        (emit (SfuUpdateSubscription sid True) s)"
    by (simp add: set_descriptor_def emit_def reqs)
  show ?thesis
    by (simp add: s1 register_subscriber_handle_def set_descriptor_def emit_def Let_def
        answer_receivers nth_append)
qed

text \<open>
  A subscriber can be cut off by the departure of the last one. When all receivers were
  dropped, the task asks the manager to unsubscribe; a new subscriber whose request the manager
  handles before that is told it is subscribed, and then loses the subscription: its track is
  unsubscribed, the route is gone, and the SFU is told to stop sending.
\<close>

lemma late_subscriber_cut_off:
  assumes "rm_descriptors s sid = Some d" and "rd_subscription d = Sub_Active h k"
    and "user \<notin> set (rm_gone s)"
  shows "let s' = on_unsubscribe_request sid (on_subscribe_request sid options user s) in
    (user, Inr k) \<in> set (rm_replies s')
    \<and> rm_descriptors s' sid = Some (d\<lparr>rd_subscription := Sub_None\<rparr>)
    \<and> rm_sub_handles s' h = None
    \<and> rm_event_out s' = rm_event_out s @ [SfuUpdateSubscription sid False]"
  using assms
  by (simp add: on_unsubscribe_request_def on_subscribe_request_def answer_receiver_def set_task_def
      set_descriptor_def emit_def Let_def)

text \<open>
  Without a decryption provider, ciphertext is delivered as data. A subscription to a track
  that uses encryption starts also when the manager has no provider; its task then hands out
  every reassembled payload as it came.
\<close>

lemma missing_provider_delivers_ciphertext:
  assumes "rm_descriptors s sid = Some d" and "rd_subscription d = Sub_Pending us cap"
    and "rm_decryption_provider s = None"
  shows "let s' = register_subscriber_handle h sid s in
    decrypt_if_needed (rk_pipeline (rm_tasks s' ! length (rm_tasks s))) f = Some f"
proof -
  have keep: "rk_pipeline (rm_tasks (fold (answer_receiver k) us s0) ! k) = rk_pipeline (rm_tasks s0 ! k)"
    if "k < length (rm_tasks s0)" for k s0
    using that
  proof (induction us arbitrary: s0)
    case (Cons u us)
    have "rk_pipeline (rm_tasks (answer_receiver k u s0) ! k) = rk_pipeline (rm_tasks s0 ! k)"
      using Cons.prems by (simp add: answer_receiver_def set_task_def Let_def)
    with Cons show ?case by simp
  qed simp
  show ?thesis
    using assms
    by (simp add: register_subscriber_handle_def set_descriptor_def Let_def keep
        remote_pipeline_new_def decrypt_if_needed_def)
qed

section \<open>Publication updates\<close>

definition publishes :: "string \<Rightarrow> remote_descriptor \<Rightarrow> bool" where
  "publishes p d \<longleftrightarrow> rd_publisher_identity d = p \<and> rd_subscription d = Sub_None"

lemma publish_tracks_sids [simp]: "rm_sids (publish_tracks p infos s) = rm_sids s"
  by (induction infos arbitrary: s) simp_all

lemma handle_track_published_descriptors:
  "rm_descriptors (handle_track_published p info s) sid =
     (if rm_descriptors s sid = None \<and> sid = info_sid (rm_sids s) info
      then Some \<lparr>rd_info = info, rd_publisher_identity = p,
          rd_published_tx = length (rm_published s), rd_subscription = Sub_None\<rparr>
      else rm_descriptors s sid)"
  by (auto simp: handle_track_published_def Let_def set_descriptor_def emit_def)

lemma publish_tracks_keep:
  "rm_descriptors s sid = Some d \<Longrightarrow> rm_descriptors (publish_tracks p infos s) sid = Some d"
  by (induction infos arbitrary: s) (simp_all add: handle_track_published_descriptors)

lemma publish_tracks_new:
  "rm_descriptors s sid = None \<Longrightarrow>
   if sid \<in> sids_of (rm_sids s) infos
   then \<exists>d. rm_descriptors (publish_tracks p infos s) sid = Some d \<and> publishes p d
   else rm_descriptors (publish_tracks p infos s) sid = None"
proof (induction infos arbitrary: s)
  case (Cons info infos)
  show ?case
  proof (cases "sid = info_sid (rm_sids s) info")
    case True
    with Cons.prems show ?thesis
      using publish_tracks_keep [of "handle_track_published p info s" sid _ p infos]
      by (simp add: handle_track_published_descriptors sids_of_def publishes_def)
  next
    case False
    let ?s = "if rm_descriptors s (info_sid (rm_sids s) info) \<noteq> None then s else handle_track_published p info s"
    have "rm_descriptors ?s sid = None" "rm_sids ?s = rm_sids s"
      using Cons.prems False by (simp_all add: handle_track_published_descriptors)
    with Cons.IH [of ?s] False show ?thesis by (simp add: sids_of_def split: if_splits)
  qed
qed (simp add: sids_of_def)

definition listed_by :: "sid_store \<Rightarrow> (string \<rightharpoonup> track_info list) \<Rightarrow> data_track_sid \<Rightarrow> string \<Rightarrow> bool" where
  "listed_by \<sigma> updates sid i \<longleftrightarrow> sid \<in> sids_of \<sigma> (updated_infos updates i)"

abbreviation publish_all :: "(string \<rightharpoonup> track_info list) \<Rightarrow> string list \<Rightarrow> remote_manager \<Rightarrow> remote_manager" where
  "publish_all updates ids s \<equiv> fold (\<lambda>i. publish_tracks i (updated_infos updates i)) ids s"

lemma publish_all_sids [simp]: "rm_sids (publish_all updates ids s) = rm_sids s"
  by (induction ids arbitrary: s) simp_all

lemma publish_all_keep:
  "rm_descriptors s sid = Some d \<Longrightarrow> rm_descriptors (publish_all updates ids s) sid = Some d"
  by (induction ids arbitrary: s) (simp_all add: publish_tracks_keep)

lemma publish_all_new:
  "rm_descriptors s sid = None \<Longrightarrow>
   if \<exists>i \<in> set ids. listed_by (rm_sids s) updates sid i
   then \<exists>i d. listed_by (rm_sids s) updates sid i \<and> rm_descriptors (publish_all updates ids s) sid = Some d
      \<and> publishes i d
   else rm_descriptors (publish_all updates ids s) sid = None"
proof (induction ids arbitrary: s)
  case (Cons i ids)
  show ?case
  proof (cases "listed_by (rm_sids s) updates sid i")
    case True
    with publish_tracks_new [OF Cons.prems, of "updated_infos updates i" i]
    obtain d where "rm_descriptors (publish_tracks i (updated_infos updates i) s) sid = Some d" "publishes i d"
      by (auto simp: listed_by_def)
    with True publish_all_keep [of "publish_tracks i (updated_infos updates i) s"] show ?thesis by auto
  next
    case False
    with publish_tracks_new [OF Cons.prems, of "updated_infos updates i" i]
    have "rm_descriptors (publish_tracks i (updated_infos updates i) s) sid = None" by (simp add: listed_by_def)
    from Cons.IH [OF this] False show ?thesis by (simp split: if_splits)
  qed
qed simp

lemma handle_track_unpublished_descriptors:
  "rm_descriptors (handle_track_unpublished sid' s) = (rm_descriptors s)(sid' := None)"
  by (auto simp: handle_track_unpublished_def Let_def emit_def fun_eq_iff
      split: option.split subscription_state.split)

lemma unpublish_fold_descriptors:
  "rm_descriptors (fold handle_track_unpublished us s) sid =
     (if sid \<in> set us then None else rm_descriptors s sid)"
  by (induction us arbitrary: s) (simp_all add: handle_track_unpublished_descriptors)

lemma unpublish_missing_descriptors:
  "rm_descriptors (unpublish_missing p S sids s) sid =
     (case rm_descriptors s sid of
        None \<Rightarrow> None
      | Some d \<Rightarrow> if sid \<in> set sids \<and> rd_publisher_identity d = p \<and> sid \<notin> S then None else Some d)"
  by (simp add: unpublish_missing_def unpublish_fold_descriptors split: option.split)

lemma unpublish_missing_sids [simp]: "rm_sids (unpublish_missing p S sids s) = rm_sids s"
proof -
  have "rm_sids (fold handle_track_unpublished us s) = rm_sids s" for us
    by (induction us arbitrary: s) simp_all
  then show ?thesis by (simp add: unpublish_missing_def)
qed

lemma unpublish_all_descriptors:
  assumes "sid \<in> set sids"
  shows "rm_descriptors (fold (\<lambda>i s. unpublish_missing i (sids_of (rm_sids s) (updated_infos updates i)) sids s) ids s) sid =
     (case rm_descriptors s sid of
        None \<Rightarrow> None
      | Some d \<Rightarrow> if rd_publisher_identity d \<in> set ids \<and> \<not> listed_by (rm_sids s) updates sid (rd_publisher_identity d)
          then None else Some d)"
  using assms
  by (induction ids arbitrary: s)
     (auto simp: unpublish_missing_descriptors listed_by_def split: option.split)

text \<open>
  C29. A publication update synchronizes the tracks with the SFU, in whatever order the maps
  are iterated. A known track stays as it is, subscription included, unless its publisher is in
  the update and no longer lists it; then it is removed. A new track gets an unsubscribed
  descriptor of a publisher that lists it, and no other descriptor appears.
\<close>

theorem publication_updates_synchronize:
  assumes "set ids = dom updates" and "set ids' = dom updates"
    and "dom (rm_descriptors s) \<union> (\<Union>i. sids_of (rm_sids s) (updated_infos updates i)) \<subseteq> set sids"
  shows "case rm_descriptors s sid of
      Some d \<Rightarrow> rm_descriptors (on_sfu_publication_updates updates ids ids' sids s) sid =
        (if updates (rd_publisher_identity d) \<noteq> None
            \<and> \<not> listed_by (rm_sids s) updates sid (rd_publisher_identity d) then None else Some d)
    | None \<Rightarrow> if \<exists>i. listed_by (rm_sids s) updates sid i
        then \<exists>i d. listed_by (rm_sids s) updates sid i \<and> publishes i d
          \<and> rm_descriptors (on_sfu_publication_updates updates ids ids' sids s) sid = Some d
        else rm_descriptors (on_sfu_publication_updates updates ids ids' sids s) sid = None"
proof -
  have none: "updates i = None" if "ids = []" for i
    using that assms(1) by auto
  have unlisted: "\<not> listed_by (rm_sids s) updates sid i" if "updates i = None" for i
    using that by (simp add: listed_by_def updated_infos_def sids_of_def)
  have mem: "i \<in> set ids \<longleftrightarrow> updates i \<noteq> None" "i \<in> set ids' \<longleftrightarrow> updates i \<noteq> None" for i
    using assms(1,2) by auto
  let ?s' = "on_sfu_publication_updates updates ids ids' sids s"
  let ?p = "publish_all updates ids s"
  have known: "rm_descriptors ?s' sid = (case rm_descriptors ?p sid of
        None \<Rightarrow> None
      | Some d \<Rightarrow> if rd_publisher_identity d \<in> set ids' \<and> \<not> listed_by (rm_sids s) updates sid (rd_publisher_identity d)
          then None else Some d)" if "sid \<in> set sids"
    using that none mem(2)
    by (simp add: on_sfu_publication_updates_def Let_def unpublish_all_descriptors split: option.split)
  show ?thesis
  proof (cases "rm_descriptors s sid")
    case (Some d)
    with assms(3) have "sid \<in> set sids" by auto
    with Some known publish_all_keep [OF Some, of updates ids] mem(2) show ?thesis by simp
  next
    case None
    show ?thesis
    proof (cases "\<exists>i. listed_by (rm_sids s) updates sid i")
      case True
      with unlisted mem(1) have "\<exists>i \<in> set ids. listed_by (rm_sids s) updates sid i" by blast
      with publish_all_new [OF None, of ids updates] obtain i d where
        "listed_by (rm_sids s) updates sid i" "rm_descriptors ?p sid = Some d" "publishes i d" by auto
      moreover from this(1) assms(3) have "sid \<in> set sids" unfolding listed_by_def by blast
      ultimately show ?thesis using None known by (auto simp: publishes_def)
    next
      case False
      with publish_all_new [OF None, of ids updates] have "rm_descriptors ?p sid = None" by auto
      moreover have "rm_descriptors (fold (\<lambda>i s. unpublish_missing i (sids_of (rm_sids s)
          (updated_infos updates i)) sids s) us s0) sid = None" if "rm_descriptors s0 sid = None" for us s0
        using that by (induction us arbitrary: s0) (simp_all add: unpublish_missing_descriptors)
      ultimately show ?thesis
        using None False by (simp add: on_sfu_publication_updates_def Let_def)
    qed
  qed
qed

section \<open>A concrete run\<close>

definition example_participants :: "participant_info list" where
  "example_participants = [\<lparr>pi_identity = ''bob'', pi_data_tracks =
     [\<lparr>pti_pub_handle = 7, pti_sid = ''DTR_ab'', pti_name = ''pose'', pti_encryption = 0\<rparr>]\<rparr>]"

definition example_remote_info :: track_info where
  "example_remote_info = \<lparr>ti_sid = 0, ti_pub_handle = Handle 7, ti_name = ''pose'', ti_uses_e2ee = False\<rparr>"

definition example_orders :: orders where
  "example_orders = \<lparr>ord_ids = [''bob''], ord_ids' = [''bob''], ord_sids = [Sid ''DTR_ab''],
     ord_handles = [Handle 5]\<rparr>"

definition example_remote_run :: "remote_move list" where
  "example_remote_run =
     [Signal_Updates example_participants ''me'', Remote_Receive example_orders,
      User_Subscribe (Sid ''DTR_ab'') subscribe_options_new 3, Remote_Receive example_orders,
      Signal_Handles [(5, ''DTR_ab'')], Remote_Receive example_orders]"

definition example_raw :: bytes where
  "example_raw = [0, 0, 0, 5, 0, 0, 0, 0, 0, 0, 0, 0, 42]"

lemma example_raw_packet: "\<exists>p. packet_deserialize example_raw = Ok p \<and> track_handle (pkt_header p) = Handle 5"
  by (simp add: packet_deserialize_cases example_raw_def version_of_def ext_flag_of_def
      header_of_parts_def Let_def of_be_def)

lemma example_remote_event:
  "event_from_participant_update example_participants ''me'' [] =
     (Ok (SfuPublicationUpdates [''bob'' \<mapsto> [example_remote_info]]), [Sid ''DTR_ab''],
      [\<lparr>pi_identity = ''bob'', pi_data_tracks = []\<rparr>])"
  and example_handles_event:
  "subscriber_handles_try_from [(5, ''DTR_ab'')] = Ok (SfuSubscriberHandles [Handle 5 \<mapsto> Sid ''DTR_ab''])"
proof -
  have h: "handle_try_from_u32 7 = Ok (Handle 7)" "handle_try_from_u32 5 = Ok (Handle 5)"
    by (simp_all add: handle_try_from_u32_Ok_iff)
  show "event_from_participant_update example_participants ''me'' [] =
     (Ok (SfuPublicationUpdates [''bob'' \<mapsto> [example_remote_info]]), [Sid ''DTR_ab''],
      [\<lparr>pi_identity = ''bob'', pi_data_tracks = []\<rparr>])"
    by (simp add: example_participants_def example_remote_info_def h(1)
        event_from_participant_update_def event_from_participant_info_def Let_def
        extract_track_info_def track_info_try_from_def encryption_of_int_def sid_try_from_def
        starts_with_def SID_PREFIX_def sbind_def ret_def)
  show "subscriber_handles_try_from [(5, ''DTR_ab'')] = Ok (SfuSubscriberHandles [Handle 5 \<mapsto> Sid ''DTR_ab''])"
    by (simp add: subscriber_handles_try_from_def h(2) sid_try_from_def starts_with_def SID_PREFIX_def)
qed

definition example_descriptor :: remote_descriptor where
  "example_descriptor = \<lparr>rd_info = example_remote_info, rd_publisher_identity = ''bob'',
     rd_published_tx = 0, rd_subscription = Sub_Active (Handle 5) 0\<rparr>"

definition example_task :: remote_task where
  "example_task = \<lparr>rk_info = example_remote_info, rk_pipeline = remote_pipeline_new ''bob'' None,
     rk_published_rx = 0, rk_packet_rx = [], rk_receivers = 1, rk_frames = [],
     rk_closing = False, rk_done = False\<rparr>"

definition example_subscribed :: remote_manager where
  "example_subscribed =
     \<lparr>rm_decryption_provider = None, rm_event_in = [],
      rm_event_out = [TrackPublishedOut \<lparr>rt_info = example_remote_info, rt_published_rx = 0,
          rt_publisher_identity = ''bob''\<rparr>, SfuUpdateSubscription (Sid ''DTR_ab'') True],
      rm_descriptors = [Sid ''DTR_ab'' \<mapsto> example_descriptor],
      rm_sub_handles = [Handle 5 \<mapsto> Sid ''DTR_ab''], rm_sids = [Sid ''DTR_ab''], rm_published = [True],
      rm_tasks = [example_task], rm_replies = [(3, Inr 0)], rm_gone = []\<rparr>"

lemma example_published_state:
  "foldl remote_step (remote_manager_new None)
      [Signal_Updates example_participants ''me'', Remote_Receive example_orders] =
    (remote_manager_new None)\<lparr>rm_sids := [Sid ''DTR_ab''], rm_published := [True],
      rm_event_out := [TrackPublishedOut \<lparr>rt_info = example_remote_info, rt_published_rx = 0,
          rt_publisher_identity = ''bob''\<rparr>],
      rm_descriptors := [Sid ''DTR_ab'' \<mapsto> example_descriptor\<lparr>rd_subscription := Sub_None\<rparr>]\<rparr>"
  by (simp add: example_remote_event remote_enqueue_def remote_try_send_in_def REMOTE_EVENT_BUFFER_COUNT_def
      remote_manager_new_def remote_receive_def on_sfu_publication_updates_def example_orders_def
      updated_infos_def handle_track_published_def Let_def emit_def set_descriptor_def
      unpublish_missing_def sids_of_def info_sid_def example_descriptor_def)
     (simp add: example_remote_info_def)

lemma example_remote_run_state:
  "foldl remote_step (remote_manager_new None) example_remote_run = example_subscribed"
proof -
  have "foldl remote_step (remote_manager_new None) example_remote_run =
      foldl remote_step (foldl remote_step (remote_manager_new None)
        [Signal_Updates example_participants ''me'', Remote_Receive example_orders])
        (drop 2 example_remote_run)"
    by (simp add: example_remote_run_def)
  also have "\<dots> = example_subscribed"
    unfolding example_published_state
    by (simp add: example_remote_run_def remote_enqueue_def remote_try_send_in_def REMOTE_EVENT_BUFFER_COUNT_def
        remote_manager_new_def remote_receive_def on_subscribe_request_def emit_def set_descriptor_def
        example_handles_event on_sfu_subscriber_handles_def example_orders_def register_subscriber_handle_def
        example_subscribed_def Let_def answer_receiver_def set_task_def example_descriptor_def
        example_task_def example_remote_info_def)
  finally show ?thesis .
qed

lemma example_run_ok: "run_ok remote_step remote_step_ok s example_remote_run"
  by (simp add: example_remote_run_def)

theorem packet_routed_to_its_track_witness:
  "\<exists>p sid d k. packet_deserialize example_raw = Ok p \<and> rm_descriptors example_subscribed sid = Some d
     \<and> rd_subscription d = Sub_Active (track_handle (pkt_header p)) k
     \<and> rk_packet_rx (rm_tasks (on_packet_received example_raw example_subscribed) ! k) = [p]"
proof -
  obtain p where p: "packet_deserialize example_raw = Ok p" "track_handle (pkt_header p) = Handle 5"
    using example_raw_packet by blast
  have "rm_tasks (on_packet_received example_raw example_subscribed) \<noteq> rm_tasks example_subscribed"
    by (simp add: on_packet_received_def p example_subscribed_def example_descriptor_def example_task_def
        PACKET_BUFFER_COUNT_def set_task_def)
  then have "on_packet_received example_raw (foldl remote_step (remote_manager_new None) example_remote_run)
      \<noteq> foldl remote_step (remote_manager_new None) example_remote_run"
    unfolding example_remote_run_state by metis
  from packet_routed_to_its_track [OF example_run_ok this, unfolded example_remote_run_state Let_def]
  obtain q sid d k where q: "packet_deserialize example_raw = Ok q" "rm_descriptors example_subscribed sid = Some d"
      "rd_subscription d = Sub_Active (track_handle (pkt_header q)) k" "k < length (rm_tasks example_subscribed)"
    and e: "on_packet_received example_raw example_subscribed = example_subscribed\<lparr>rm_tasks :=
      (rm_tasks example_subscribed)[k := (rm_tasks example_subscribed ! k)\<lparr>rk_packet_rx :=
        rk_packet_rx (rm_tasks example_subscribed ! k) @ [q]\<rparr>]\<rparr>" by blast
  have "rk_packet_rx (rm_tasks (on_packet_received example_raw example_subscribed) ! k) = [q]"
    unfolding e using q(4) by (simp add: example_subscribed_def example_task_def)
  with q(1-3) show ?thesis by blast
qed

lemma exchanged_handles_lose_route_witness:
  "let s = example_subscribed\<lparr>rm_descriptors := [Sid ''DTR_ab'' \<mapsto> example_descriptor,
         Sid ''DTR_cd'' \<mapsto> example_descriptor\<lparr>rd_subscription := Sub_Active (Handle 6) 1\<rparr>]\<rparr>;
       s' = on_sfu_subscriber_handles [Handle 6 \<mapsto> Sid ''DTR_ab'', Handle 5 \<mapsto> Sid ''DTR_cd'']
         [Handle 6, Handle 5] s
   in rm_sub_handles s' (Handle 6) = None"
  using exchanged_handles_lose_route [of "example_subscribed\<lparr>rm_descriptors := [Sid ''DTR_ab'' \<mapsto> example_descriptor,
         Sid ''DTR_cd'' \<mapsto> example_descriptor\<lparr>rd_subscription := Sub_Active (Handle 6) 1\<rparr>]\<rparr>"
      "Sid ''DTR_ab''" example_descriptor "Handle 5" 0 "Sid ''DTR_cd''"
      "example_descriptor\<lparr>rd_subscription := Sub_Active (Handle 6) 1\<rparr>" "Handle 6" 1]
  by (simp add: example_descriptor_def Let_def del: fun_upd_apply) (simp add: Let_def)

abbreviation example_known :: remote_manager where
  "example_known \<equiv> example_subscribed\<lparr>rm_descriptors :=
     [Sid ''DTR_ab'' \<mapsto> example_descriptor\<lparr>rd_subscription := Sub_None\<rparr>]\<rparr>"

lemma one_subscription_for_all_witness:
  "rm_event_out (register_subscriber_handle (Handle 9) (Sid ''DTR_ab'')
      (fold (\<lambda>(u, options). on_subscribe_request (Sid ''DTR_ab'') options u)
        [(1, subscribe_options_new), (2, subscribe_options_new)] example_known))
   = rm_event_out example_subscribed @ [SfuUpdateSubscription (Sid ''DTR_ab'') True]"
  using one_subscription_for_all [of example_known "Sid ''DTR_ab''"
      "example_descriptor\<lparr>rd_subscription := Sub_None\<rparr>"
      "[(1, subscribe_options_new), (2, subscribe_options_new)]" "Handle 9"]
  by (simp add: Let_def)

lemma late_subscriber_cut_off_witness:
  "let s' = on_unsubscribe_request (Sid ''DTR_ab'')
        (on_subscribe_request (Sid ''DTR_ab'') subscribe_options_new 4 example_subscribed)
   in (4, Inr 0) \<in> set (rm_replies s') \<and> rm_sub_handles s' (Handle 5) = None"
  using late_subscriber_cut_off [of example_subscribed "Sid ''DTR_ab''" example_descriptor "Handle 5" 0 4]
  by (simp add: example_subscribed_def example_descriptor_def Let_def)

lemma missing_provider_delivers_ciphertext_witness:
  "decrypt_if_needed (rk_pipeline (rm_tasks (register_subscriber_handle (Handle 5) (Sid ''DTR_ab'')
      (example_subscribed\<lparr>rm_descriptors := [Sid ''DTR_ab'' \<mapsto>
         example_descriptor\<lparr>rd_info := example_remote_info\<lparr>ti_uses_e2ee := True\<rparr>,
           rd_subscription := Sub_Pending [3] 16\<rparr>]\<rparr>)) ! 1))
     \<lparr>df_payload = [1, 2, 3], df_extensions = extensions_default\<rparr>
   = Some \<lparr>df_payload = [1, 2, 3], df_extensions = extensions_default\<rparr>"
  using missing_provider_delivers_ciphertext [of "example_subscribed\<lparr>rm_descriptors := [Sid ''DTR_ab'' \<mapsto>
         example_descriptor\<lparr>rd_info := example_remote_info\<lparr>ti_uses_e2ee := True\<rparr>,
           rd_subscription := Sub_Pending [3] 16\<rparr>]\<rparr>" "Sid ''DTR_ab''"
      "example_descriptor\<lparr>rd_info := example_remote_info\<lparr>ti_uses_e2ee := True\<rparr>,
           rd_subscription := Sub_Pending [3] 16\<rparr>" "[3]" 16 "Handle 5"
        "\<lparr>df_payload = [1, 2, 3], df_extensions = extensions_default\<rparr>"]
  by (simp add: example_subscribed_def Let_def)

theorem publication_updates_synchronize_witness:
  "rm_descriptors (on_sfu_publication_updates [''bob'' \<mapsto> []] [''bob''] [''bob''] [Sid ''DTR_ab'']
      example_subscribed) (Sid ''DTR_ab'') = None"
proof -
  have no_sids: "sids_of \<sigma> (updated_infos [''bob'' \<mapsto> []] i) = {}" for \<sigma> i
    by (simp add: sids_of_def updated_infos_def)
  then show ?thesis
    using publication_updates_synchronize [of "[''bob'']" "[''bob'' \<mapsto> []]" "[''bob'']" example_subscribed
        "[Sid ''DTR_ab'']" "Sid ''DTR_ab''"]
    by (simp add: listed_by_def no_sids example_subscribed_def example_descriptor_def)
qed

end
