(* ===== verification/Utf8.thy ===== *)
theory Utf8
  imports Prelude
begin

text \<open>
  Text as bytes: which byte sequences \<^verbatim>\<open>String::from_utf8\<close> accepts, and the iterator of
  \<^verbatim>\<open>room/utils/utf8_chunk.rs\<close> that cuts a text into chunks without dividing a character.
\<close>

section \<open>UTF-8\<close>

text \<open>A continuation byte, tested as the source tests it.\<close>

definition cont :: "u8 \<Rightarrow> bool" where
  "cont b \<longleftrightarrow> b AND 0xC0 = 0x80"

text \<open>The bytes of one character (the well-formed sequences of the Unicode standard).\<close>

fun utf8_char :: "bytes \<Rightarrow> bool" where
  "utf8_char [a] \<longleftrightarrow> a < 0x80"
| "utf8_char [a, b] \<longleftrightarrow> 0xC2 \<le> a \<and> a \<le> 0xDF \<and> cont b"
| "utf8_char [a, b, c] \<longleftrightarrow>
     (a = 0xE0 \<and> 0xA0 \<le> b \<and> cont b \<or> 0xE1 \<le> a \<and> a \<le> 0xEF \<and> a \<noteq> 0xED \<and> cont b
      \<or> a = 0xED \<and> b \<le> 0x9F \<and> cont b) \<and> cont c"
| "utf8_char [a, b, c, d] \<longleftrightarrow>
     (a = 0xF0 \<and> 0x90 \<le> b \<and> cont b \<or> 0xF1 \<le> a \<and> a \<le> 0xF3 \<and> cont b
      \<or> a = 0xF4 \<and> b \<le> 0x8F \<and> cont b) \<and> cont c \<and> cont d"
| "utf8_char _ \<longleftrightarrow> False"

definition utf8_width :: "u8 \<Rightarrow> nat" where
  "utf8_width a =
     (if a < 0x80 then 1 else if a < 0xC2 then 0 else if a \<le> 0xDF then 2
      else if a \<le> 0xEF then 3 else if a \<le> 0xF4 then 4 else 0)"

function utf8_valid :: "bytes \<Rightarrow> bool" where
  "utf8_valid bs =
     (if bs = [] then True
      else let w = utf8_width (hd bs)
           in if w = 0 \<or> length bs < w then False
              else utf8_char (take w bs) \<and> utf8_valid (drop w bs))"
  by pat_completeness auto
termination by (relation "measure length") auto

declare utf8_valid.simps [simp del]

lemma cont_iff: "cont b \<longleftrightarrow> 0x80 \<le> b \<and> b < 0xC0"
proof -
  have "\<forall>n \<in> set [0..<256]. ((word_of_nat n :: u8) AND 0xC0 = 0x80) = (0x80 \<le> (word_of_nat n :: u8) \<and> (word_of_nat n :: u8) < 0xC0)"
    by code_simp
  moreover have "unat b \<in> set [0..<256]" using unsigned_less [of b] by simp
  moreover have "word_of_nat (unat b) = b" by simp
  ultimately show ?thesis unfolding cont_def by metis
qed

lemma utf8_char_width:
  assumes "utf8_char cs"
  shows "length cs = utf8_width (hd cs)" and "cs \<noteq> []" and "\<not> cont (hd cs)"
    and "\<forall>b \<in> set (tl cs). cont b" and "length cs \<le> 4"
  using assms
  by (auto elim!: utf8_char.elims simp: utf8_width_def cont_iff word_le_nat_alt word_less_nat_alt)

lemma utf8_valid_Nil [simp]: "utf8_valid []"
  by (simp add: utf8_valid.simps)

lemma utf8_valid_cons:
  assumes "utf8_char cs"
  shows "utf8_valid (cs @ bs) = utf8_valid bs"
  using utf8_char_width [OF assms] assms utf8_valid.simps [of "cs @ bs"]
  by (cases "utf8_width (hd cs)") (simp_all add: Let_def)

lemma utf8_valid_iff: "utf8_valid bs \<longleftrightarrow> (\<exists>css. list_all utf8_char css \<and> bs = concat css)"
proof
  show "utf8_valid bs \<Longrightarrow> \<exists>css. list_all utf8_char css \<and> bs = concat css"
  proof (induction bs rule: utf8_valid.induct)
    case (1 bs)
    show ?case
    proof (cases "bs = []")
      case True
      then show ?thesis by (intro exI [of _ "[]"]) simp
    next
      case False
      define w where "w = utf8_width (hd bs)"
      from 1(2) False have ok: "\<not> (w = 0 \<or> length bs < w)" "utf8_char (take w bs)" "utf8_valid (drop w bs)"
        using utf8_valid.simps [of bs] by (simp_all add: w_def Let_def split: if_splits)
      from 1(1) [OF False w_def ok(1) ok(3)] obtain css where
        "list_all utf8_char css" "drop w bs = concat css" by blast
      with ok(2) show ?thesis
        by (intro exI [of _ "take w bs # css"]) (simp, metis append_take_drop_id)
    qed
  qed
next
  have "list_all utf8_char css \<Longrightarrow> utf8_valid (concat css)" for css
    by (induction css) (simp_all add: utf8_valid_cons)
  then show "\<exists>css. list_all utf8_char css \<and> bs = concat css \<Longrightarrow> utf8_valid bs" by blast
qed

lemma utf8_valid_append: "utf8_valid a \<Longrightarrow> utf8_valid b \<Longrightarrow> utf8_valid (a @ b)"
  unfolding utf8_valid_iff by (metis concat_append list_all_append)

section \<open>Character boundaries\<close>

lemma char_boundary:
  "list_all utf8_char css \<Longrightarrow> k < length (concat css) \<Longrightarrow> \<not> cont (concat css ! k) \<Longrightarrow>
     \<exists>i. take k (concat css) = concat (take i css) \<and> drop k (concat css) = concat (drop i css)"
proof (induction css arbitrary: k)
  case (Cons c css)
  then have c: "utf8_char c" by simp
  show ?case
  proof (cases "k < length c")
    case True
    have "k = 0"
    proof (rule ccontr)
      assume "k \<noteq> 0"
      with True have "(c @ concat css) ! k \<in> set (tl c)"
        by (cases c; cases k) (auto simp: nth_append)
      with utf8_char_width(4) [OF c] Cons.prems(3) show False by auto
    qed
    then show ?thesis by (intro exI [of _ 0]) simp
  next
    case False
    with Cons.prems have "k - length c < length (concat css)" "\<not> cont (concat css ! (k - length c))"
      by (auto simp: nth_append)
    with Cons obtain i where "take (k - length c) (concat css) = concat (take i css)"
        "drop (k - length c) (concat css) = concat (drop i css)" by fastforce
    with False show ?thesis by (intro exI [of _ "Suc i"]) simp
  qed
qed simp

lemma utf8_valid_split:
  assumes "utf8_valid bs" and "k < length bs" and "\<not> cont (bs ! k)"
  shows "utf8_valid (take k bs)" and "utf8_valid (drop k bs)"
proof -
  obtain css where css: "list_all utf8_char css" "bs = concat css"
    using assms(1) by (auto simp: utf8_valid_iff)
  with char_boundary [of css k] assms(2,3) obtain i where
    "take k bs = concat (take i css)" "drop k bs = concat (drop i css)" by auto
  moreover have "list_all utf8_char (take i css)" "list_all utf8_char (drop i css)"
    using css(1) by (auto simp: list_all_iff dest: in_set_takeD in_set_dropD)
  ultimately show "utf8_valid (take k bs)" "utf8_valid (drop k bs)"
    unfolding utf8_valid_iff by blast+
qed

lemma boundary_near:
  assumes "utf8_valid bs" and "k < length bs"
  shows "\<exists>j. j \<le> k \<and> k \<le> j + 3 \<and> \<not> cont (bs ! j)"
proof -
  obtain css where css: "list_all utf8_char css" "bs = concat css"
    using assms(1) by (auto simp: utf8_valid_iff)
  from css(1) assms(2) show ?thesis
    unfolding css(2)
  proof (induction css arbitrary: k)
    case (Cons c css)
    then have c: "utf8_char c" by simp
    show ?case
    proof (cases "k < length c")
      case True
      with utf8_char_width [OF c] show ?thesis
        by (intro exI [of _ 0]) (auto simp: nth_append hd_conv_nth)
    next
      case False
      with Cons.prems have "k - length c < length (concat css)" by (simp add: less_diff_conv2)
      with Cons.IH [of "k - length c"] Cons.prems(1) obtain j where
        "j \<le> k - length c" "k - length c \<le> j + 3" "\<not> cont (concat css ! j)" by auto
      with False show ?thesis by (intro exI [of _ "length c + j"]) (auto simp: nth_append)
    qed
  qed simp
qed

section \<open>Chunks\<close>

text \<open>
  One turn of the iterator: the rest, when it fits; otherwise the bytes up to the last
  position from the chunk size down at which a character begins.
\<close>

fun back_to_boundary :: "bytes \<Rightarrow> nat \<Rightarrow> nat" where
  "back_to_boundary bs 0 = 0"
| "back_to_boundary bs (Suc k) = (if cont (bs ! Suc k) then back_to_boundary bs k else Suc k)"

definition utf8_chunk_next :: "nat \<Rightarrow> bytes \<Rightarrow> (bytes \<times> bytes) option" where
  "utf8_chunk_next chunk_size bs =
     (if bs = [] then None
      else if length bs \<le> chunk_size then Some (bs, [])
      else let k = back_to_boundary bs chunk_size in Some (take k bs, drop k bs))"

text \<open>Collecting the iterator; \<open>None\<close> when it never ends.\<close>

partial_function (option) utf8_chunks_from :: "nat \<Rightarrow> bytes \<Rightarrow> bytes list option" where
  "utf8_chunks_from chunk_size bs =
     (case utf8_chunk_next chunk_size bs of
        None \<Rightarrow> Some []
      | Some (c, rest) \<Rightarrow> Option.bind (utf8_chunks_from chunk_size rest) (\<lambda>cs. Some (c # cs)))"

text \<open>\<^verbatim>\<open>utf8_aware_chunks\<close>: too small a size panics when the iterator is made.\<close>

definition utf8_aware_chunks :: "bytes \<Rightarrow> nat \<Rightarrow> ('e, bytes list option) rust" where
  "utf8_aware_chunks bs chunk_size =
     (if chunk_size < 4 then Panic else Ok (utf8_chunks_from chunk_size bs))"

lemma back_to_boundary_le: "back_to_boundary bs k \<le> k"
  by (induction k) auto

lemma back_to_boundary:
  "j \<le> k \<Longrightarrow> 0 < j \<Longrightarrow> \<not> cont (bs ! j) \<Longrightarrow>
     j \<le> back_to_boundary bs k \<and> \<not> cont (bs ! back_to_boundary bs k)"
  by (induction k) (auto simp: le_Suc_eq)

lemma utf8_chunk_next_valid:
  assumes "utf8_valid bs" and "4 \<le> n" and "bs \<noteq> []"
  shows "\<exists>c rest. utf8_chunk_next n bs = Some (c, rest) \<and> bs = c @ rest \<and> c \<noteq> [] \<and> length c \<le> n
    \<and> (rest \<noteq> [] \<longrightarrow> n \<le> length c + 3) \<and> utf8_valid c \<and> utf8_valid rest"
proof (cases "length bs \<le> n")
  case True
  with assms show ?thesis by (simp add: utf8_chunk_next_def)
next
  case False
  define k where "k = back_to_boundary bs n"
  from boundary_near [OF assms(1), of n] False obtain j where
    j: "j \<le> n" "n \<le> j + 3" "\<not> cont (bs ! j)" by auto
  with assms(2) back_to_boundary [of j n bs] have k: "j \<le> k" "\<not> cont (bs ! k)" by (auto simp: k_def)
  have "k \<le> n" by (simp add: k_def back_to_boundary_le)
  then have "utf8_valid (take k bs)" "utf8_valid (drop k bs)" "length (take k bs) = k"
    using utf8_valid_split [OF assms(1) _ k(2)] False by auto
  with False assms(2,3) j(2) k(1) \<open>k \<le> n\<close> show ?thesis
    by (intro exI [of _ "take k bs"] exI [of _ "drop k bs"])
      (auto simp: utf8_chunk_next_def k_def [symmetric])
qed

lemma utf8_chunks_total:
  assumes "utf8_valid str" and "4 \<le> n"
  shows "\<exists>cs. utf8_chunks_from n str = Some cs \<and> concat cs = str
    \<and> (\<forall>c \<in> set cs. c \<noteq> [] \<and> length c \<le> n \<and> utf8_valid c)
    \<and> (\<forall>c \<in> set (butlast cs). n \<le> length c + 3)"
  using assms(1)
proof (induction str rule: length_induct)
  case (1 str)
  show ?case
  proof (cases "str = []")
    case True
    then show ?thesis by (subst utf8_chunks_from.simps) (simp add: utf8_chunk_next_def)
  next
    case False
    from utf8_chunk_next_valid [OF 1(2) assms(2) False] obtain c rest where
      c: "utf8_chunk_next n str = Some (c, rest)" "str = c @ rest" "c \<noteq> []" "length c \<le> n"
        "rest \<noteq> [] \<longrightarrow> n \<le> length c + 3" "utf8_valid c" "utf8_valid rest" by blast
    then have "length rest < length str" by simp
    with 1(1) c(7) obtain cs where
      cs: "utf8_chunks_from n rest = Some cs" "concat cs = rest"
        "\<forall>c \<in> set cs. c \<noteq> [] \<and> length c \<le> n \<and> utf8_valid c" "\<forall>c \<in> set (butlast cs). n \<le> length c + 3"
      by blast
    have "utf8_chunks_from n str = Some (c # cs)"
      using c(1) cs(1) by (subst utf8_chunks_from.simps) simp
    with c cs show ?thesis by (intro exI [of _ "c # cs"]) auto
  qed
qed

text \<open>
  Cutting a text ends, and loses nothing. For every well-formed text and every chunk size
  from 4 on, the iterator ends; the chunks put together are the text; each is itself
  well-formed text, not empty, and within the size; and all but the last are full up to three
  bytes.
\<close>

lemma utf8_chunks_of_text:
  assumes "utf8_valid str" and "4 \<le> n"
  shows "\<exists>cs. utf8_chunks_from n str = Some cs \<and> concat cs = str
    \<and> (\<forall>c \<in> set cs. c \<noteq> [] \<and> length c \<le> n \<and> utf8_valid c)
    \<and> (\<forall>c \<in> set (butlast cs). n \<le> length c + 3)"
  by (rule utf8_chunks_total [OF assms])

lemma utf8_chunks_of_text_witness:
  "utf8_chunks_from 4 [0x48, 0xF0, 0x9F, 0x91, 0x8B] \<noteq> None"
proof -
  have "utf8_valid [0x48, 0xF0, 0x9F, 0x91, 0x8B]" by code_simp
  from utf8_chunks_of_text [OF this, of 4] show ?thesis by auto
qed

text \<open>
  On bytes that are not text the iterator may never end: with a full chunk of continuation
  bytes ahead it yields empty chunks for ever.
\<close>

lemma back_to_boundary_cont: "\<forall>i. 0 < i \<and> i \<le> k \<longrightarrow> cont (bs ! i) \<Longrightarrow> back_to_boundary bs k = 0"
  by (induction k) auto

lemma utf8_chunks_diverge:
  assumes "n < length bs" and "\<forall>i. 0 < i \<and> i \<le> n \<longrightarrow> cont (bs ! i)"
  shows "utf8_chunks_from n bs = None"
proof -
  have next_same: "utf8_chunk_next n bs = Some ([], bs)"
    using assms back_to_boundary_cont [OF assms(2)] by (auto simp: utf8_chunk_next_def)
  have "\<not> (n' = n \<and> bs' = bs)" if "utf8_chunks_from n' bs' = Some r" for n' bs' r
    by (rule utf8_chunks_from.raw_induct [where P = "\<lambda>n' bs' r. \<not> (n' = n \<and> bs' = bs)", OF _ that])
      (auto simp: next_same Option.bind_eq_Some_conv, blast)
  then show ?thesis by (cases "utf8_chunks_from n bs") auto
qed

end
