(* ===== verification/Data_Packets.thy ===== *)
theory Data_Packets
  imports Track_Events Utf8
begin

text \<open>
  The messages of the data channels, \<^verbatim>\<open>DataPacket\<close> and what it can carry, as the protocol crate
  defines them (\<^verbatim>\<open>livekit-protocol/src/livekit.rs\<close>), with all fields that the client reads or
  writes. Optional fields are options, enumerations on the wire are integers, timestamps and
  other signed fields are integers, text content is bytes and identifiers are strings.
\<close>

section \<open>Data streams\<close>

record text_header =
  txh_operation_type :: int
  txh_version :: int
  txh_reply_to_stream_id :: string
  txh_attached_stream_ids :: "string list"
  txh_generated :: bool

record byte_header =
  byh_name :: string

datatype content_header = Text_Header text_header | Byte_Header byte_header

record stream_header =
  sh_stream_id :: string
  sh_timestamp :: int
  sh_topic :: string
  sh_mime_type :: string
  sh_total_length :: "u64 option"
  sh_attributes :: "string \<rightharpoonup> string"
  sh_content_header :: "content_header option"

record stream_chunk =
  sc_stream_id :: string
  sc_chunk_index :: u64
  sc_content :: bytes

record stream_trailer =
  st_stream_id :: string
  st_reason :: string

datatype proto_operation_type = Op_Create | Op_Update | Op_Delete | Op_Reaction

text \<open>The accessor of an enumeration field: an unknown integer is read as the first value.\<close>

definition operation_type_of_int :: "int \<Rightarrow> proto_operation_type" where
  "operation_type_of_int n =
     (if n = 1 then Op_Update else if n = 2 then Op_Delete else if n = 3 then Op_Reaction else Op_Create)"

section \<open>Other contents\<close>

record user_packet =
  up_participant_sid :: string
  up_participant_identity :: string
  up_payload :: bytes
  up_topic :: "string option"

record sip_dtmf =
  sd_code :: u32
  sd_digit :: string

record transcription_segment =
  ts_id :: string
  ts_text :: string
  ts_start_time :: u64
  ts_end_time :: u64
  ts_final :: bool
  ts_language :: string

record transcription =
  tr_transcribed_participant_identity :: string
  tr_track_id :: string
  tr_segments :: "transcription_segment list"

record chat_message =
  cm_id :: string
  cm_timestamp :: int
  cm_edit_timestamp :: "int option"
  cm_message :: string
  cm_deleted :: bool
  cm_generated :: bool

record rpc_request =
  rq_id :: string
  rq_method :: string
  rq_payload :: string
  rq_response_timeout_ms :: u32
  rq_version :: u32

record rpc_ack =
  ra_request_id :: string

record rpc_error_msg =
  re_code :: u32
  re_message :: string
  re_data :: string

datatype rpc_response_value = Rpc_Payload string | Rpc_Error rpc_error_msg | Rpc_Compressed bytes

record rpc_response =
  rs_request_id :: string
  rs_value :: "rpc_response_value option"

record encrypted_packet =
  ep_encryption_type :: int
  ep_iv :: bytes
  ep_key_index :: u32
  ep_encrypted_value :: bytes

section \<open>Packets\<close>

datatype data_packet_kind = Lossy | Reliable

text \<open>Speaker updates and metrics come only from servers to other clients; their contents are left out.\<close>

datatype packet_value =
    Value_User user_packet
  | Value_Speaker
  | Value_SipDtmf sip_dtmf
  | Value_Transcription transcription
  | Value_Metrics
  | Value_ChatMessage chat_message
  | Value_RpcRequest rpc_request
  | Value_RpcAck rpc_ack
  | Value_RpcResponse rpc_response
  | Value_StreamHeader stream_header
  | Value_StreamChunk stream_chunk
  | Value_StreamTrailer stream_trailer
  | Value_EncryptedPacket encrypted_packet

datatype encrypted_payload_value =
    Enc_User user_packet
  | Enc_ChatMessage chat_message
  | Enc_RpcRequest rpc_request
  | Enc_RpcAck rpc_ack
  | Enc_RpcResponse rpc_response
  | Enc_StreamHeader stream_header
  | Enc_StreamChunk stream_chunk
  | Enc_StreamTrailer stream_trailer

record data_packet =
  dp_kind :: data_packet_kind
  dp_participant_identity :: string
  dp_destination_identities :: "string list"
  dp_sequence :: u32
  dp_participant_sid :: string
  dp_value :: "packet_value option"

definition data_packet_default :: data_packet where
  "data_packet_default = \<lparr>dp_kind = Reliable, dp_participant_identity = [], dp_destination_identities = [],
     dp_sequence = 0, dp_participant_sid = [], dp_value = None\<rparr>"

end
