(* ===== verification/Data_Streams.thy ===== *)
theory Data_Streams
  imports Data_Packets
begin

text \<open>
  What both ends of a data stream share: \<^verbatim>\<open>room/data_stream/mod.rs\<close> (errors, progress, stream
  information and its conversion from a header), the encryption types of \<^verbatim>\<open>room/e2ee/mod.rs\<close>
  with their conversion in \<^verbatim>\<open>proto.rs\<close>, and the take-once cell of \<^verbatim>\<open>room/utils/take_cell.rs\<close> in
  which a reader is handed to the application. A point of time is a number of milliseconds;
  \<open>of_millis\<close> stands for the conversion of the \<^verbatim>\<open>chrono\<close> crate, which refuses numbers out of
  its range, and \<open>now\<close> for the current time that then replaces them.
\<close>

section \<open>Encryption types\<close>

datatype e2ee_type = E2ee_None | E2ee_Gcm | E2ee_Custom

primrec e2ee_type_from :: "encryption_type \<Rightarrow> e2ee_type" where
  "e2ee_type_from Enc_None = E2ee_None"
| "e2ee_type_from Enc_Gcm = E2ee_Gcm"
| "e2ee_type_from Enc_Custom = E2ee_Custom"

primrec encryption_type_from :: "e2ee_type \<Rightarrow> encryption_type" where
  "encryption_type_from E2ee_None = Enc_None"
| "encryption_type_from E2ee_Gcm = Enc_Gcm"
| "encryption_type_from E2ee_Custom = Enc_Custom"

lemma e2ee_type_roundtrip [simp]:
  "e2ee_type_from (encryption_type_from t) = t" "encryption_type_from (e2ee_type_from t') = t'"
  by (cases t; simp) (cases t'; simp)

lemma e2ee_type_from_inject [simp]: "e2ee_type_from a = e2ee_type_from b \<longleftrightarrow> a = b"
  by (metis e2ee_type_roundtrip(2))

section \<open>Errors and progress\<close>

text \<open>Errors of the file system, told apart only by the operation that failed.\<close>

datatype io_error = Io_Metadata | Io_Open | Io_Create | Io_Read | Io_Write | Io_Flush

datatype stream_error =
    AlreadyClosed
  | AbnormalEnd string
  | Utf8_Error
  | InvalidHeader
  | MissedChunk
  | LengthExceeded
  | Incomplete_Stream
  | SendFailed
  | Io io_error
  | Internal_Error
  | EncryptionTypeMismatch

record stream_progress =
  spr_chunk_index :: u64
  spr_bytes_processed :: u64
  spr_bytes_total :: "u64 option"

definition progress_new :: "u64 option \<Rightarrow> stream_progress" where
  "progress_new bytes_total = \<lparr>spr_chunk_index = 0, spr_bytes_processed = 0, spr_bytes_total = bytes_total\<rparr>"

section \<open>Stream information\<close>

datatype operation_type = Create | Update | Delete | Reaction

primrec operation_type_from :: "proto_operation_type \<Rightarrow> operation_type" where
  "operation_type_from Op_Create = Create"
| "operation_type_from Op_Update = Update"
| "operation_type_from Op_Delete = Delete"
| "operation_type_from Op_Reaction = Reaction"

primrec operation_type_to_int :: "operation_type \<Rightarrow> int" where
  "operation_type_to_int Create = 0"
| "operation_type_to_int Update = 1"
| "operation_type_to_int Delete = 2"
| "operation_type_to_int Reaction = 3"

lemma operation_type_roundtrip [simp]:
  "operation_type_from (operation_type_of_int (operation_type_to_int t)) = t"
  by (cases t) (simp_all add: operation_type_of_int_def)

record byte_stream_info =
  bsi_id :: string
  bsi_topic :: string
  bsi_timestamp :: int
  bsi_total_length :: "u64 option"
  bsi_attributes :: "string \<rightharpoonup> string"
  bsi_mime_type :: string
  bsi_name :: string
  bsi_encryption_type :: e2ee_type

record text_stream_info =
  tsi_id :: string
  tsi_topic :: string
  tsi_timestamp :: int
  tsi_total_length :: "u64 option"
  tsi_attributes :: "string \<rightharpoonup> string"
  tsi_mime_type :: string
  tsi_operation_type :: operation_type
  tsi_version :: int
  tsi_reply_to_stream_id :: "string option"
  tsi_attached_stream_ids :: "string list"
  tsi_generated :: bool
  tsi_encryption_type :: e2ee_type

datatype any_stream_info = Byte_Info byte_stream_info | Text_Info text_stream_info

primrec info_id :: "any_stream_info \<Rightarrow> string" where
  "info_id (Byte_Info i) = bsi_id i"
| "info_id (Text_Info i) = tsi_id i"

primrec info_total_length :: "any_stream_info \<Rightarrow> u64 option" where
  "info_total_length (Byte_Info i) = bsi_total_length i"
| "info_total_length (Text_Info i) = tsi_total_length i"

primrec info_encryption_type :: "any_stream_info \<Rightarrow> e2ee_type" where
  "info_encryption_type (Byte_Info i) = bsi_encryption_type i"
| "info_encryption_type (Text_Info i) = tsi_encryption_type i"

definition timestamp_or_now :: "(int \<Rightarrow> int option) \<Rightarrow> int \<Rightarrow> int \<Rightarrow> int" where
  "timestamp_or_now of_millis now ms = (case of_millis ms of None \<Rightarrow> now | Some t \<Rightarrow> t)"

definition byte_info_from_headers_with_encryption ::
    "(int \<Rightarrow> int option) \<Rightarrow> int \<Rightarrow> stream_header \<Rightarrow> byte_header \<Rightarrow> e2ee_type \<Rightarrow> byte_stream_info" where
  "byte_info_from_headers_with_encryption of_millis now header byte_header encryption_type =
     \<lparr>bsi_id = sh_stream_id header, bsi_topic = sh_topic header,
      bsi_timestamp = timestamp_or_now of_millis now (sh_timestamp header),
      bsi_total_length = sh_total_length header, bsi_attributes = sh_attributes header,
      bsi_mime_type = sh_mime_type header, bsi_name = byh_name byte_header,
      bsi_encryption_type = encryption_type\<rparr>"

definition byte_info_from_headers ::
    "(int \<Rightarrow> int option) \<Rightarrow> int \<Rightarrow> stream_header \<Rightarrow> byte_header \<Rightarrow> byte_stream_info" where
  "byte_info_from_headers of_millis now header byte_header =
     byte_info_from_headers_with_encryption of_millis now header byte_header E2ee_None"

definition text_info_from_headers_with_encryption ::
    "(int \<Rightarrow> int option) \<Rightarrow> int \<Rightarrow> stream_header \<Rightarrow> text_header \<Rightarrow> e2ee_type \<Rightarrow> text_stream_info" where
  "text_info_from_headers_with_encryption of_millis now header text_header encryption_type =
     \<lparr>tsi_id = sh_stream_id header, tsi_topic = sh_topic header,
      tsi_timestamp = timestamp_or_now of_millis now (sh_timestamp header),
      tsi_total_length = sh_total_length header, tsi_attributes = sh_attributes header,
      tsi_mime_type = sh_mime_type header,
      tsi_operation_type = operation_type_from (operation_type_of_int (txh_operation_type text_header)),
      tsi_version = txh_version text_header,
      tsi_reply_to_stream_id =
        (if txh_reply_to_stream_id text_header = [] then None else Some (txh_reply_to_stream_id text_header)),
      tsi_attached_stream_ids = txh_attached_stream_ids text_header,
      tsi_generated = txh_generated text_header, tsi_encryption_type = encryption_type\<rparr>"

definition text_info_from_headers ::
    "(int \<Rightarrow> int option) \<Rightarrow> int \<Rightarrow> stream_header \<Rightarrow> text_header \<Rightarrow> text_stream_info" where
  "text_info_from_headers of_millis now header text_header =
     text_info_from_headers_with_encryption of_millis now header text_header E2ee_None"

definition stream_info_try_from_with_encryption ::
    "(int \<Rightarrow> int option) \<Rightarrow> int \<Rightarrow> stream_header \<Rightarrow> e2ee_type \<Rightarrow> (stream_error, any_stream_info) rust" where
  "stream_info_try_from_with_encryption of_millis now header encryption_type =
     (case sh_content_header header of
        None \<Rightarrow> Err InvalidHeader
      | Some (Byte_Header byte_header) \<Rightarrow>
          Ok (Byte_Info (byte_info_from_headers_with_encryption of_millis now header byte_header encryption_type))
      | Some (Text_Header text_header) \<Rightarrow>
          Ok (Text_Info (text_info_from_headers_with_encryption of_millis now header text_header encryption_type)))"

definition stream_info_try_from ::
    "(int \<Rightarrow> int option) \<Rightarrow> int \<Rightarrow> stream_header \<Rightarrow> (stream_error, any_stream_info) rust" where
  "stream_info_try_from of_millis now header =
     stream_info_try_from_with_encryption of_millis now header E2ee_None"

lemma stream_info_fields:
  "stream_info_try_from_with_encryption of_millis now header t = Ok info \<Longrightarrow>
     info_id info = sh_stream_id header \<and> info_total_length info = sh_total_length header
     \<and> info_encryption_type info = t"
  by (auto simp: stream_info_try_from_with_encryption_def byte_info_from_headers_with_encryption_def
      text_info_from_headers_with_encryption_def split: option.splits content_header.splits)

section \<open>A value that is taken once\<close>

text \<open>The cell is its content; every operation returns the new content.\<close>

type_synonym 'a take_cell = "'a option"

definition cell_new :: "'a \<Rightarrow> 'a take_cell" where
  "cell_new v = Some v"

definition cell_take :: "'a take_cell \<Rightarrow> 'a option \<times> 'a take_cell" where
  "cell_take c = (c, None)"

definition cell_take_if :: "('a \<Rightarrow> bool) \<Rightarrow> 'a take_cell \<Rightarrow> 'a option \<times> 'a take_cell" where
  "cell_take_if predicate c =
     (if (case c of None \<Rightarrow> False | Some v \<Rightarrow> predicate v) then cell_take c else (None, c))"

definition is_taken :: "'a take_cell \<Rightarrow> bool" where
  "is_taken c \<longleftrightarrow> c = None"

lemma cell_taken_once:
  "cell_take_if p c = (Some v, c') \<Longrightarrow> c = Some v \<and> p v \<and> is_taken c' \<and> fst (cell_take_if q c') = None"
  by (auto simp: cell_take_if_def cell_take_def is_taken_def split: if_splits)

end
