(* ===== verification/Outgoing_Streams.thy ===== *)
theory Outgoing_Streams
  imports Data_Streams
begin

text \<open>
  The sending side of data streams, \<^verbatim>\<open>room/data_stream/outgoing.rs\<close>. The state holds the packets
  the engine has accepted and the raw streams by their addresses: a writer and its clones share
  one raw stream. What the engine answers to a packet, which is sent through a request channel,
  is the argument \<open>engine\<close> (given the packets accepted before). An operation with \<^verbatim>\<open>?\<close> is a
  computation over this state.
\<close>

section \<open>State\<close>

datatype send_answer = Accepted | Refused | Request_Lost

type_synonym engine = "data_packet list \<Rightarrow> data_packet \<Rightarrow> send_answer"

record raw_stream =
  raw_id :: string
  raw_progress :: stream_progress
  raw_is_closed :: bool

record outgoing =
  og_sent :: "data_packet list"
  og_streams :: "raw_stream list"

type_synonym 'a out = "(outgoing, stream_error, 'a) comp"

record byte_writer =
  bw_info :: byte_stream_info
  bw_stream :: nat

record text_writer =
  tw_info :: text_stream_info
  tw_stream :: nat

record stream_byte_options =
  sbo_topic :: string
  sbo_attributes :: "string \<rightharpoonup> string"
  sbo_destination_identities :: "string list"
  sbo_id :: "string option"
  sbo_mime_type :: "string option"
  sbo_name :: "string option"
  sbo_total_length :: "u64 option"

record stream_text_options =
  sto_topic :: string
  sto_attributes :: "string \<rightharpoonup> string"
  sto_destination_identities :: "string list"
  sto_id :: "string option"
  sto_operation_type :: "operation_type option"
  sto_version :: "int option"
  sto_reply_to_stream_id :: "string option"
  sto_attached_stream_ids :: "string list"
  sto_generated :: "bool option"

text \<open>What a call takes from outside: the time, a fresh identifier, the conversion of times.\<close>

record call_env =
  env_now :: int
  env_uuid :: string
  env_of_millis :: "int \<Rightarrow> int option"

definition CHUNK_SIZE :: nat where "CHUNK_SIZE = 15000"
definition BYTE_MIME_TYPE :: string where "BYTE_MIME_TYPE = ''application/octet-stream''"
definition TEXT_MIME_TYPE :: string where "TEXT_MIME_TYPE = ''text/plain''"

section \<open>Raw streams\<close>

definition create_header_packet :: "stream_header \<Rightarrow> string list \<Rightarrow> data_packet" where
  "create_header_packet header destination_identities =
     data_packet_default\<lparr>dp_kind := Reliable, dp_participant_identity := [],
       dp_destination_identities := destination_identities,
       dp_value := Some (Value_StreamHeader header)\<rparr>"

definition create_chunk_packet :: "string \<Rightarrow> u64 \<Rightarrow> bytes \<Rightarrow> data_packet" where
  "create_chunk_packet i chunk_index content =
     data_packet_default\<lparr>dp_kind := Reliable, dp_participant_identity := [],
       dp_value := Some (Value_StreamChunk
         \<lparr>sc_stream_id = i, sc_chunk_index = chunk_index, sc_content = content\<rparr>)\<rparr>"

definition create_trailer_packet :: "string \<Rightarrow> string option \<Rightarrow> data_packet" where
  "create_trailer_packet i reason =
     data_packet_default\<lparr>dp_kind := Reliable, dp_participant_identity := [],
       dp_value := Some (Value_StreamTrailer \<lparr>st_stream_id = i, st_reason = unwrap_or [] reason\<rparr>)\<rparr>"

definition send_packet :: "engine \<Rightarrow> data_packet \<Rightarrow> unit out" where
  "send_packet engine p = (\<lambda>w.
     case engine (og_sent w) p of
       Accepted \<Rightarrow> (Ok (), w\<lparr>og_sent := og_sent w @ [p]\<rparr>)
     | Refused \<Rightarrow> (Err SendFailed, w)
     | Request_Lost \<Rightarrow> (Err Internal_Error, w))"

definition open_raw :: "engine \<Rightarrow> stream_header \<Rightarrow> string list \<Rightarrow> nat out" where
  "open_raw engine header destination_identities =
     sbind (send_packet engine (create_header_packet header destination_identities))
       (\<lambda>_ w. (Ok (length (og_streams w)),
          w\<lparr>og_streams := og_streams w @
            [\<lparr>raw_id = sh_stream_id header, raw_progress = progress_new (sh_total_length header),
              raw_is_closed = False\<rparr>]\<rparr>))"

definition set_raw :: "nat \<Rightarrow> raw_stream \<Rightarrow> outgoing \<Rightarrow> outgoing" where
  "set_raw k st w = w\<lparr>og_streams := (og_streams w)[k := st]\<rparr>"

definition write_chunk :: "engine \<Rightarrow> nat \<Rightarrow> bytes \<Rightarrow> unit out" where
  "write_chunk engine k content = (\<lambda>w.
     let st = og_streams w ! k; p = raw_progress st
     in sbind (send_packet engine (create_chunk_packet (raw_id st) (spr_chunk_index p) content))
          (\<lambda>_ w. (Ok (), set_raw k (st\<lparr>raw_progress := p\<lparr>
              spr_bytes_processed := spr_bytes_processed p + of_nat (length content),
              spr_chunk_index := spr_chunk_index p + 1\<rparr>\<rparr>) w)) w)"

definition close_raw :: "engine \<Rightarrow> nat \<Rightarrow> string option \<Rightarrow> unit out" where
  "close_raw engine k reason = (\<lambda>w.
     let st = og_streams w ! k
     in if raw_is_closed st then (Err AlreadyClosed, w)
        else sbind (send_packet engine (create_trailer_packet (raw_id st) reason))
               (\<lambda>_ w. (Ok (), set_raw k (st\<lparr>raw_is_closed := True\<rparr>) w)) w)"

text \<open>
  The last handle of a raw stream is dropped: a stream that is still open sends a trailer
  without a reason (in a task of its own; here at once) and ignores the answer.
\<close>

definition drop_raw :: "engine \<Rightarrow> nat \<Rightarrow> outgoing \<Rightarrow> outgoing" where
  "drop_raw engine k w =
     (let st = og_streams w ! k
      in if raw_is_closed st then w
         else snd (send_packet engine (create_trailer_packet (raw_id st) None) w))"

section \<open>Writers\<close>

fun write_chunks :: "engine \<Rightarrow> nat \<Rightarrow> bytes list \<Rightarrow> unit out" where
  "write_chunks engine k [] = ret ()"
| "write_chunks engine k (c # cs) = sbind (write_chunk engine k c) (\<lambda>_. write_chunks engine k cs)"

definition write_bytes :: "engine \<Rightarrow> byte_writer \<Rightarrow> bytes \<Rightarrow> unit out" where
  "write_bytes engine wr content = write_chunks engine (bw_stream wr) (chunks_of (CHUNK_SIZE - 1) content)"

text \<open>
  The argument of the text writer is a \<^verbatim>\<open>&str\<close>, on whose bytes the iterator ends; the other
  outcomes of the iterator are kept as a panic.
\<close>

definition write_text :: "engine \<Rightarrow> text_writer \<Rightarrow> bytes \<Rightarrow> unit out" where
  "write_text engine wr str =
     (case (utf8_aware_chunks str CHUNK_SIZE :: (stream_error, bytes list option) rust) of
        Ok (Some cs) \<Rightarrow> write_chunks engine (tw_stream wr) cs
      | _ \<Rightarrow> panic)"

definition close_bytes :: "engine \<Rightarrow> byte_writer \<Rightarrow> unit out" where
  "close_bytes engine wr = close_raw engine (bw_stream wr) None"

definition close_text :: "engine \<Rightarrow> text_writer \<Rightarrow> unit out" where
  "close_text engine wr = close_raw engine (tw_stream wr) None"

definition close_bytes_with_reason :: "engine \<Rightarrow> byte_writer \<Rightarrow> string \<Rightarrow> unit out" where
  "close_bytes_with_reason engine wr reason = close_raw engine (bw_stream wr) (Some reason)"

definition close_text_with_reason :: "engine \<Rightarrow> text_writer \<Rightarrow> string \<Rightarrow> unit out" where
  "close_text_with_reason engine wr reason = close_raw engine (tw_stream wr) (Some reason)"

text \<open>
  A file as the writer sees it: its size (or no metadata), its name, whether it opens, and the
  outcomes of reading it into the 8 KB buffer, an error being \<open>None\<close>.
\<close>

record source_file =
  sf_size :: "nat option"
  sf_name :: string
  sf_opens :: bool
  sf_reads :: "bytes option list"

fun write_reads :: "engine \<Rightarrow> nat \<Rightarrow> bytes option list \<Rightarrow> unit out" where
  "write_reads engine k [] = ret ()"
| "write_reads engine k (None # rs) = throw (Io Io_Read)"
| "write_reads engine k (Some b # rs) =
     (if b = [] then ret () else sbind (write_chunk engine k b) (\<lambda>_. write_reads engine k rs))"

definition write_file_contents :: "engine \<Rightarrow> byte_writer \<Rightarrow> source_file \<Rightarrow> unit out" where
  "write_file_contents engine wr f =
     (if sf_opens f then write_reads engine (bw_stream wr) (sf_reads f) else throw (Io Io_Open))"

section \<open>The manager\<close>

definition text_header_of :: "stream_text_options \<Rightarrow> text_header" where
  "text_header_of options =
     \<lparr>txh_operation_type = operation_type_to_int (unwrap_or Create (sto_operation_type options)),
      txh_version = unwrap_or 0 (sto_version options),
      txh_reply_to_stream_id = unwrap_or [] (sto_reply_to_stream_id options),
      txh_attached_stream_ids = sto_attached_stream_ids options,
      txh_generated = unwrap_or False (sto_generated options)\<rparr>"

definition text_stream_header :: "call_env \<Rightarrow> u64 option \<Rightarrow> stream_text_options \<Rightarrow> stream_header" where
  "text_stream_header env n options =
     \<lparr>sh_stream_id = unwrap_or (env_uuid env) (sto_id options), sh_timestamp = env_now env,
      sh_topic = sto_topic options, sh_mime_type = TEXT_MIME_TYPE, sh_total_length = n,
      sh_attributes = sto_attributes options,
      sh_content_header = Some (Text_Header (text_header_of options))\<rparr>"

definition byte_stream_header ::
    "call_env \<Rightarrow> u64 option \<Rightarrow> string \<Rightarrow> stream_byte_options \<Rightarrow> stream_header" where
  "byte_stream_header env n name options =
     \<lparr>sh_stream_id = unwrap_or (env_uuid env) (sbo_id options), sh_timestamp = env_now env,
      sh_topic = sbo_topic options,
      sh_mime_type = unwrap_or BYTE_MIME_TYPE (sbo_mime_type options),
      sh_total_length = n, sh_attributes = sbo_attributes options,
      sh_content_header = Some (Byte_Header \<lparr>byh_name = name\<rparr>)\<rparr>"

definition open_text :: "engine \<Rightarrow> call_env \<Rightarrow> u64 option \<Rightarrow> stream_text_options \<Rightarrow> text_writer out" where
  "open_text engine env n options =
     (let header = text_stream_header env n options
      in sbind (open_raw engine header (sto_destination_identities options))
           (\<lambda>k. ret \<lparr>tw_info = text_info_from_headers (env_of_millis env) (env_now env) header
                 (text_header_of options), tw_stream = k\<rparr>))"

definition open_bytes ::
    "engine \<Rightarrow> call_env \<Rightarrow> u64 option \<Rightarrow> string \<Rightarrow> stream_byte_options \<Rightarrow> byte_writer out" where
  "open_bytes engine env n name options =
     (let header = byte_stream_header env n name options
      in sbind (open_raw engine header (sbo_destination_identities options))
           (\<lambda>k. ret \<lparr>bw_info = byte_info_from_headers (env_of_millis env) (env_now env) header
                 \<lparr>byh_name = name\<rparr>, bw_stream = k\<rparr>))"

definition stream_text :: "engine \<Rightarrow> call_env \<Rightarrow> stream_text_options \<Rightarrow> text_writer out" where
  "stream_text engine env options = open_text engine env None options"

definition stream_bytes :: "engine \<Rightarrow> call_env \<Rightarrow> stream_byte_options \<Rightarrow> byte_writer out" where
  "stream_bytes engine env options =
     open_bytes engine env (sbo_total_length options) (unwrap_or [] (sbo_name options)) options"

text \<open>The writer is dropped when the function that made it returns, also early.\<close>

definition then_drop :: "engine \<Rightarrow> nat \<Rightarrow> 'a out \<Rightarrow> 'a out" where
  "then_drop engine k m = (\<lambda>w. let (r, w') = m w in (r, drop_raw engine k w'))"

definition send_text :: "engine \<Rightarrow> call_env \<Rightarrow> bytes \<Rightarrow> stream_text_options \<Rightarrow> text_stream_info out" where
  "send_text engine env str options =
     sbind (open_text engine env (Some (of_nat (length str))) options)
       (\<lambda>wr. then_drop engine (tw_stream wr)
          (sbind (write_text engine wr str) (\<lambda>_. sbind (close_text engine wr) (\<lambda>_. ret (tw_info wr)))))"

definition send_bytes :: "engine \<Rightarrow> call_env \<Rightarrow> bytes \<Rightarrow> stream_byte_options \<Rightarrow> byte_stream_info out" where
  "send_bytes engine env content options =
     sbind (open_bytes engine env (Some (of_nat (length content))) (unwrap_or [] (sbo_name options)) options)
       (\<lambda>wr. then_drop engine (bw_stream wr)
          (sbind (write_bytes engine wr content) (\<lambda>_. sbind (close_bytes engine wr) (\<lambda>_. ret (bw_info wr)))))"

definition send_file :: "engine \<Rightarrow> call_env \<Rightarrow> source_file \<Rightarrow> stream_byte_options \<Rightarrow> byte_stream_info out" where
  "send_file engine env f options =
     (case sf_size f of
        None \<Rightarrow> throw (Io Io_Metadata)
      | Some file_size \<Rightarrow>
          sbind (open_bytes engine env (Some (of_nat file_size)) (sf_name f) options)
            (\<lambda>wr. then_drop engine (bw_stream wr)
               (sbind (write_file_contents engine wr f)
                  (\<lambda>_. sbind (close_bytes engine wr) (\<lambda>_. ret (bw_info wr))))))"

section \<open>What is sent\<close>

fun chunk_packets :: "string \<Rightarrow> u64 \<Rightarrow> bytes list \<Rightarrow> data_packet list" where
  "chunk_packets i n [] = []"
| "chunk_packets i n (c # cs) = create_chunk_packet i n c # chunk_packets i (n + 1) cs"

text \<open>The packets of a complete stream.\<close>

definition stream_packets :: "stream_header \<Rightarrow> string list \<Rightarrow> bytes list \<Rightarrow> data_packet list" where
  "stream_packets header destination_identities cs =
     create_header_packet header destination_identities #
     chunk_packets (sh_stream_id header) 0 cs @ [create_trailer_packet (sh_stream_id header) None]"

lemma send_packet_Ok:
  "send_packet engine p w = (Ok u, w') \<Longrightarrow> w' = w\<lparr>og_sent := og_sent w @ [p]\<rparr>"
  by (auto simp: send_packet_def split: send_answer.splits)

lemma open_raw_Ok:
  assumes "open_raw engine header ds w = (Ok k, w')"
  shows "k = length (og_streams w)" and "og_sent w' = og_sent w @ [create_header_packet header ds]"
    and "og_streams w' = og_streams w @ [\<lparr>raw_id = sh_stream_id header,
        raw_progress = progress_new (sh_total_length header), raw_is_closed = False\<rparr>]"
  using assms by (auto simp: open_raw_def elim!: sbind_eq_OkE dest: send_packet_Ok)

lemma write_chunk_Ok:
  assumes "write_chunk engine k c w = (Ok u, w')" and "k < length (og_streams w)"
  shows "og_sent w' = og_sent w @ [create_chunk_packet (raw_id (og_streams w ! k))
        (spr_chunk_index (raw_progress (og_streams w ! k))) c]"
    and "length (og_streams w') = length (og_streams w)"
    and "raw_id (og_streams w' ! k) = raw_id (og_streams w ! k)"
    and "raw_is_closed (og_streams w' ! k) = raw_is_closed (og_streams w ! k)"
    and "spr_chunk_index (raw_progress (og_streams w' ! k)) = spr_chunk_index (raw_progress (og_streams w ! k)) + 1"
  using assms
  by (auto simp: write_chunk_def Let_def set_raw_def elim!: sbind_eq_OkE dest!: send_packet_Ok)

lemma write_chunks_Ok:
  "write_chunks engine k cs w = (Ok u, w') \<Longrightarrow> k < length (og_streams w) \<Longrightarrow>
     og_sent w' = og_sent w @ chunk_packets (raw_id (og_streams w ! k))
        (spr_chunk_index (raw_progress (og_streams w ! k))) cs
     \<and> length (og_streams w') = length (og_streams w)
     \<and> raw_id (og_streams w' ! k) = raw_id (og_streams w ! k)
     \<and> raw_is_closed (og_streams w' ! k) = raw_is_closed (og_streams w ! k)"
proof (induction cs arbitrary: w)
  case (Cons c cs)
  from Cons.prems(1) obtain w1 where w1: "write_chunk engine k c w = (Ok (), w1)"
      "write_chunks engine k cs w1 = (Ok u, w')"
    by (auto elim!: sbind_eq_OkE)
  note one = write_chunk_Ok [OF w1(1) Cons.prems(2)]
  from Cons.IH [OF w1(2)] Cons.prems(2) one show ?case by simp
qed simp

lemma close_raw_Ok:
  assumes "close_raw engine k reason w = (Ok u, w')" and "k < length (og_streams w)"
  shows "og_sent w' = og_sent w @ [create_trailer_packet (raw_id (og_streams w ! k)) reason]"
    and "raw_is_closed (og_streams w' ! k)"
  using assms
  by (auto simp: close_raw_def Let_def set_raw_def elim!: sbind_eq_OkE dest!: send_packet_Ok split: if_splits)

text \<open>Opening, writing and closing in one call, when every packet is accepted.\<close>

lemma whole_stream_sent:
  assumes "open_raw engine header ds w = (Ok k, w1)"
    and "write_chunks engine k cs w1 = (Ok u, w2)"
    and "close_raw engine k None w2 = (Ok u', w3)"
  shows "og_sent (drop_raw engine k w3) = og_sent w @ stream_packets header ds cs"
proof -
  note o = open_raw_Ok [OF assms(1)]
  have k: "k < length (og_streams w1)" and id: "raw_id (og_streams w1 ! k) = sh_stream_id header"
    and "spr_chunk_index (raw_progress (og_streams w1 ! k)) = 0"
    using o by (simp_all add: progress_new_def)
  with write_chunks_Ok [OF assms(2) k] have
    "og_sent w2 = og_sent w1 @ chunk_packets (sh_stream_id header) 0 cs" "k < length (og_streams w2)"
    "raw_id (og_streams w2 ! k) = sh_stream_id header" by simp_all
  with close_raw_Ok [OF assms(3)] o show ?thesis by (simp add: drop_raw_def stream_packets_def)
qed

lemma send_bytes_Ok:
  assumes "send_bytes engine env content options w = (Ok info, w')"
  defines "header \<equiv> byte_stream_header env (Some (of_nat (length content))) (unwrap_or [] (sbo_name options)) options"
  shows "og_sent w' = og_sent w @ stream_packets header (sbo_destination_identities options)
      (chunks_of (CHUNK_SIZE - 1) content)"
    and "info = byte_info_from_headers (env_of_millis env) (env_now env) header
      \<lparr>byh_name = unwrap_or [] (sbo_name options)\<rparr>"
proof -
  from assms(1) obtain k w1 w2 w3 where
    "open_raw engine header (sbo_destination_identities options) w = (Ok k, w1)"
    "write_chunks engine k (chunks_of (CHUNK_SIZE - 1) content) w1 = (Ok (), w2)"
    "close_raw engine k None w2 = (Ok (), w3)"
    "w' = drop_raw engine k w3"
    "info = byte_info_from_headers (env_of_millis env) (env_now env) header \<lparr>byh_name = unwrap_or [] (sbo_name options)\<rparr>"
    unfolding send_bytes_def open_bytes_def write_bytes_def close_bytes_def then_drop_def Let_def header_def
    by (auto elim!: sbind_eq_OkE split: prod.splits)
  with whole_stream_sent show "og_sent w' = og_sent w @ stream_packets header (sbo_destination_identities options)
      (chunks_of (CHUNK_SIZE - 1) content)"
    and "info = byte_info_from_headers (env_of_millis env) (env_now env) header
      \<lparr>byh_name = unwrap_or [] (sbo_name options)\<rparr>" by blast+
qed

lemma send_text_Ok:
  assumes "send_text engine env str options w = (Ok info, w')"
  defines "header \<equiv> text_stream_header env (Some (of_nat (length str))) options"
  shows "\<exists>cs. utf8_chunks_from CHUNK_SIZE str = Some cs
      \<and> og_sent w' = og_sent w @ stream_packets header (sto_destination_identities options) cs"
    and "info = text_info_from_headers (env_of_millis env) (env_now env) header (text_header_of options)"
proof -
  from assms(1) obtain k w1 w2 w3 cs where
    "utf8_chunks_from CHUNK_SIZE str = Some cs"
    "open_raw engine header (sto_destination_identities options) w = (Ok k, w1)"
    "write_chunks engine k cs w1 = (Ok (), w2)"
    "close_raw engine k None w2 = (Ok (), w3)"
    "w' = drop_raw engine k w3"
    "info = text_info_from_headers (env_of_millis env) (env_now env) header (text_header_of options)"
    unfolding send_text_def open_text_def write_text_def close_text_def then_drop_def Let_def header_def
      utf8_aware_chunks_def CHUNK_SIZE_def
    by (auto elim!: sbind_eq_OkE split: prod.splits option.splits rust.splits if_splits)
  with whole_stream_sent show "\<exists>cs. utf8_chunks_from CHUNK_SIZE str = Some cs
      \<and> og_sent w' = og_sent w @ stream_packets header (sto_destination_identities options) cs"
    and "info = text_info_from_headers (env_of_millis env) (env_now env) header (text_header_of options)" by blast+
qed

text \<open>An engine that accepts everything, for concrete runs.\<close>

definition accepting :: engine where
  "accepting sent p = Accepted"

lemma send_packet_accepting [simp]: "send_packet accepting p w = (Ok (), w\<lparr>og_sent := og_sent w @ [p]\<rparr>)"
  by (simp add: send_packet_def accepting_def)

lemma write_chunk_accepting: "\<exists>w'. write_chunk accepting k c w = (Ok (), w')"
  by (simp add: write_chunk_def Let_def sbind_def)

lemma write_chunks_accepting: "\<exists>w'. write_chunks accepting k cs w = (Ok (), w')"
proof (induction cs arbitrary: w)
  case (Cons c cs)
  obtain w1 where "write_chunk accepting k c w = (Ok (), w1)" using write_chunk_accepting by blast
  with Cons [of w1] show ?case by (simp add: sbind_def)
qed simp

lemma whole_stream_accepted:
  "\<exists>k w1 w2 w3. open_raw accepting h ds w = (Ok k, w1) \<and> write_chunks accepting k cs w1 = (Ok (), w2)
     \<and> close_raw accepting k None w2 = (Ok (), w3)"
proof -
  obtain k w1 where o: "open_raw accepting h ds w = (Ok k, w1)"
    by (simp add: open_raw_def sbind_def)
  obtain w2 where wr: "write_chunks accepting k cs w1 = (Ok (), w2)" using write_chunks_accepting by blast
  have "k < length (og_streams w1)" "\<not> raw_is_closed (og_streams w1 ! k)"
    using open_raw_Ok [OF o] by simp_all
  with write_chunks_Ok [OF wr] have "\<not> raw_is_closed (og_streams w2 ! k)" by simp
  then have "\<exists>w3. close_raw accepting k None w2 = (Ok (), w3)"
    by (simp add: close_raw_def Let_def sbind_def)
  with o wr show ?thesis by blast
qed

lemma send_bytes_accepting: "\<exists>info w'. send_bytes accepting env content options w = (Ok info, w')"
proof -
  from whole_stream_accepted [of "byte_stream_header env (Some (of_nat (length content)))
      (unwrap_or [] (sbo_name options)) options" "sbo_destination_identities options" w
      "chunks_of (CHUNK_SIZE - 1) content"]
  show ?thesis
    by (auto simp: send_bytes_def open_bytes_def write_bytes_def close_bytes_def then_drop_def Let_def
        sbind_def ret_def)
qed

lemma send_text_accepting:
  assumes "utf8_valid str"
  shows "\<exists>info w'. send_text accepting env str options w = (Ok info, w')"
proof -
  obtain cs where "utf8_chunks_from CHUNK_SIZE str = Some cs"
    using utf8_chunks_total [OF assms, of CHUNK_SIZE] by (auto simp: CHUNK_SIZE_def)
  with whole_stream_accepted [of "text_stream_header env (Some (of_nat (length str))) options"
      "sto_destination_identities options" w cs]
  show ?thesis
    by (auto simp: send_text_def open_text_def write_text_def close_text_def then_drop_def Let_def
        sbind_def ret_def utf8_aware_chunks_def CHUNK_SIZE_def)
qed

end
