(* ===== verification/Incoming_Streams.thy ===== *)
theory Incoming_Streams
  imports Data_Streams
begin

text \<open>
  The receiving side of data streams, \<^verbatim>\<open>room/data_stream/incoming.rs\<close>, and the room's handlers
  that feed it (\<^verbatim>\<open>room/mod.rs\<close>). The unbounded channels between the manager and the readers
  are entries of a list, addressed by number: the results still to be received, and whether
  the sender and the receiver exist. A descriptor that is removed drops its sender.
\<close>

section \<open>State\<close>

type_synonym chunk_result = "(stream_error, bytes) rust"

record chan =
  ch_queue :: "chunk_result list"
  ch_tx :: bool
  ch_rx :: bool

record byte_reader =
  br_info :: byte_stream_info
  br_chunk_rx :: nat

record text_reader =
  tx_info :: text_stream_info
  tx_chunk_rx :: nat

datatype any_reader = Byte_Reader byte_reader | Text_Reader text_reader

record in_descriptor =
  id_progress :: stream_progress
  id_chunk_tx :: nat
  id_encryption_type :: e2ee_type

record incoming =
  ic_open_streams :: "string \<rightharpoonup> in_descriptor"
  ic_opened :: "(any_reader \<times> string) list"
  ic_open_rx :: bool
  ic_chans :: "chan list"

definition incoming_new :: incoming where
  "incoming_new = \<lparr>ic_open_streams = Map.empty, ic_opened = [], ic_open_rx = True, ic_chans = []\<rparr>"

definition any_reader_from :: "any_stream_info \<Rightarrow> nat \<Rightarrow> any_reader" where
  "any_reader_from info k =
     (case info of
        Byte_Info i \<Rightarrow> Byte_Reader \<lparr>br_info = i, br_chunk_rx = k\<rparr>
      | Text_Info i \<Rightarrow> Text_Reader \<lparr>tx_info = i, tx_chunk_rx = k\<rparr>)"

definition set_chan :: "nat \<Rightarrow> chan \<Rightarrow> incoming \<Rightarrow> incoming" where
  "set_chan k c s = s\<lparr>ic_chans := (ic_chans s)[k := c]\<rparr>"

text \<open>Sending on a channel fails when the receiver is gone or has been closed.\<close>

definition chunk_send :: "nat \<Rightarrow> chunk_result \<Rightarrow> incoming \<Rightarrow> bool \<times> incoming" where
  "chunk_send k r s =
     (let c = ic_chans s ! k
      in if ch_rx c then (True, set_chan k (c\<lparr>ch_queue := ch_queue c @ [r]\<rparr>) s) else (False, s))"

section \<open>The manager\<close>

definition close_stream :: "string \<Rightarrow> incoming \<Rightarrow> incoming" where
  "close_stream i s =
     (case ic_open_streams s i of
        None \<Rightarrow> s
      | Some d \<Rightarrow>
          set_chan (id_chunk_tx d) ((ic_chans s ! id_chunk_tx d)\<lparr>ch_tx := False\<rparr>)
            (s\<lparr>ic_open_streams := (ic_open_streams s)(i := None)\<rparr>))"

definition close_stream_with_error :: "string \<Rightarrow> stream_error \<Rightarrow> incoming \<Rightarrow> incoming" where
  "close_stream_with_error i e s =
     (case ic_open_streams s i of
        None \<Rightarrow> s
      | Some d \<Rightarrow> close_stream i (snd (chunk_send (id_chunk_tx d) (Err e) s)))"

definition yield_chunk :: "string \<Rightarrow> bytes \<Rightarrow> incoming \<Rightarrow> incoming" where
  "yield_chunk i content s =
     (case ic_open_streams s i of
        None \<Rightarrow> s
      | Some d \<Rightarrow>
          (case chunk_send (id_chunk_tx d) (Ok content) s of
             (True, s) \<Rightarrow> s
           | (False, s) \<Rightarrow> close_stream i s))"

definition handle_header ::
    "(int \<Rightarrow> int option) \<Rightarrow> int \<Rightarrow> stream_header \<Rightarrow> string \<Rightarrow> encryption_type \<Rightarrow> incoming \<Rightarrow> incoming" where
  "handle_header of_millis now header identity encryption_type s =
     (case stream_info_try_from_with_encryption of_millis now header (e2ee_type_from encryption_type) of
        Ok info \<Rightarrow>
          if ic_open_streams s (info_id info) \<noteq> None then s
          else
            let k = length (ic_chans s);
                reader = any_reader_from info k;
                s = s\<lparr>ic_chans := ic_chans s @ [\<lparr>ch_queue = [], ch_tx = True, ch_rx = ic_open_rx s\<rparr>],
                      ic_opened := (if ic_open_rx s then ic_opened s @ [(reader, identity)] else ic_opened s)\<rparr>;
                d = \<lparr>id_progress = progress_new (info_total_length info), id_chunk_tx = k,
                     id_encryption_type = info_encryption_type info\<rparr>
            in s\<lparr>ic_open_streams := (ic_open_streams s)(info_id info \<mapsto> d)\<rparr>
      | _ \<Rightarrow> s)"

text \<open>The progress is updated in the map before the length is compared.\<close>

definition handle_chunk :: "stream_chunk \<Rightarrow> encryption_type \<Rightarrow> incoming \<Rightarrow> incoming" where
  "handle_chunk chunk encryption_type s =
     (let i = sc_stream_id chunk
      in case ic_open_streams s i of
           None \<Rightarrow> s
         | Some d \<Rightarrow>
             if id_encryption_type d \<noteq> e2ee_type_from encryption_type
             then close_stream_with_error i EncryptionTypeMismatch s
             else if spr_chunk_index (id_progress d) \<noteq> sc_chunk_index chunk
             then close_stream_with_error i MissedChunk s
             else
               let p = id_progress d;
                   p = p\<lparr>spr_chunk_index := spr_chunk_index p + 1,
                         spr_bytes_processed := spr_bytes_processed p + of_nat (length (sc_content chunk))\<rparr>;
                   s = s\<lparr>ic_open_streams := (ic_open_streams s)(i \<mapsto> d\<lparr>id_progress := p\<rparr>)\<rparr>
               in if (case spr_bytes_total p of Some n \<Rightarrow> spr_bytes_processed p > n | None \<Rightarrow> False)
                  then close_stream_with_error i LengthExceeded s
                  else yield_chunk i (sc_content chunk) s)"

definition handle_trailer :: "stream_trailer \<Rightarrow> incoming \<Rightarrow> incoming" where
  "handle_trailer trailer s =
     (let i = st_stream_id trailer
      in case ic_open_streams s i of
           None \<Rightarrow> s
         | Some d \<Rightarrow>
             if \<not> (case spr_bytes_total (id_progress d) of
                      Some n \<Rightarrow> spr_bytes_processed (id_progress d) \<ge> n | None \<Rightarrow> True)
             then close_stream_with_error i Incomplete_Stream s
             else if st_reason trailer \<noteq> []
             then close_stream_with_error i (AbnormalEnd (st_reason trailer)) s
             else close_stream i s)"

section \<open>Readers\<close>

datatype 'a poll = Ready 'a | Pending_Poll

text \<open>
  \<^verbatim>\<open>poll_recv\<close>: what was sent comes first; then the end, when no sender is left or the receiver
  was closed.
\<close>

definition poll_recv :: "chan \<Rightarrow> chunk_result option poll \<times> chan" where
  "poll_recv c =
     (case ch_queue c of
        r # rs \<Rightarrow> (Ready (Some r), c\<lparr>ch_queue := rs\<rparr>)
      | [] \<Rightarrow> if ch_tx c \<and> ch_rx c then (Pending_Poll, c) else (Ready None, c))"

definition poll_next_bytes :: "chan \<Rightarrow> chunk_result option poll \<times> chan" where
  "poll_next_bytes c = poll_recv c"

definition poll_next_text :: "chan \<Rightarrow> chunk_result option poll \<times> chan" where
  "poll_next_text c =
     (case poll_recv c of
        (Ready (Some (Ok chunk)), c) \<Rightarrow>
          if utf8_valid chunk then (Ready (Some (Ok chunk)), c)
          else (Ready (Some (Err Utf8_Error)), c\<lparr>ch_rx := False\<rparr>)
      | r \<Rightarrow> r)"

text \<open>
  \<^verbatim>\<open>read_all\<close>: the loop over the results of a channel, or \<open>Pending_Poll\<close> when it still waits for
  more after it has taken what was there. Each turn takes one result from the queue or is the
  last, so one turn more than the queue is long is enough.
\<close>

fun read_loop ::
    "(chan \<Rightarrow> chunk_result option poll \<times> chan) \<Rightarrow> nat \<Rightarrow> bytes \<Rightarrow> chan \<Rightarrow> chunk_result poll" where
  "read_loop poll_next 0 buffer c = Pending_Poll"
| "read_loop poll_next (Suc n) buffer c =
     (case poll_next c of
        (Ready (Some (Ok b)), c) \<Rightarrow> read_loop poll_next n (buffer @ b) c
      | (Ready (Some (Err e)), c) \<Rightarrow> Ready (Err e)
      | (Ready (Some Panic), c) \<Rightarrow> Ready Panic
      | (Ready None, c) \<Rightarrow> Ready (Ok buffer)
      | (Pending_Poll, c) \<Rightarrow> Pending_Poll)"

definition read_all_bytes :: "chan \<Rightarrow> chunk_result poll" where
  "read_all_bytes c = read_loop poll_next_bytes (Suc (length (ch_queue c))) [] c"

definition read_all_text :: "chan \<Rightarrow> chunk_result poll" where
  "read_all_text c = read_loop poll_next_text (Suc (length (ch_queue c))) [] c"

section \<open>Writing a stream to a file\<close>

text \<open>\<^verbatim>\<open>Path::join\<close> on Unix: an absolute path replaces the directory.\<close>

definition path_join :: "string \<Rightarrow> string \<Rightarrow> string" where
  "path_join dir p =
     (if p \<noteq> [] \<and> hd p = CHR ''/'' then p
      else if dir = [] \<or> last dir = CHR ''/'' then dir @ p
      else dir @ ''/'' @ p)"

text \<open>
  The outcomes of the file operations: whether the file can be created, which writes succeed
  (all, once the list is at its end), whether the flush does.
\<close>

record file_io =
  fi_creates :: bool
  fi_writes :: "bool list"
  fi_flushes :: bool

fun write_loop :: "nat \<Rightarrow> bool list \<Rightarrow> bytes \<Rightarrow> chan \<Rightarrow> (stream_error, unit) rust poll \<times> bytes" where
  "write_loop 0 ws written c = (Pending_Poll, written)"
| "write_loop (Suc n) ws written c =
     (case poll_next_bytes c of
        (Ready (Some (Ok b)), c) \<Rightarrow>
          if ws \<noteq> [] \<and> \<not> hd ws then (Ready (Err (Io Io_Write)), written)
          else write_loop n (tl ws) (written @ b) c
      | (Ready (Some (Err e)), c) \<Rightarrow> (Ready (Err e), written)
      | (Ready (Some Panic), c) \<Rightarrow> (Ready Panic, written)
      | (Ready None, c) \<Rightarrow> (Ready (Ok ()), written)
      | (Pending_Poll, c) \<Rightarrow> (Pending_Poll, written))"

text \<open>The result, and the file that was created with what has been written to it.\<close>

definition write_to_file ::
    "string \<Rightarrow> string option \<Rightarrow> string option \<Rightarrow> file_io \<Rightarrow> byte_reader \<Rightarrow> chan \<Rightarrow>
     (stream_error, string) rust poll \<times> (string \<times> bytes) option" where
  "write_to_file temp_dir directory name_override io reader c =
     (let directory = (case directory of None \<Rightarrow> temp_dir | Some d \<Rightarrow> d);
          name = (case name_override of None \<Rightarrow> bsi_name (br_info reader) | Some n \<Rightarrow> n);
          file_path = path_join directory name
      in if \<not> fi_creates io then (Ready (Err (Io Io_Create)), None)
         else
           (case write_loop (Suc (length (ch_queue c))) (fi_writes io) [] c of
              (Ready (Ok _), written) \<Rightarrow>
                (if fi_flushes io then Ready (Ok file_path) else Ready (Err (Io Io_Flush)),
                 Some (file_path, written))
            | (Ready (Err e), written) \<Rightarrow> (Ready (Err e), Some (file_path, written))
            | (Ready Panic, written) \<Rightarrow> (Ready Panic, Some (file_path, written))
            | (Pending_Poll, written) \<Rightarrow> (Pending_Poll, Some (file_path, written))))"

section \<open>Invariant\<close>

text \<open>Open streams have channels of their own, whose senders exist.\<close>

definition incoming_inv :: "incoming \<Rightarrow> bool" where
  "incoming_inv s \<longleftrightarrow>
     (\<forall>i d. ic_open_streams s i = Some d \<longrightarrow>
        id_chunk_tx d < length (ic_chans s) \<and> ch_tx (ic_chans s ! id_chunk_tx d))
     \<and> (\<forall>i j d e. ic_open_streams s i = Some d \<longrightarrow> ic_open_streams s j = Some e \<longrightarrow>
          id_chunk_tx d = id_chunk_tx e \<longrightarrow> i = j)"

lemma incoming_invD:
  assumes "incoming_inv s" and "ic_open_streams s i = Some d"
  shows "id_chunk_tx d < length (ic_chans s)" and "ch_tx (ic_chans s ! id_chunk_tx d)"
  using assms by (auto simp: incoming_inv_def)

lemma incoming_inv_unique:
  "incoming_inv s \<Longrightarrow> ic_open_streams s i = Some d \<Longrightarrow> ic_open_streams s j = Some e \<Longrightarrow>
     id_chunk_tx d = id_chunk_tx e \<Longrightarrow> i = j"
  by (auto simp: incoming_inv_def)

lemma incoming_inv_new: "incoming_inv incoming_new"
  by (simp add: incoming_inv_def incoming_new_def)

lemma incoming_inv_chan:
  "incoming_inv s \<Longrightarrow> ch_tx c = ch_tx (ic_chans s ! k) \<Longrightarrow> incoming_inv (set_chan k c s)"
  by (cases "k < length (ic_chans s)") (auto simp: incoming_inv_def set_chan_def nth_list_update not_less list_update_beyond)

lemma incoming_inv_descriptor:
  "incoming_inv s \<Longrightarrow> ic_open_streams s i = Some d \<Longrightarrow> id_chunk_tx d' = id_chunk_tx d \<Longrightarrow>
     incoming_inv (s\<lparr>ic_open_streams := (ic_open_streams s)(i \<mapsto> d')\<rparr>)"
  unfolding incoming_inv_def by (auto split: if_splits)

lemma chunk_send_cases:
  "chunk_send k r s =
     (ch_rx (ic_chans s ! k),
      if ch_rx (ic_chans s ! k)
      then set_chan k ((ic_chans s ! k)\<lparr>ch_queue := ch_queue (ic_chans s ! k) @ [r]\<rparr>) s else s)"
  by (simp add: chunk_send_def Let_def)

lemma incoming_inv_send [simp]: "incoming_inv s \<Longrightarrow> incoming_inv (snd (chunk_send k r s))"
  by (simp add: chunk_send_cases incoming_inv_chan)

lemma incoming_inv_close: "incoming_inv s \<Longrightarrow> incoming_inv (close_stream i s)"
  unfolding close_stream_def incoming_inv_def set_chan_def
  by (auto simp: nth_list_update split: option.split if_splits)

lemma incoming_inv_close_error: "incoming_inv s \<Longrightarrow> incoming_inv (close_stream_with_error i e s)"
  by (simp add: close_stream_with_error_def incoming_inv_close split: option.split)

lemma incoming_inv_yield: "incoming_inv s \<Longrightarrow> incoming_inv (yield_chunk i b s)"
  by (auto simp: yield_chunk_def chunk_send_cases incoming_inv_close intro: incoming_inv_chan split: option.split)

lemma incoming_inv_header: "incoming_inv s \<Longrightarrow> incoming_inv (handle_header of_millis now header identity t s)"
  unfolding handle_header_def incoming_inv_def Let_def
  by (auto simp: nth_append split: rust.split if_splits) fastforce+

lemma incoming_inv_chunk: "incoming_inv s \<Longrightarrow> incoming_inv (handle_chunk chunk t s)"
  unfolding handle_chunk_def Let_def
  by (auto split: option.split intro!: incoming_inv_close_error incoming_inv_yield incoming_inv_descriptor)

lemma incoming_inv_trailer: "incoming_inv s \<Longrightarrow> incoming_inv (handle_trailer trailer s)"
  unfolding handle_trailer_def Let_def
  by (auto split: option.split intro!: incoming_inv_close_error incoming_inv_close)

section \<open>Runs\<close>

text \<open>
  What reaches the manager: packets of any streams in any order, and the applications that
  drop their readers.
\<close>

datatype stream_event =
    Header_Event stream_header string encryption_type
  | Chunk_Event stream_chunk encryption_type
  | Trailer_Event stream_trailer
  | Reader_Dropped nat

primrec incoming_step :: "(int \<Rightarrow> int option) \<Rightarrow> int \<Rightarrow> incoming \<Rightarrow> stream_event \<Rightarrow> incoming" where
  "incoming_step of_millis now s (Header_Event h identity t) = handle_header of_millis now h identity t s"
| "incoming_step of_millis now s (Chunk_Event c t) = handle_chunk c t s"
| "incoming_step of_millis now s (Trailer_Event tr) = handle_trailer tr s"
| "incoming_step of_millis now s (Reader_Dropped k) =
     set_chan k ((ic_chans s ! k)\<lparr>ch_rx := False, ch_queue := []\<rparr>) s"

primrec event_stream :: "stream_event \<Rightarrow> string option" where
  "event_stream (Header_Event h _ _) = Some (sh_stream_id h)"
| "event_stream (Chunk_Event c _) = Some (sc_stream_id c)"
| "event_stream (Trailer_Event tr) = Some (st_stream_id tr)"
| "event_stream (Reader_Dropped k) = None"

interpretation im: event_machine "incoming_step of_millis now" incoming_new incoming_inv
proof
  show "incoming_inv incoming_new" by (rule incoming_inv_new)
  show "incoming_inv s \<Longrightarrow> incoming_inv (incoming_step of_millis now s e)" for s e
    by (cases e) (simp_all add: incoming_inv_header incoming_inv_chunk incoming_inv_trailer incoming_inv_chan)
qed

text \<open>
  What a stream should deliver, as a function of its own packets alone: the results for the
  reader, and whether the stream has ended.
\<close>

fun stream_outcome ::
    "u64 option \<Rightarrow> e2ee_type \<Rightarrow> u64 \<Rightarrow> u64 \<Rightarrow> stream_event list \<Rightarrow> chunk_result list \<times> bool" where
  "stream_outcome bytes_total t n len [] = ([], False)"
| "stream_outcome bytes_total t n len (Chunk_Event c t' # es) =
     (let len' = len + of_nat (length (sc_content c))
      in if t \<noteq> e2ee_type_from t' then ([Err EncryptionTypeMismatch], True)
         else if n \<noteq> sc_chunk_index c then ([Err MissedChunk], True)
         else if (case bytes_total of None \<Rightarrow> False | Some b \<Rightarrow> b < len') then ([Err LengthExceeded], True)
         else (let (q, ended) = stream_outcome bytes_total t (n + 1) len' es
               in (Ok (sc_content c) # q, ended)))"
| "stream_outcome bytes_total t n len (Trailer_Event tr # es) =
     (if (case bytes_total of None \<Rightarrow> False | Some b \<Rightarrow> len < b) then ([Err Incomplete_Stream], True)
      else if st_reason tr \<noteq> [] then ([Err (AbnormalEnd (st_reason tr))], True)
      else ([], True))"
| "stream_outcome bytes_total t n len (_ # es) = stream_outcome bytes_total t n len es"

text \<open>A channel without a sender in the map is left alone, unless its reader is dropped.\<close>

definition detached :: "nat \<Rightarrow> incoming \<Rightarrow> bool" where
  "detached k s \<longleftrightarrow> k < length (ic_chans s) \<and> (\<forall>i d. ic_open_streams s i = Some d \<longrightarrow> id_chunk_tx d \<noteq> k)"

lemma set_chan_simps [simp]:
  "ic_open_streams (set_chan k c s) = ic_open_streams s"
  "length (ic_chans (set_chan k c s)) = length (ic_chans s)"
  "ic_open_rx (set_chan k c s) = ic_open_rx s"
  "j \<noteq> k \<Longrightarrow> ic_chans (set_chan k c s) ! j = ic_chans s ! j"
  "k < length (ic_chans s) \<Longrightarrow> ic_chans (set_chan k c s) ! k = c"
  by (simp_all add: set_chan_def)

lemma chunk_send_frame [simp]:
  "ic_open_streams (snd (chunk_send k r s)) = ic_open_streams s"
  "length (ic_chans (snd (chunk_send k r s))) = length (ic_chans s)"
  "j \<noteq> k \<Longrightarrow> ic_chans (snd (chunk_send k r s)) ! j = ic_chans s ! j"
  by (simp_all add: chunk_send_cases)

text \<open>Closing a stream touches its own channel and descriptor only.\<close>

lemma close_stream_frame:
  "length (ic_chans (close_stream i s)) = length (ic_chans s)"
  "ic_open_streams (close_stream i s) = (ic_open_streams s)(i := None)"
  "\<forall>d. ic_open_streams s i = Some d \<longrightarrow> k \<noteq> id_chunk_tx d \<Longrightarrow>
     ic_chans (close_stream i s) ! k = ic_chans s ! k"
  by (auto simp: close_stream_def fun_eq_iff split: option.split)

lemma close_stream_with_error_frame:
  "length (ic_chans (close_stream_with_error i e s)) = length (ic_chans s)"
  "ic_open_streams (close_stream_with_error i e s) = (ic_open_streams s)(i := None)"
  "\<forall>d. ic_open_streams s i = Some d \<longrightarrow> k \<noteq> id_chunk_tx d \<Longrightarrow>
     ic_chans (close_stream_with_error i e s) ! k = ic_chans s ! k"
  by (auto simp: close_stream_with_error_def close_stream_frame fun_eq_iff split: option.split)

lemma yield_chunk_frame:
  "length (ic_chans (yield_chunk i b s)) = length (ic_chans s)"
  "ic_open_streams (yield_chunk i b s) j = ic_open_streams s j \<or> j = i \<and> ic_open_streams (yield_chunk i b s) j = None"
  "\<forall>d. ic_open_streams s i = Some d \<longrightarrow> k \<noteq> id_chunk_tx d \<Longrightarrow>
     ic_chans (yield_chunk i b s) ! k = ic_chans s ! k"
  by (auto simp: yield_chunk_def chunk_send_cases close_stream_frame split: option.split)

lemma handle_header_frame:
  "k < length (ic_chans s) \<Longrightarrow> ic_chans (handle_header f now h identity t s) ! k = ic_chans s ! k"
  "length (ic_chans s) \<le> length (ic_chans (handle_header f now h identity t s))"
  "j \<noteq> sh_stream_id h \<Longrightarrow> ic_open_streams (handle_header f now h identity t s) j = ic_open_streams s j"
  "ic_open_streams (handle_header f now h identity t s) j = Some d \<Longrightarrow>
     ic_open_streams s j = Some d \<or> id_chunk_tx d = length (ic_chans s)"
  by (auto simp: handle_header_def Let_def nth_append dest: stream_info_fields split: rust.splits if_splits)

lemma handle_chunk_frame:
  "length (ic_chans (handle_chunk c t s)) = length (ic_chans s)"
  "\<forall>d. ic_open_streams s (sc_stream_id c) = Some d \<longrightarrow> k \<noteq> id_chunk_tx d \<Longrightarrow>
     ic_chans (handle_chunk c t s) ! k = ic_chans s ! k"
  "j \<noteq> sc_stream_id c \<Longrightarrow> ic_open_streams (handle_chunk c t s) j = ic_open_streams s j"
  "ic_open_streams (handle_chunk c t s) j = Some d \<Longrightarrow>
     \<exists>d'. ic_open_streams s j = Some d' \<and> id_chunk_tx d = id_chunk_tx d'"
proof -
  show "length (ic_chans (handle_chunk c t s)) = length (ic_chans s)"
    by (simp add: handle_chunk_def Let_def close_stream_with_error_frame yield_chunk_frame split: option.split)
  show "\<forall>d. ic_open_streams s (sc_stream_id c) = Some d \<longrightarrow> k \<noteq> id_chunk_tx d \<Longrightarrow>
      ic_chans (handle_chunk c t s) ! k = ic_chans s ! k"
    by (auto simp: handle_chunk_def Let_def close_stream_with_error_frame yield_chunk_frame split: option.split)
  show "j \<noteq> sc_stream_id c \<Longrightarrow> ic_open_streams (handle_chunk c t s) j = ic_open_streams s j"
    using yield_chunk_frame(2) [of "sc_stream_id c" _ _ j]
    by (auto simp: handle_chunk_def Let_def close_stream_with_error_frame split: option.split)
  have yield: "\<exists>d'. ic_open_streams s' j = Some d' \<and> id_chunk_tx d = id_chunk_tx d'"
    if "ic_open_streams (yield_chunk i b s') j = Some d" for i b s'
    using yield_chunk_frame(2) [of i b s' j] that by (metis option.distinct(1))
  show "ic_open_streams (handle_chunk c t s) j = Some d \<Longrightarrow>
      \<exists>d'. ic_open_streams s j = Some d' \<and> id_chunk_tx d = id_chunk_tx d'"
    by (auto simp: handle_chunk_def Let_def close_stream_with_error_frame split: option.splits if_splits
        dest!: yield)
qed

lemma handle_trailer_frame:
  "length (ic_chans (handle_trailer tr s)) = length (ic_chans s)"
  "\<forall>d. ic_open_streams s (st_stream_id tr) = Some d \<longrightarrow> k \<noteq> id_chunk_tx d \<Longrightarrow>
     ic_chans (handle_trailer tr s) ! k = ic_chans s ! k"
  "ic_open_streams (handle_trailer tr s) j =
     (if j = st_stream_id tr then None else ic_open_streams s j)"
  by (auto simp: handle_trailer_def Let_def close_stream_with_error_frame close_stream_frame split: option.split)

text \<open>A step leaves the other streams, and the channels of no stream, as they are.\<close>

lemma step_other_stream:
  assumes "incoming_inv s" and "ic_open_streams s i = Some d" and "event_stream e \<noteq> Some i"
    and "e \<noteq> Reader_Dropped (id_chunk_tx d)"
  shows "ic_open_streams (incoming_step f now s e) i = Some d"
    and "ic_chans (incoming_step f now s e) ! id_chunk_tx d = ic_chans s ! id_chunk_tx d"
proof -
  have own: "\<forall>d'. ic_open_streams s j = Some d' \<longrightarrow> id_chunk_tx d \<noteq> id_chunk_tx d'" if "j \<noteq> i" for j
    using that assms(1,2) by (auto dest: incoming_inv_unique)
  show "ic_open_streams (incoming_step f now s e) i = Some d"
    using assms(2,3) by (cases e) (auto simp: handle_header_frame handle_chunk_frame handle_trailer_frame)
  show "ic_chans (incoming_step f now s e) ! id_chunk_tx d = ic_chans s ! id_chunk_tx d"
    using assms own incoming_invD [OF assms(1,2)]
    by (cases e) (auto simp: handle_header_frame handle_chunk_frame handle_trailer_frame)
qed

lemma step_detached:
  assumes "detached k s" and "e \<noteq> Reader_Dropped k"
  shows "detached k (incoming_step f now s e)"
    and "ic_chans (incoming_step f now s e) ! k = ic_chans s ! k"
proof -
  have k: "k < length (ic_chans s)" and no: "\<And>i d. ic_open_streams s i = Some d \<Longrightarrow> k \<noteq> id_chunk_tx d"
    using assms(1) by (auto simp: detached_def)
  show "ic_chans (incoming_step f now s e) ! k = ic_chans s ! k"
    using assms(2) k no by (cases e) (auto simp: handle_header_frame handle_chunk_frame handle_trailer_frame)
  show "detached k (incoming_step f now s e)"
    unfolding detached_def
  proof (intro conjI allI impI)
    show "k < length (ic_chans (incoming_step f now s e))"
      using k handle_header_frame(2) [of s] by (cases e) (auto simp: handle_chunk_frame handle_trailer_frame intro: less_le_trans)
    fix i d assume "ic_open_streams (incoming_step f now s e) i = Some d"
    then show "id_chunk_tx d \<noteq> k"
      using k no by (cases e) (auto simp: handle_trailer_frame split: if_splits
          dest!: handle_header_frame(4) handle_chunk_frame(4))
  qed
qed

lemma run_detached:
  "detached k s \<Longrightarrow> Reader_Dropped k \<notin> set es \<Longrightarrow>
     ic_chans (foldl (incoming_step f now) s es) ! k = ic_chans s ! k"
  by (induction es arbitrary: s) (auto simp: step_detached)

section \<open>A stream and its own packets\<close>

lemma detached_close:
  assumes "incoming_inv s" and "ic_open_streams s i = Some d"
    and "ic_open_streams s' = (ic_open_streams s)(i := None)" and "length (ic_chans s') = length (ic_chans s)"
  shows "detached (id_chunk_tx d) s'"
  unfolding detached_def assms(3,4)
  using incoming_invD(1) [OF assms(1,2)] incoming_inv_unique [OF assms(1) assms(2)]
  by (auto split: if_splits)

lemma close_own:
  assumes "incoming_inv s" and "ic_open_streams s i = Some d"
  shows "detached (id_chunk_tx d) (close_stream i s)"
    and "ic_chans (close_stream i s) ! id_chunk_tx d = (ic_chans s ! id_chunk_tx d)\<lparr>ch_tx := False\<rparr>"
proof -
  show "detached (id_chunk_tx d) (close_stream i s)"
    by (rule detached_close [OF assms]) (simp_all add: close_stream_frame)
  show "ic_chans (close_stream i s) ! id_chunk_tx d = (ic_chans s ! id_chunk_tx d)\<lparr>ch_tx := False\<rparr>"
    using incoming_invD(1) [OF assms] assms(2) by (simp add: close_stream_def)
qed

lemma close_error_own:
  assumes "incoming_inv s" and "ic_open_streams s i = Some d" and "ch_rx (ic_chans s ! id_chunk_tx d)"
  shows "detached (id_chunk_tx d) (close_stream_with_error i e s)"
    and "ic_chans (close_stream_with_error i e s) ! id_chunk_tx d =
      (ic_chans s ! id_chunk_tx d)\<lparr>ch_queue := ch_queue (ic_chans s ! id_chunk_tx d) @ [Err e], ch_tx := False\<rparr>"
proof -
  show "detached (id_chunk_tx d) (close_stream_with_error i e s)"
    by (rule detached_close [OF assms(1,2)]) (simp_all add: close_stream_with_error_frame)
  show "ic_chans (close_stream_with_error i e s) ! id_chunk_tx d =
      (ic_chans s ! id_chunk_tx d)\<lparr>ch_queue := ch_queue (ic_chans s ! id_chunk_tx d) @ [Err e], ch_tx := False\<rparr>"
    using incoming_invD(1) [OF assms(1,2)] assms(2,3)
    by (simp add: close_stream_with_error_def close_stream_def chunk_send_cases)
qed

lemma own_chunk_error:
  assumes "incoming_inv s" and "ic_open_streams s i = Some d" and "ch_rx (ic_chans s ! id_chunk_tx d)"
  shows "detached (id_chunk_tx d) (close_stream_with_error i e (s\<lparr>ic_open_streams := (ic_open_streams s)(i \<mapsto> d\<lparr>id_progress := p\<rparr>)\<rparr>))"
    and "ic_chans (close_stream_with_error i e (s\<lparr>ic_open_streams := (ic_open_streams s)(i \<mapsto> d\<lparr>id_progress := p\<rparr>)\<rparr>)) ! id_chunk_tx d =
      (ic_chans s ! id_chunk_tx d)\<lparr>ch_queue := ch_queue (ic_chans s ! id_chunk_tx d) @ [Err e], ch_tx := False\<rparr>"
proof -
  let ?s = "s\<lparr>ic_open_streams := (ic_open_streams s)(i \<mapsto> d\<lparr>id_progress := p\<rparr>)\<rparr>"
  have inv: "incoming_inv ?s" by (rule incoming_inv_descriptor [OF assms(1,2)]) simp
  have op: "ic_open_streams ?s i = Some (d\<lparr>id_progress := p\<rparr>)" by simp
  show "detached (id_chunk_tx d) (close_stream_with_error i e ?s)"
    and "ic_chans (close_stream_with_error i e ?s) ! id_chunk_tx d =
      (ic_chans s ! id_chunk_tx d)\<lparr>ch_queue := ch_queue (ic_chans s ! id_chunk_tx d) @ [Err e], ch_tx := False\<rparr>"
    using close_error_own [OF inv op, of e] assms(3) by simp_all
qed

text \<open>After the end nothing is added.\<close>

lemma run_after_end:
  assumes "detached k s" and "Reader_Dropped k \<notin> set es"
    and "ic_chans s ! k = c\<lparr>ch_queue := q, ch_tx := False\<rparr>"
  shows "ch_queue (ic_chans (foldl (incoming_step f now) s es) ! k) = q"
    and "\<not> ch_tx (ic_chans (foldl (incoming_step f now) s es) ! k)"
  using assms run_detached [OF assms(1,2), of f now] by simp_all

lemma run_outcome:
  assumes "incoming_inv s"
    and "ic_open_streams s i = Some \<lparr>id_progress = \<lparr>spr_chunk_index = n, spr_bytes_processed = len,
       spr_bytes_total = bytes_total\<rparr>, id_chunk_tx = k, id_encryption_type = t\<rparr>"
    and "ch_rx (ic_chans s ! k)" and "Reader_Dropped k \<notin> set es"
  shows "ch_queue (ic_chans (foldl (incoming_step f now) s es) ! k) =
      ch_queue (ic_chans s ! k) @
        fst (stream_outcome bytes_total t n len (filter (\<lambda>e. event_stream e = Some i) es))
    \<and> (ch_tx (ic_chans (foldl (incoming_step f now) s es) ! k) \<longleftrightarrow>
      \<not> snd (stream_outcome bytes_total t n len (filter (\<lambda>e. event_stream e = Some i) es)))"
  using assms
proof (induction es arbitrary: s n len)
  case Nil
  with incoming_invD(2) [of s i] show ?case by fastforce
next
  case (Cons e es)
  let ?d = "\<lparr>id_progress = \<lparr>spr_chunk_index = n, spr_bytes_processed = len,
       spr_bytes_total = bytes_total\<rparr>, id_chunk_tx = k, id_encryption_type = t\<rparr>"
  let ?s = "incoming_step f now s e"
  note inv = Cons.prems(1) and op = Cons.prems(2) and rx = Cons.prems(3)
  have inv': "incoming_inv ?s" using im.inv_step inv by blast
  have kl: "k < length (ic_chans s)" using incoming_invD(1) [OF inv op] by simp
  have no: "Reader_Dropped k \<notin> set es" "e \<noteq> Reader_Dropped k" using Cons.prems(4) by auto
  show ?case
  proof (cases "event_stream e = Some i")
    case False
    have "ic_open_streams ?s i = Some ?d" "ic_chans ?s ! k = ic_chans s ! k"
      using step_other_stream [OF inv op False] no(2) by simp_all
    with Cons.IH [OF inv'] rx no(1) False show ?thesis by simp
  next
    case own: True
    show ?thesis
    proof (cases e)
      case (Header_Event h identity t')
      with own op have "?s = s"
        by (auto simp: handle_header_def Let_def dest!: stream_info_fields split: rust.split)
      with Cons.IH [OF inv op rx no(1)] own Header_Event show ?thesis by simp
    next
      case (Trailer_Event tr)
      with own have i: "st_stream_id tr = i" by simp
      show ?thesis
      proof (cases "(case bytes_total of None \<Rightarrow> False | Some b \<Rightarrow> len < b) \<or> st_reason tr \<noteq> []")
        case True
        define er where "er = (if case bytes_total of None \<Rightarrow> False | Some b \<Rightarrow> len < b
            then Incomplete_Stream else AbnormalEnd (st_reason tr))"
        have "?s = close_stream_with_error i er s"
          using True op by (auto simp: Trailer_Event handle_trailer_def i er_def not_less split: option.splits)
        with run_after_end [where s = ?s and k = k and c = "ic_chans s ! k" and f = f and now = now and q = "ch_queue (ic_chans s ! k) @ [Err er]", OF _ no(1)]
          close_error_own [OF inv op, of er] rx True own show ?thesis
          by (auto simp: Trailer_Event i er_def)
      next
        case False
        then have "?s = close_stream i s"
          using op by (auto simp: Trailer_Event handle_trailer_def i not_less split: option.splits)
        with run_after_end [where s = ?s and k = k and c = "ic_chans s ! k" and f = f and now = now and q = "ch_queue (ic_chans s ! k)", OF _ no(1)]
          close_own [OF inv op] False own show ?thesis
          by (auto simp: Trailer_Event i)
      qed
    next
      case (Chunk_Event c t')
      with own have i: "sc_stream_id c = i" by simp
      let ?len = "len + of_nat (length (sc_content c))"
      let ?p = "\<lparr>spr_chunk_index = n + 1, spr_bytes_processed = ?len, spr_bytes_total = bytes_total\<rparr>"
      let ?s1 = "s\<lparr>ic_open_streams := (ic_open_streams s)(i \<mapsto> ?d\<lparr>id_progress := ?p\<rparr>)\<rparr>"
      consider (enc) "t \<noteq> e2ee_type_from t'" | (idx) "t = e2ee_type_from t'" "n \<noteq> sc_chunk_index c"
        | (long) "t = e2ee_type_from t'" "n = sc_chunk_index c"
            "case bytes_total of None \<Rightarrow> False | Some b \<Rightarrow> b < ?len"
        | (ok) "t = e2ee_type_from t'" "n = sc_chunk_index c"
            "\<not> (case bytes_total of None \<Rightarrow> False | Some b \<Rightarrow> b < ?len)" by blast
      then show ?thesis
      proof cases
        case enc
        then have "?s = close_stream_with_error i EncryptionTypeMismatch s"
          using op by (simp add: Chunk_Event handle_chunk_def i Let_def)
        with run_after_end [where s = ?s and k = k and c = "ic_chans s ! k" and f = f and now = now and q = "ch_queue (ic_chans s ! k) @ [Err EncryptionTypeMismatch]", OF _ no(1)]
          close_error_own [OF inv op, of EncryptionTypeMismatch] rx enc own show ?thesis
          by (simp add: Chunk_Event i)
      next
        case idx
        then have "?s = close_stream_with_error i MissedChunk s"
          using op by (simp add: Chunk_Event handle_chunk_def i Let_def)
        with run_after_end [where s = ?s and k = k and c = "ic_chans s ! k" and f = f and now = now and q = "ch_queue (ic_chans s ! k) @ [Err MissedChunk]", OF _ no(1)]
          close_error_own [OF inv op, of MissedChunk] rx idx own show ?thesis
          by (simp add: Chunk_Event i)
      next
        case long
        then have "?s = close_stream_with_error i LengthExceeded ?s1"
          using op by (auto simp: Chunk_Event handle_chunk_def i Let_def split: option.splits)
        with run_after_end [where s = ?s and k = k and c = "ic_chans s ! k" and f = f and now = now and q = "ch_queue (ic_chans s ! k) @ [Err LengthExceeded]", OF _ no(1)]
          own_chunk_error [OF inv op, of LengthExceeded ?p] rx long own show ?thesis
          by (simp add: Chunk_Event i Let_def)
      next
        case ok
        then have s: "?s = yield_chunk i (sc_content c) ?s1"
          using op by (auto simp: Chunk_Event handle_chunk_def i Let_def split: option.splits)
        then have "?s = set_chan k ((ic_chans s ! k)\<lparr>ch_queue := ch_queue (ic_chans s ! k) @ [Ok (sc_content c)]\<rparr>) ?s1"
          using rx by (simp add: yield_chunk_def chunk_send_cases)
        then have "ic_open_streams ?s i = Some (?d\<lparr>id_progress := ?p\<rparr>)"
            "ic_chans ?s ! k = (ic_chans s ! k)\<lparr>ch_queue := ch_queue (ic_chans s ! k) @ [Ok (sc_content c)]\<rparr>"
          using kl by (simp_all add: set_chan_def)
        with Cons.IH [OF inv', of "n + 1" ?len] rx no(1) ok own show ?thesis
          by (simp add: Chunk_Event i Let_def split_beta)
      qed
    qed (use own in simp)
  qed
qed

end
