(* ===== verification/Room_Streams.thy ===== *)
theory Room_Streams
  imports Outgoing_Streams Incoming_Streams
begin

text \<open>
  Data streams through the room: the handlers of \<^verbatim>\<open>room/mod.rs\<close> that pass received packets to
  the incoming manager, the encryption status of a participant that they update
  (\<^verbatim>\<open>room/participant/mod.rs\<close>), and the two managers together: what one side sends is what the
  reader of the other side gets.
\<close>

section \<open>Encryption status of a participant\<close>

text \<open>The tracks are given by the encryption types of their publications.\<close>

record participant_status =
  ps_track_publications :: "e2ee_type list"
  ps_is_encrypted :: bool
  ps_is_data_encrypted :: "bool option"
  ps_encryption_status_changed :: "bool list"

definition participant_status_new :: participant_status where
  "participant_status_new = \<lparr>ps_track_publications = [], ps_is_encrypted = False,
     ps_is_data_encrypted = None, ps_encryption_status_changed = []\<rparr>"

definition update_encryption_status :: "participant_status \<Rightarrow> participant_status" where
  "update_encryption_status p =
     (let tracks_encrypted = ps_track_publications p \<noteq> [] \<and> list_all (\<lambda>t. t \<noteq> E2ee_None) (ps_track_publications p);
          is_encrypted = (case ps_is_data_encrypted p of
             Some data_encrypted \<Rightarrow> tracks_encrypted \<and> data_encrypted | None \<Rightarrow> tracks_encrypted)
      in if ps_is_encrypted p \<noteq> is_encrypted
         then p\<lparr>ps_is_encrypted := is_encrypted,
                ps_encryption_status_changed := ps_encryption_status_changed p @ [is_encrypted]\<rparr>
         else p)"

definition update_data_encryption_status :: "bool \<Rightarrow> participant_status \<Rightarrow> participant_status" where
  "update_data_encryption_status is_encrypted p =
     (case ps_is_data_encrypted p of
        Some current \<Rightarrow>
          if current = is_encrypted then p
          else if current \<and> \<not> is_encrypted
          then update_encryption_status (p\<lparr>ps_is_data_encrypted := Some False\<rparr>)
          else p
      | None \<Rightarrow> update_encryption_status (p\<lparr>ps_is_data_encrypted := Some is_encrypted\<rparr>))"

lemma update_encryption_status_data [simp]:
  "ps_is_data_encrypted (update_encryption_status p) = ps_is_data_encrypted p"
  by (simp add: update_encryption_status_def Let_def)

lemma data_status_run:
  "ps_is_data_encrypted (fold update_data_encryption_status bs p) =
     (case ps_is_data_encrypted p of
        None \<Rightarrow> if bs = [] then None else Some (list_all id bs)
      | Some b \<Rightarrow> Some (b \<and> list_all id bs))"
  by (induction bs arbitrary: p) (auto simp: update_data_encryption_status_def split: option.split)

section \<open>The handlers of the room\<close>

datatype room_stream_event =
    StreamHeaderReceived stream_header string
  | StreamChunkReceived stream_chunk string
  | StreamTrailerReceived stream_trailer string
  | ByteStreamOpened string "byte_reader take_cell" string
  | TextStreamOpened string "text_reader take_cell" string

record room_streams =
  rst_incoming :: incoming
  rst_remote_participants :: "string \<rightharpoonup> participant_status"
  rst_dispatched :: "room_stream_event list"

definition dispatch :: "room_stream_event \<Rightarrow> room_streams \<Rightarrow> room_streams" where
  "dispatch ev r = r\<lparr>rst_dispatched := rst_dispatched r @ [ev]\<rparr>"

definition handle_data_stream_header ::
    "(int \<Rightarrow> int option) \<Rightarrow> int \<Rightarrow> stream_header \<Rightarrow> string \<Rightarrow> encryption_type \<Rightarrow> room_streams \<Rightarrow> room_streams" where
  "handle_data_stream_header of_millis now header participant_identity encryption_type r =
     (let r = r\<lparr>rst_incoming :=
            handle_header of_millis now header participant_identity encryption_type (rst_incoming r)\<rparr>;
          r = (case rst_remote_participants r participant_identity of
                 None \<Rightarrow> r
               | Some p \<Rightarrow>
                   r\<lparr>rst_remote_participants := (rst_remote_participants r)(participant_identity \<mapsto>
                       update_data_encryption_status (e2ee_type_from encryption_type \<noteq> E2ee_None) p)\<rparr>)
      in dispatch (StreamHeaderReceived header participant_identity) r)"

definition handle_data_stream_chunk ::
    "stream_chunk \<Rightarrow> string \<Rightarrow> encryption_type \<Rightarrow> room_streams \<Rightarrow> room_streams" where
  "handle_data_stream_chunk chunk participant_identity encryption_type r =
     dispatch (StreamChunkReceived chunk participant_identity)
       (r\<lparr>rst_incoming := handle_chunk chunk encryption_type (rst_incoming r)\<rparr>)"

definition handle_data_stream_trailer :: "stream_trailer \<Rightarrow> string \<Rightarrow> room_streams \<Rightarrow> room_streams" where
  "handle_data_stream_trailer trailer participant_identity r =
     dispatch (StreamTrailerReceived trailer participant_identity)
       (r\<lparr>rst_incoming := handle_trailer trailer (rst_incoming r)\<rparr>)"

text \<open>One turn of the task that announces newly opened streams.\<close>

definition incoming_data_stream_task :: "room_streams \<Rightarrow> room_streams" where
  "incoming_data_stream_task r =
     (case ic_opened (rst_incoming r) of
        [] \<Rightarrow> r
      | (reader, identity) # rest \<Rightarrow>
          let r = r\<lparr>rst_incoming := (rst_incoming r)\<lparr>ic_opened := rest\<rparr>\<rparr>
          in (case reader of
                Byte_Reader b \<Rightarrow> dispatch (ByteStreamOpened (bsi_topic (br_info b)) (cell_new b) identity) r
              | Text_Reader t \<Rightarrow> dispatch (TextStreamOpened (tsi_topic (tx_info t)) (cell_new t) identity) r))"

text \<open>One turn of the task that hands packets of outgoing streams to the engine.\<close>

definition outgoing_data_stream_task ::
    "(data_packet \<Rightarrow> data_packet_kind \<Rightarrow> bool \<Rightarrow> 'w \<Rightarrow> ('e, unit) rust \<times> 'w) \<Rightarrow> data_packet \<Rightarrow> 'w \<Rightarrow>
     ('e, unit) rust \<times> 'w" where
  "outgoing_data_stream_task publish_data packet w = publish_data packet Reliable False w"

section \<open>From the packets of one side to the events of the other\<close>

definition packet_event :: "string \<Rightarrow> encryption_type \<Rightarrow> data_packet \<Rightarrow> stream_event option" where
  "packet_event identity t p =
     (case dp_value p of
        Some (Value_StreamHeader h) \<Rightarrow> Some (Header_Event h identity t)
      | Some (Value_StreamChunk c) \<Rightarrow> Some (Chunk_Event c t)
      | Some (Value_StreamTrailer tr) \<Rightarrow> Some (Trailer_Event tr)
      | _ \<Rightarrow> None)"

fun chunk_events :: "string \<Rightarrow> encryption_type \<Rightarrow> u64 \<Rightarrow> bytes list \<Rightarrow> stream_event list" where
  "chunk_events i t n [] = []"
| "chunk_events i t n (c # cs) =
     Chunk_Event \<lparr>sc_stream_id = i, sc_chunk_index = n, sc_content = c\<rparr> t # chunk_events i t (n + 1) cs"

lemma packet_event_simps [simp]:
  "packet_event identity t (create_header_packet h ds) = Some (Header_Event h identity t)"
  "packet_event identity t (create_chunk_packet i n c) =
     Some (Chunk_Event \<lparr>sc_stream_id = i, sc_chunk_index = n, sc_content = c\<rparr> t)"
  "packet_event identity t (create_trailer_packet i reason) =
     Some (Trailer_Event \<lparr>st_stream_id = i, st_reason = unwrap_or [] reason\<rparr>)"
  by (simp_all add: packet_event_def create_header_packet_def create_chunk_packet_def create_trailer_packet_def)

lemma packet_events_chunks:
  "List.map_filter (packet_event identity t) (chunk_packets i n cs @ ps) =
     chunk_events i t n cs @ List.map_filter (packet_event identity t) ps"
  by (induction cs arbitrary: n) (simp_all add: map_filter_simps)

text \<open>The chunks of a whole stream, with the announced length, are delivered one by one.\<close>

lemma outcome_chunks:
  assumes "unat len + length (concat cs) = unat b"
  shows "stream_outcome (Some b) (e2ee_type_from t) n len
      (chunk_events i t n cs @ [Trailer_Event \<lparr>st_stream_id = i, st_reason = []\<rparr>]) = (map Ok cs, True)"
  using assms
proof (induction cs arbitrary: n len)
  case Nil
  then have "len = b" by (simp add: unsigned_word_eqI)
  then show ?case by simp
next
  case (Cons c cs)
  have "unat len + length c \<le> unat b" using Cons.prems by simp
  moreover have "unat b < 2 ^ LENGTH(64)" by (rule unsigned_less)
  ultimately have small: "unat len + length c < 2 ^ 64" by simp
  have l: "unat (len + of_nat (length c)) = unat len + length c"
    using small by (simp add: unat_word_ariths unat_of_nat)
  with Cons.prems have "\<not> b < len + of_nat (length c)" by (simp add: word_less_nat_alt)
  with Cons.IH [of "len + of_nat (length c)" "n + 1"] Cons.prems l show ?case
    by (simp add: Let_def)
qed

section \<open>Reading\<close>

lemma read_loop_bytes:
  "\<not> (ch_tx c \<and> ch_rx c) \<Longrightarrow> ch_queue c = map Ok cs \<Longrightarrow>
     read_loop poll_next_bytes (Suc (length cs)) buffer c = Ready (Ok (buffer @ concat cs))"
proof (induction cs arbitrary: buffer c)
  case (Cons b cs)
  then have "poll_next_bytes c = (Ready (Some (Ok b)), c\<lparr>ch_queue := map Ok cs\<rparr>)"
    by (simp add: poll_next_bytes_def poll_recv_def)
  with Cons.IH [of "c\<lparr>ch_queue := map Ok cs\<rparr>" "buffer @ b"] Cons.prems show ?case by simp
qed (simp add: poll_next_bytes_def poll_recv_def)

lemma read_loop_text:
  "\<not> (ch_tx c \<and> ch_rx c) \<Longrightarrow> ch_queue c = map Ok cs \<Longrightarrow> \<forall>b \<in> set cs. utf8_valid b \<Longrightarrow>
     read_loop poll_next_text (Suc (length cs)) buffer c = Ready (Ok (buffer @ concat cs))"
proof (induction cs arbitrary: buffer c)
  case (Cons b cs)
  then have "poll_next_text c = (Ready (Some (Ok b)), c\<lparr>ch_queue := map Ok cs\<rparr>)"
    by (simp add: poll_next_text_def poll_recv_def)
  with Cons.IH [of "c\<lparr>ch_queue := map Ok cs\<rparr>" "buffer @ b"] Cons.prems show ?case by simp
qed (simp add: poll_next_text_def poll_recv_def)

section \<open>Isolation of streams\<close>

lemma header_run_outcome:
  assumes "ic_open_streams (foldl (incoming_step f now) incoming_new es0) (sh_stream_id h) = None"
    and "sh_content_header h \<noteq> None"
    and "ic_open_rx (foldl (incoming_step f now) incoming_new es0)"
    and "Reader_Dropped (length (ic_chans (foldl (incoming_step f now) incoming_new es0))) \<notin> set es"
  shows "let s = foldl (incoming_step f now) incoming_new es0; k = length (ic_chans s);
      c = ic_chans (foldl (incoming_step f now) s (Header_Event h identity t # es)) ! k;
      (q, ended) = stream_outcome (sh_total_length h) (e2ee_type_from t) 0 0
        (filter (\<lambda>e. event_stream e = Some (sh_stream_id h)) es)
    in ch_queue c = q \<and> ch_tx c = (\<not> ended)"
proof -
  define s where "s = foldl (incoming_step f now) incoming_new es0"
  let ?s = "incoming_step f now s (Header_Event h identity t)"
  let ?k = "length (ic_chans s)"
  have inv: "incoming_inv ?s" unfolding s_def by (intro im.inv_step im.reach_inv)
  obtain info where info: "stream_info_try_from_with_encryption f now h (e2ee_type_from t) = Ok info"
    using assms(2)
    by (cases "sh_content_header h"; cases "the (sh_content_header h)")
      (auto simp: stream_info_try_from_with_encryption_def)
  have op: "ic_open_streams ?s (sh_stream_id h) = Some \<lparr>id_progress = \<lparr>spr_chunk_index = 0,
      spr_bytes_processed = 0, spr_bytes_total = sh_total_length h\<rparr>, id_chunk_tx = ?k,
      id_encryption_type = e2ee_type_from t\<rparr>"
    and c: "ic_chans ?s ! ?k = \<lparr>ch_queue = [], ch_tx = True, ch_rx = True\<rparr>"
    using stream_info_fields [OF info] assms(1,3)
    by (simp_all add: handle_header_def info Let_def progress_new_def flip: s_def)
  from run_outcome [OF inv op, of es f now] c assms(4) show ?thesis
    unfolding s_def [symmetric] by (simp add: Let_def split_beta)
qed

text \<open>
  C6. Streams do not interfere. Once a header has opened a stream, what its reader gets is
  determined by the packets of that stream alone, in the way \<open>stream_outcome\<close> says, whatever
  packets of other streams, further headers and dropped readers come in between.
\<close>

theorem streams_isolated:
  assumes "ic_open_streams (foldl (incoming_step f now) incoming_new es0) (sh_stream_id h) = None"
    and "sh_content_header h \<noteq> None"
    and "ic_open_rx (foldl (incoming_step f now) incoming_new es0)"
    and "Reader_Dropped (length (ic_chans (foldl (incoming_step f now) incoming_new es0))) \<notin> set es"
  shows "let s = foldl (incoming_step f now) incoming_new es0; k = length (ic_chans s);
      c = ic_chans (foldl (incoming_step f now) s (Header_Event h identity t # es)) ! k;
      (q, ended) = stream_outcome (sh_total_length h) (e2ee_type_from t) 0 0
        (filter (\<lambda>e. event_stream e = Some (sh_stream_id h)) es)
    in ch_queue c = q \<and> ch_tx c = (\<not> ended)"
  by (rule header_run_outcome [OF assms])

section \<open>End to end\<close>

lemma reader_of_header:
  assumes "ic_open_streams s (sh_stream_id h) = None" and "ic_open_rx s"
    and "stream_info_try_from_with_encryption f now h (e2ee_type_from t) = Ok info"
  shows "last (ic_opened (handle_header f now h identity t s)) =
      (any_reader_from info (length (ic_chans s)), identity)"
  using assms stream_info_fields [OF assms(3)] by (simp add: handle_header_def Let_def)

text \<open>
  The channel of a stream whose packets all arrive, in order, among others.
\<close>

lemma whole_stream_received:
  assumes "ic_open_streams (foldl (incoming_step f now) incoming_new es0) (sh_stream_id h) = None"
    and "sh_content_header h \<noteq> None" and "ic_open_rx (foldl (incoming_step f now) incoming_new es0)"
    and "Reader_Dropped (length (ic_chans (foldl (incoming_step f now) incoming_new es0))) \<notin> set es"
    and "sh_total_length h = Some (of_nat (length (concat cs)))" and "length (concat cs) < 2 ^ 64"
    and "filter (\<lambda>e. event_stream e = Some (sh_stream_id h)) es =
      List.map_filter (packet_event identity t) (tl (stream_packets h ds cs))"
  defines "s \<equiv> foldl (incoming_step f now) incoming_new es0"
  shows "ch_queue (ic_chans (foldl (incoming_step f now) s (Header_Event h identity t # es)) ! length (ic_chans s))
      = map Ok cs"
    and "\<not> ch_tx (ic_chans (foldl (incoming_step f now) s (Header_Event h identity t # es)) ! length (ic_chans s))"
proof -
  have own: "filter (\<lambda>e. event_stream e = Some (sh_stream_id h)) es =
      chunk_events (sh_stream_id h) t 0 cs @ [Trailer_Event \<lparr>st_stream_id = sh_stream_id h, st_reason = []\<rparr>]"
    unfolding assms(7) by (simp add: stream_packets_def packet_events_chunks map_filter_simps)
  have "unat (of_nat (length (concat cs)) :: u64) = length (concat cs)"
    using assms(6) by (simp add: unat_of_nat)
  then have "stream_outcome (sh_total_length h) (e2ee_type_from t) 0 0
      (filter (\<lambda>e. event_stream e = Some (sh_stream_id h)) es) = (map Ok cs, True)"
    unfolding own assms(5) by (intro outcome_chunks) simp
  with header_run_outcome [OF assms(1-4), of identity t]
  show "ch_queue (ic_chans (foldl (incoming_step f now) s (Header_Event h identity t # es)) ! length (ic_chans s))
      = map Ok cs"
    and "\<not> ch_tx (ic_chans (foldl (incoming_step f now) s (Header_Event h identity t # es)) ! length (ic_chans s))"
    by (simp_all add: Let_def s_def)
qed

lemma read_all_bytes_whole:
  "\<not> ch_tx c \<Longrightarrow> ch_queue c = map Ok cs \<Longrightarrow> read_all_bytes c = Ready (Ok (concat cs))"
  using read_loop_bytes [of c cs "[]"] by (simp add: read_all_bytes_def del: read_loop.simps)

lemma read_all_text_whole:
  "\<not> ch_tx c \<Longrightarrow> ch_queue c = map Ok cs \<Longrightarrow> \<forall>b \<in> set cs. utf8_valid b \<Longrightarrow>
     read_all_text c = Ready (Ok (concat cs))"
  using read_loop_text [of c cs "[]"] by (simp add: read_all_text_def del: read_loop.simps)

text \<open>What arrived first of a list of packets is a header; the rest arrives in order.\<close>

definition arrives :: "string \<Rightarrow> encryption_type \<Rightarrow> string \<Rightarrow> data_packet list \<Rightarrow> stream_event list \<Rightarrow> bool" where
  "arrives identity t i ps es \<longleftrightarrow>
     es \<noteq> [] \<and> Some (hd es) = packet_event identity t (hd ps)
     \<and> filter (\<lambda>e. event_stream e = Some i) (tl es) = List.map_filter (packet_event identity t) (tl ps)"

text \<open>
  C2. Bytes that are sent arrive. When \<^verbatim>\<open>send_bytes\<close> has returned, its packets have arrived in
  order, in between any packets of other streams, and the application has not dropped the
  reader, then the reader that the receiver announced for the stream carries the sender's
  information and reads exactly the bytes that were sent, whatever the encryption type.
\<close>

theorem bytes_end_to_end:
  assumes "send_bytes engine env content options w = (Ok info, w')" and "length content < 2 ^ 64"
    and "ic_open_streams (foldl (incoming_step f now) incoming_new es0) (bsi_id info) = None"
    and "ic_open_rx (foldl (incoming_step f now) incoming_new es0)"
    and "arrives identity t (bsi_id info) (drop (length (og_sent w)) (og_sent w')) es"
    and "Reader_Dropped (length (ic_chans (foldl (incoming_step f now) incoming_new es0))) \<notin> set es"
  shows "let s = foldl (incoming_step f now) incoming_new es0; k = length (ic_chans s);
      s1 = incoming_step f now s (hd es); s' = foldl (incoming_step f now) s es
    in (\<exists>r. last (ic_opened s1) = (Byte_Reader \<lparr>br_info = r, br_chunk_rx = k\<rparr>, identity)
          \<and> bsi_encryption_type r = e2ee_type_from t
          \<and> r\<lparr>bsi_timestamp := 0, bsi_encryption_type := E2ee_None\<rparr> = info\<lparr>bsi_timestamp := 0\<rparr>)
      \<and> read_all_bytes (ic_chans s' ! k) = Ready (Ok content)"
proof -
  define s where "s = foldl (incoming_step f now) incoming_new es0"
  let ?cs = "chunks_of (CHUNK_SIZE - 1) content"
  define h where "h = byte_stream_header env (Some (of_nat (length content))) (unwrap_or [] (sbo_name options)) options"
  note sent = send_bytes_Ok [OF assms(1), folded h_def]
  have id: "bsi_id info = sh_stream_id h" and len: "sh_total_length h = Some (of_nat (length (concat ?cs)))"
    and ch: "sh_content_header h = Some (Byte_Header \<lparr>byh_name = unwrap_or [] (sbo_name options)\<rparr>)"
    by (simp_all add: sent(2) h_def byte_info_from_headers_def byte_info_from_headers_with_encryption_def
        byte_stream_header_def)
  have ps: "drop (length (og_sent w)) (og_sent w') = stream_packets h (sbo_destination_identities options) ?cs"
    by (simp add: sent(1))
  obtain es' where es: "es = Header_Event h identity t # es'"
      and own: "filter (\<lambda>e. event_stream e = Some (sh_stream_id h)) es' =
        List.map_filter (packet_event identity t) (tl (stream_packets h (sbo_destination_identities options) ?cs))"
    using assms(5) unfolding arrives_def ps id by (cases es) (auto simp: stream_packets_def)
  have dropped: "Reader_Dropped (length (ic_chans s)) \<notin> set es'" using assms(6) by (simp add: es s_def)
  from whole_stream_received [OF assms(3) [unfolded id] _ assms(4) _ len _ own, folded s_def] ch dropped assms(2)
  have c: "ch_queue (ic_chans (foldl (incoming_step f now) s es) ! length (ic_chans s)) = map Ok ?cs"
    "\<not> ch_tx (ic_chans (foldl (incoming_step f now) s es) ! length (ic_chans s))"
    by (simp_all add: es)
  let ?r = "byte_info_from_headers_with_encryption f now h \<lparr>byh_name = unwrap_or [] (sbo_name options)\<rparr> (e2ee_type_from t)"
  have "stream_info_try_from_with_encryption f now h (e2ee_type_from t) = Ok (Byte_Info ?r)"
    by (simp add: stream_info_try_from_with_encryption_def ch)
  from reader_of_header [OF assms(3) [folded s_def, unfolded id] assms(4) [folded s_def] this, of identity]
  have "last (ic_opened (incoming_step f now s (hd es))) =
      (Byte_Reader \<lparr>br_info = ?r, br_chunk_rx = length (ic_chans s)\<rparr>, identity)"
    by (simp add: es any_reader_from_def)
  moreover have "?r\<lparr>bsi_timestamp := 0, bsi_encryption_type := E2ee_None\<rparr> = info\<lparr>bsi_timestamp := 0\<rparr>"
    by (simp add: sent(2) byte_info_from_headers_def byte_info_from_headers_with_encryption_def)
  moreover have "bsi_encryption_type ?r = e2ee_type_from t"
    by (simp add: byte_info_from_headers_with_encryption_def)
  ultimately show ?thesis
    using read_all_bytes_whole [OF c(2,1)] unfolding s_def [symmetric] Let_def by auto
qed

text \<open>
  C15. Text that is sent arrives. As for bytes: although the text is cut into chunks and each
  chunk is decoded on its own, the reader of the stream gets exactly the text.
\<close>

theorem text_end_to_end:
  assumes "send_text engine env str options w = (Ok info, w')" and "utf8_valid str" and "length str < 2 ^ 64"
    and "ic_open_streams (foldl (incoming_step f now) incoming_new es0) (tsi_id info) = None"
    and "ic_open_rx (foldl (incoming_step f now) incoming_new es0)"
    and "arrives identity t (tsi_id info) (drop (length (og_sent w)) (og_sent w')) es"
    and "Reader_Dropped (length (ic_chans (foldl (incoming_step f now) incoming_new es0))) \<notin> set es"
  shows "let s = foldl (incoming_step f now) incoming_new es0; k = length (ic_chans s);
      s1 = incoming_step f now s (hd es); s' = foldl (incoming_step f now) s es
    in (\<exists>r. last (ic_opened s1) = (Text_Reader \<lparr>tx_info = r, tx_chunk_rx = k\<rparr>, identity)
          \<and> tsi_encryption_type r = e2ee_type_from t
          \<and> r\<lparr>tsi_timestamp := 0, tsi_encryption_type := E2ee_None\<rparr> = info\<lparr>tsi_timestamp := 0\<rparr>)
      \<and> read_all_text (ic_chans s' ! k) = Ready (Ok str)"
proof -
  define s where "s = foldl (incoming_step f now) incoming_new es0"
  define h where "h = text_stream_header env (Some (of_nat (length str))) options"
  note sent = send_text_Ok [OF assms(1), folded h_def]
  obtain cs where cs: "utf8_chunks_from CHUNK_SIZE str = Some cs"
      "og_sent w' = og_sent w @ stream_packets h (sto_destination_identities options) cs" using sent(1) by blast
  with utf8_chunks_total [OF assms(2), of CHUNK_SIZE] have
    str: "concat cs = str" "\<forall>b \<in> set cs. utf8_valid b" by (auto simp: CHUNK_SIZE_def)
  have id: "tsi_id info = sh_stream_id h" and len: "sh_total_length h = Some (of_nat (length (concat cs)))"
    and ch: "sh_content_header h = Some (Text_Header (text_header_of options))"
    by (simp_all add: sent(2) h_def text_info_from_headers_def text_info_from_headers_with_encryption_def
        text_stream_header_def str)
  have ps: "drop (length (og_sent w)) (og_sent w') = stream_packets h (sto_destination_identities options) cs"
    by (simp add: cs(2))
  obtain es' where es: "es = Header_Event h identity t # es'"
      and own: "filter (\<lambda>e. event_stream e = Some (sh_stream_id h)) es' =
        List.map_filter (packet_event identity t) (tl (stream_packets h (sto_destination_identities options) cs))"
    using assms(6) unfolding arrives_def ps id by (cases es) (auto simp: stream_packets_def)
  have dropped: "Reader_Dropped (length (ic_chans s)) \<notin> set es'" using assms(7) by (simp add: es s_def)
  from whole_stream_received [OF assms(4) [unfolded id] _ assms(5) _ len _ own, folded s_def] ch dropped assms(3)
  have c: "ch_queue (ic_chans (foldl (incoming_step f now) s es) ! length (ic_chans s)) = map Ok cs"
    "\<not> ch_tx (ic_chans (foldl (incoming_step f now) s es) ! length (ic_chans s))"
    by (simp_all add: es str)
  let ?r = "text_info_from_headers_with_encryption f now h (text_header_of options) (e2ee_type_from t)"
  have "stream_info_try_from_with_encryption f now h (e2ee_type_from t) = Ok (Text_Info ?r)"
    by (simp add: stream_info_try_from_with_encryption_def ch)
  from reader_of_header [OF assms(4) [folded s_def, unfolded id] assms(5) [folded s_def] this, of identity]
  have "last (ic_opened (incoming_step f now s (hd es))) =
      (Text_Reader \<lparr>tx_info = ?r, tx_chunk_rx = length (ic_chans s)\<rparr>, identity)"
    by (simp add: es any_reader_from_def)
  moreover have "?r\<lparr>tsi_timestamp := 0, tsi_encryption_type := E2ee_None\<rparr> = info\<lparr>tsi_timestamp := 0\<rparr>"
    by (simp add: sent(2) text_info_from_headers_def text_info_from_headers_with_encryption_def)
  moreover have "tsi_encryption_type ?r = e2ee_type_from t"
    by (simp add: text_info_from_headers_with_encryption_def)
  ultimately show ?thesis
    using read_all_text_whole [OF c(2,1) str(2)] unfolding s_def [symmetric] Let_def by (auto simp: str(1))
qed

lemma filter_chunk_events [simp]: "filter (\<lambda>e. event_stream e = Some i) (chunk_events i t n cs) = chunk_events i t n cs"
  by (induction cs arbitrary: n) simp_all

text \<open>The packets of one stream, arriving alone.\<close>

definition stream_events :: "string \<Rightarrow> encryption_type \<Rightarrow> stream_header \<Rightarrow> bytes list \<Rightarrow> stream_event list" where
  "stream_events identity t h cs =
     Header_Event h identity t # chunk_events (sh_stream_id h) t 0 cs @
       [Trailer_Event \<lparr>st_stream_id = sh_stream_id h, st_reason = []\<rparr>]"

lemma stream_events_arrive: "arrives identity t (sh_stream_id h) (stream_packets h ds cs) (stream_events identity t h cs)"
  by (simp add: arrives_def stream_events_def stream_packets_def packet_events_chunks map_filter_simps)

lemma stream_events_not_dropped [simp]: "Reader_Dropped k \<notin> set (stream_events identity t h cs)"
proof -
  have "Reader_Dropped k \<notin> set (chunk_events i t n cs)" for i n
    by (induction cs arbitrary: n) simp_all
  then show ?thesis by (simp add: stream_events_def)
qed

definition example_env :: call_env where
  "example_env = \<lparr>env_now = 1700000000000, env_uuid = ''s1'', env_of_millis = Some\<rparr>"

definition example_byte_options :: stream_byte_options where
  "example_byte_options = \<lparr>sbo_topic = ''files'', sbo_attributes = Map.empty,
     sbo_destination_identities = [''alice''], sbo_id = None, sbo_mime_type = None,
     sbo_name = Some ''a.bin'', sbo_total_length = None\<rparr>"

definition example_text_options :: stream_text_options where
  "example_text_options = \<lparr>sto_topic = ''chat'', sto_attributes = Map.empty,
     sto_destination_identities = [], sto_id = None, sto_operation_type = None, sto_version = None,
     sto_reply_to_stream_id = None, sto_attached_stream_ids = [], sto_generated = None\<rparr>"

definition example_outgoing :: outgoing where
  "example_outgoing = \<lparr>og_sent = [], og_streams = []\<rparr>"

theorem bytes_end_to_end_witness:
  "let es = stream_events ''bob'' Enc_Gcm (byte_stream_header example_env (Some 3) ''a.bin'' example_byte_options)
         (chunks_of (CHUNK_SIZE - 1) [1, 2, 3])
   in read_all_bytes (ic_chans (foldl (incoming_step Some 0) incoming_new es) ! 0) = Ready (Ok [1, 2, 3])"
proof -
  let ?h = "byte_stream_header example_env (Some 3) ''a.bin'' example_byte_options"
  let ?es = "stream_events ''bob'' Enc_Gcm ?h (chunks_of (CHUNK_SIZE - 1) [1, 2, 3])"
  obtain info w' where sent: "send_bytes accepting example_env [1, 2, 3] example_byte_options example_outgoing = (Ok info, w')"
    using send_bytes_accepting by blast
  have len: "Some (of_nat (length [1 :: u8, 2, 3])) = Some (3 :: u64)" by simp
  note s = send_bytes_Ok [OF sent, unfolded len]
  have "arrives ''bob'' Enc_Gcm (bsi_id info) (drop (length (og_sent example_outgoing)) (og_sent w')) ?es"
    unfolding s using stream_events_arrive [of "''bob''" Enc_Gcm ?h "[''alice'']"]
    by (simp add: byte_info_from_headers_def byte_info_from_headers_with_encryption_def example_byte_options_def)
  from bytes_end_to_end [OF sent _ _ _ this, where f = Some and now = 0 and ?es0.0 = "[]"]
  show ?thesis by (simp add: incoming_new_def Let_def)
qed

theorem text_end_to_end_witness:
  "\<exists>cs. utf8_chunks_from CHUNK_SIZE [0x48, 0x69] = Some cs
     \<and> read_all_text (ic_chans (foldl (incoming_step Some 0) incoming_new
         (stream_events ''bob'' Enc_None (text_stream_header example_env (Some 2) example_text_options) cs)) ! 0)
       = Ready (Ok [0x48, 0x69])"
proof -
  let ?h = "text_stream_header example_env (Some 2) example_text_options"
  have v: "utf8_valid [0x48, 0x69]" by code_simp
  obtain info w' where sent: "send_text accepting example_env [0x48, 0x69] example_text_options example_outgoing = (Ok info, w')"
    using send_text_accepting [OF v] by blast
  have len: "Some (of_nat (length [0x48 :: u8, 0x69])) = Some (2 :: u64)" by simp
  note s = send_text_Ok [OF sent, unfolded len]
  obtain cs where cs: "utf8_chunks_from CHUNK_SIZE [0x48, 0x69] = Some cs"
      "og_sent w' = og_sent example_outgoing @ stream_packets ?h (sto_destination_identities example_text_options) cs"
    using s(1) by blast
  let ?es = "stream_events ''bob'' Enc_None ?h cs"
  have "arrives ''bob'' Enc_None (tsi_id info) (drop (length (og_sent example_outgoing)) (og_sent w')) ?es"
    unfolding s(2) cs(2) using stream_events_arrive [of "''bob''" Enc_None ?h "[]"]
    by (simp add: text_info_from_headers_def text_info_from_headers_with_encryption_def example_text_options_def)
  from text_end_to_end [OF sent v _ _ _ this, where f = Some and now = 0 and ?es0.0 = "[]"] cs(1)
  show ?thesis by (simp add: incoming_new_def Let_def)
qed

theorem streams_isolated_witness:
  "let h = byte_stream_header example_env None ''a.bin'' example_byte_options;
       c = ic_chans (foldl (incoming_step Some 0) incoming_new
         [Header_Event h ''bob'' Enc_Gcm,
          Chunk_Event \<lparr>sc_stream_id = ''s2'', sc_chunk_index = 7, sc_content = [9]\<rparr> Enc_Gcm,
          Chunk_Event \<lparr>sc_stream_id = ''s1'', sc_chunk_index = 0, sc_content = [1]\<rparr> Enc_Gcm,
          Chunk_Event \<lparr>sc_stream_id = ''s1'', sc_chunk_index = 1, sc_content = [2]\<rparr> Enc_None]) ! 0
   in ch_queue c = [Ok [1], Err EncryptionTypeMismatch] \<and> \<not> ch_tx c"
  using streams_isolated [of Some 0 "[]" "byte_stream_header example_env None ''a.bin'' example_byte_options"
      "[Chunk_Event \<lparr>sc_stream_id = ''s2'', sc_chunk_index = 7, sc_content = [9]\<rparr> Enc_Gcm,
        Chunk_Event \<lparr>sc_stream_id = ''s1'', sc_chunk_index = 0, sc_content = [1]\<rparr> Enc_Gcm,
        Chunk_Event \<lparr>sc_stream_id = ''s1'', sc_chunk_index = 1, sc_content = [2]\<rparr> Enc_None]" "''bob''" Enc_Gcm]
  by (simp add: incoming_new_def byte_stream_header_def example_env_def example_byte_options_def Let_def)

section \<open>All or an error\<close>

lemma chunk_send_rx [simp]: "ch_rx (ic_chans (snd (chunk_send j r s)) ! k) = ch_rx (ic_chans s ! k)"
  by (cases "j < length (ic_chans s)")
    (auto simp: chunk_send_cases set_chan_def nth_list_update not_less list_update_beyond)

lemma close_stream_rx [simp]: "ch_rx (ic_chans (close_stream i s) ! k) = ch_rx (ic_chans s ! k)"
proof (cases "ic_open_streams s i")
  case (Some d)
  then show ?thesis
    by (cases "id_chunk_tx d < length (ic_chans s)")
      (auto simp: close_stream_def set_chan_def nth_list_update not_less list_update_beyond)
qed (simp add: close_stream_def)

lemma close_stream_with_error_rx [simp]:
  "ch_rx (ic_chans (close_stream_with_error i e s) ! k) = ch_rx (ic_chans s ! k)"
  by (simp add: close_stream_with_error_def split: option.split)

lemma yield_chunk_rx [simp]: "ch_rx (ic_chans (yield_chunk i b s) ! k) = ch_rx (ic_chans s ! k)"
proof (cases "ic_open_streams s i")
  case (Some d)
  then show ?thesis
    by (cases "id_chunk_tx d < length (ic_chans s)")
      (auto simp: yield_chunk_def chunk_send_cases set_chan_def nth_list_update not_less list_update_beyond)
qed (simp add: yield_chunk_def)

lemma step_rx:
  assumes "k < length (ic_chans s)" and "e \<noteq> Reader_Dropped k"
  shows "ch_rx (ic_chans (incoming_step f now s e) ! k) = ch_rx (ic_chans s ! k)"
    and "k < length (ic_chans (incoming_step f now s e))"
proof -
  show "ch_rx (ic_chans (incoming_step f now s e) ! k) = ch_rx (ic_chans s ! k)"
    using assms by (cases e)
      (auto simp: handle_header_frame handle_chunk_def handle_trailer_def Let_def split: option.split)
  show "k < length (ic_chans (incoming_step f now s e))"
    using assms handle_header_frame(2) [of s]
    by (cases e) (auto simp: handle_chunk_frame handle_trailer_frame intro: less_le_trans)
qed

lemma run_rx:
  "k < length (ic_chans s) \<Longrightarrow> Reader_Dropped k \<notin> set es \<Longrightarrow>
     ch_rx (ic_chans (foldl (incoming_step f now) s es) ! k) = ch_rx (ic_chans s ! k)"
  by (induction es arbitrary: s) (auto simp: step_rx)

primrec is_header :: "stream_event \<Rightarrow> bool" where
  "is_header (Header_Event _ _ _) = True"
| "is_header (Chunk_Event _ _) = False"
| "is_header (Trailer_Event _) = False"
| "is_header (Reader_Dropped _) = False"

lemma outcome_whole:
  assumes "stream_outcome bytes_total (e2ee_type_from t) n len es = (map Ok cs, True)"
    and "\<forall>e \<in> set es. event_stream e = Some i"
    and "case bytes_total of None \<Rightarrow> True | Some b \<Rightarrow> len \<le> b"
  shows "\<exists>tr rest. filter (\<lambda>e. \<not> is_header e) es = chunk_events i t n cs @ Trailer_Event tr # rest
    \<and> st_reason tr = []
    \<and> (case bytes_total of None \<Rightarrow> True | Some b \<Rightarrow> len + of_nat (length (concat cs)) = b)"
  using assms
proof (induction es arbitrary: n len cs)
  case (Cons e es)
  show ?case
  proof (cases e)
    case (Header_Event h identity t')
    with Cons.IH [of n len cs] Cons.prems show ?thesis by simp
  next
    case (Trailer_Event tr)
    with Cons.prems show ?thesis
      by (intro exI [of _ tr] exI [of _ "filter (\<lambda>e. \<not> is_header e) es"])
        (auto split: if_splits option.splits)
  next
    case (Reader_Dropped k)
    with Cons.prems(2) show ?thesis by simp
  next
    case (Chunk_Event c t')
    obtain q en where q: "stream_outcome bytes_total (e2ee_type_from t) (n + 1) (len + of_nat (length (sc_content c))) es = (q, en)"
      by fastforce
    from Cons.prems(1) q have ok: "t' = t" "n = sc_chunk_index c" "en" "map Ok cs = Ok (sc_content c) # q"
        "\<not> (case bytes_total of None \<Rightarrow> False | Some b \<Rightarrow> b < len + of_nat (length (sc_content c)))"
      by (auto simp: Chunk_Event Let_def split: if_splits)
    from ok(4) obtain cs' where cs': "cs = sc_content c # cs'" "q = map Ok cs'" by auto
    have le: "case bytes_total of None \<Rightarrow> True | Some b \<Rightarrow> len + of_nat (length (sc_content c)) \<le> b"
      using ok(5) by (auto split: option.splits)
    obtain tr rest where
      "filter (\<lambda>e. \<not> is_header e) es = chunk_events i t (n + 1) cs' @ Trailer_Event tr # rest" "st_reason tr = []"
      "case bytes_total of None \<Rightarrow> True | Some b \<Rightarrow> len + of_nat (length (sc_content c)) + of_nat (length (concat cs')) = b"
      using Cons.IH [of "n + 1" "len + of_nat (length (sc_content c))" cs'] q ok(3) cs'(2) Cons.prems(2) le by auto
    moreover have "c = \<lparr>sc_stream_id = i, sc_chunk_index = n, sc_content = sc_content c\<rparr>"
      using Cons.prems(2) ok(2) by (cases c) (simp add: Chunk_Event)
    ultimately show ?thesis
      using ok(1) cs' by (intro exI [of _ tr] exI [of _ rest]) (simp add: Chunk_Event add.assoc split: option.splits)
  qed
qed simp

lemma read_loop_bytes_Ok:
  "read_loop poll_next_bytes m buffer c = Ready (Ok b) \<Longrightarrow>
     \<exists>cs. ch_queue c = map Ok cs \<and> b = buffer @ concat cs \<and> \<not> (ch_tx c \<and> ch_rx c)"
proof (induction m arbitrary: buffer c)
  case (Suc m)
  show ?case
  proof (cases "ch_queue c")
    case Nil
    with Suc.prems show ?thesis by (auto simp: poll_next_bytes_def poll_recv_def split: if_splits)
  next
    case (Cons r rs)
    with Suc.prems obtain b' where r: "r = Ok b'"
      by (cases r) (auto simp: poll_next_bytes_def poll_recv_def)
    with Cons have "poll_next_bytes c = (Ready (Some (Ok b')), c\<lparr>ch_queue := rs\<rparr>)"
      by (simp add: poll_next_bytes_def poll_recv_def)
    with Suc.prems have "read_loop poll_next_bytes m (buffer @ b') (c\<lparr>ch_queue := rs\<rparr>) = Ready (Ok b)" by simp
    from Suc.IH [OF this] Cons r show ?thesis by (auto intro: exI [of _ "b' # _"])
  qed
qed simp

text \<open>
  C5. A reader gets the whole stream or an error. If reading a stream to the end succeeds, then
  the packets of that stream, apart from repeated headers, began with its chunks, numbered from
  zero without a gap or a repetition and all encrypted as the header was, and a trailer without
  a reason; the result is their contents; and it has the announced length (as a 64-bit number).
\<close>

theorem read_whole_or_error:
  assumes "ic_open_streams (foldl (incoming_step f now) incoming_new es0) (sh_stream_id h) = None"
    and "sh_content_header h \<noteq> None"
    and "ic_open_rx (foldl (incoming_step f now) incoming_new es0)"
    and "Reader_Dropped (length (ic_chans (foldl (incoming_step f now) incoming_new es0))) \<notin> set es"
    and "read_all_bytes (ic_chans (foldl (incoming_step f now) (foldl (incoming_step f now) incoming_new es0)
           (Header_Event h identity t # es)) ! length (ic_chans (foldl (incoming_step f now) incoming_new es0)))
         = Ready (Ok content)"
  shows "\<exists>cs tr rest. filter (\<lambda>e. \<not> is_header e) (filter (\<lambda>e. event_stream e = Some (sh_stream_id h)) es)
      = chunk_events (sh_stream_id h) t 0 cs @ Trailer_Event tr # rest
    \<and> st_reason tr = [] \<and> concat cs = content
    \<and> (case sh_total_length h of None \<Rightarrow> True | Some b \<Rightarrow> of_nat (length content) = b)"
proof -
  define s where "s = foldl (incoming_step f now) incoming_new es0"
  let ?own = "filter (\<lambda>e. event_stream e = Some (sh_stream_id h)) es"
  let ?c = "ic_chans (foldl (incoming_step f now) s (Header_Event h identity t # es)) ! length (ic_chans s)"
  obtain q en where q: "stream_outcome (sh_total_length h) (e2ee_type_from t) 0 0 ?own = (q, en)" by fastforce
  with header_run_outcome [OF assms(1-4), of identity t, folded s_def]
  have c: "ch_queue ?c = q" "ch_tx ?c = (\<not> en)" by (simp_all add: Let_def)
  obtain cs where cs: "q = map Ok cs" "content = concat cs" "\<not> (ch_tx ?c \<and> ch_rx ?c)"
    using read_loop_bytes_Ok [OF assms(5) [folded s_def, unfolded read_all_bytes_def]] c(1) by auto
  obtain info where info: "stream_info_try_from_with_encryption f now h (e2ee_type_from t) = Ok info"
    using assms(2)
    by (cases "sh_content_header h"; cases "the (sh_content_header h)")
      (auto simp: stream_info_try_from_with_encryption_def)
  have rx0: "ch_rx (ic_chans (handle_header f now h identity t s) ! length (ic_chans s))"
    and l: "length (ic_chans s) < length (ic_chans (handle_header f now h identity t s))"
    using stream_info_fields [OF info] assms(1,3) by (simp_all add: handle_header_def info Let_def flip: s_def)
  from run_rx [OF l assms(4) [folded s_def], of f now] rx0 have "ch_rx ?c" by simp
  with cs(3) c(2) have "en" by simp
  with q cs(1) have o: "stream_outcome (sh_total_length h) (e2ee_type_from t) 0 0 ?own = (map Ok cs, True)" by simp
  have zero: "case sh_total_length h of None \<Rightarrow> True | Some b \<Rightarrow> 0 \<le> b" by (simp split: option.split)
  have own: "\<forall>e \<in> set ?own. event_stream e = Some (sh_stream_id h)" by simp
  from outcome_whole [OF o own zero] obtain tr rest where
    w: "filter (\<lambda>e. \<not> is_header e) ?own = chunk_events (sh_stream_id h) t 0 cs @ Trailer_Event tr # rest"
      "st_reason tr = []"
      "case sh_total_length h of None \<Rightarrow> True | Some b \<Rightarrow> 0 + of_nat (length (concat cs)) = b"
    by blast
  with cs(2) show ?thesis
    by (intro exI [of _ cs] exI [of _ tr] exI [of _ rest] conjI) (simp_all split: option.splits)
qed

theorem read_whole_or_error_witness:
  "\<exists>cs tr rest. filter (\<lambda>e. \<not> is_header e) (filter (\<lambda>e. event_stream e = Some ''s1'')
       [Chunk_Event \<lparr>sc_stream_id = ''s1'', sc_chunk_index = 0, sc_content = [1]\<rparr> Enc_Gcm,
        Trailer_Event \<lparr>st_stream_id = ''s1'', st_reason = []\<rparr>])
      = chunk_events ''s1'' Enc_Gcm 0 cs @ Trailer_Event tr # rest \<and> concat cs = [1]"
  using read_whole_or_error [of Some 0 "[]" "byte_stream_header example_env None ''a.bin'' example_byte_options"
      "[Chunk_Event \<lparr>sc_stream_id = ''s1'', sc_chunk_index = 0, sc_content = [1]\<rparr> Enc_Gcm,
        Trailer_Event \<lparr>st_stream_id = ''s1'', st_reason = []\<rparr>]" "''bob''" Enc_Gcm "[1]"]
  by (simp add: incoming_new_def byte_stream_header_def example_env_def example_byte_options_def Let_def
      handle_header_def handle_chunk_def handle_trailer_def stream_info_try_from_with_encryption_def
      byte_info_from_headers_with_encryption_def progress_new_def yield_chunk_def chunk_send_def set_chan_def
      close_stream_def read_all_bytes_def poll_next_bytes_def poll_recv_def) fast

section \<open>Limits\<close>

text \<open>
  The contents of a stream are not addressed. Destinations given for a stream go into its
  header only; the packets that carry its contents name no destination, which the protocol
  defines as sent to all.
\<close>

lemma contents_sent_to_all:
  assumes "send_bytes engine env content options w = (Ok info, w')"
  shows "\<exists>p ps. drop (length (og_sent w)) (og_sent w') = p # ps
    \<and> dp_destination_identities p = sbo_destination_identities options
    \<and> (\<forall>q \<in> set ps. dp_destination_identities q = [])
    \<and> concat (List.map_filter (\<lambda>q. case dp_value q of Some (Value_StreamChunk c) \<Rightarrow> Some (sc_content c) | _ \<Rightarrow> None) ps)
      = content"
proof -
  let ?f = "\<lambda>q. case dp_value q of Some (Value_StreamChunk c) \<Rightarrow> Some (sc_content c) | _ \<Rightarrow> None"
  have none: "\<forall>q \<in> set (chunk_packets i n cs). dp_destination_identities q = []" for i n cs
    by (induction cs arbitrary: n) (simp_all add: create_chunk_packet_def data_packet_default_def)
  have cut: "List.map_filter ?f (chunk_packets i n cs @ [create_trailer_packet i reason]) = cs" for i n cs reason
    by (induction cs arbitrary: n)
      (simp_all add: map_filter_simps create_chunk_packet_def create_trailer_packet_def)
  show ?thesis
    unfolding send_bytes_Ok(1) [OF assms]
    using none by (simp add: stream_packets_def create_header_packet_def cut)
      (simp add: create_trailer_packet_def data_packet_default_def)
qed

lemma contents_sent_to_all_witness:
  "\<exists>info w'. send_bytes accepting example_env [1] example_byte_options example_outgoing = (Ok info, w')
     \<and> dp_destination_identities (hd (og_sent w')) = [''alice'']
     \<and> (\<forall>q \<in> set (tl (og_sent w')). dp_destination_identities q = [])"
proof -
  obtain info w' where s: "send_bytes accepting example_env [1] example_byte_options example_outgoing = (Ok info, w')"
    using send_bytes_accepting by blast
  from contents_sent_to_all [OF s] s show ?thesis
    by (auto simp: example_outgoing_def example_byte_options_def)
qed

text \<open>
  What is written through a clone after the stream was closed is lost. The write succeeds
  and its packets are sent, but the receiver, for which the stream ended with the trailer,
  ignores them.
\<close>

lemma write_after_close_lost:
  assumes "close_raw accepting k reason w = (Ok (), w1)" and "k < length (og_streams w)"
  shows "\<exists>w2 p. write_chunk accepting k content w1 = (Ok (), w2) \<and> og_sent w2 = og_sent w1 @ [p]
    \<and> (let s1 = incoming_step f now s (the (packet_event identity t (last (og_sent w1))))
       in incoming_step f now s1 (the (packet_event identity t p)) = s1)"
proof -
  let ?i = "raw_id (og_streams w ! k)"
  have last: "last (og_sent w1) = create_trailer_packet ?i reason" and id: "raw_id (og_streams w1 ! k) = ?i"
    using assms by (auto simp: close_raw_def Let_def sbind_def set_raw_def split: if_splits)
  obtain w2 where w2: "write_chunk accepting k content w1 = (Ok (), w2)" using write_chunk_accepting by blast
  then have sent: "og_sent w2 = og_sent w1 @ [create_chunk_packet ?i (spr_chunk_index (raw_progress (og_streams w1 ! k))) content]"
    by (auto simp: write_chunk_def Let_def sbind_def set_raw_def id)
  have "handle_chunk c t (handle_trailer tr s) = handle_trailer tr s" if "sc_stream_id c = st_stream_id tr" for c tr
    using that by (simp add: handle_chunk_def handle_trailer_frame)
  with w2 sent show ?thesis by (simp add: last)
qed

lemma write_after_close_lost_witness:
  "\<exists>w1 w2. close_raw accepting 0 None \<lparr>og_sent = [], og_streams = [\<lparr>raw_id = ''s1'',
       raw_progress = progress_new None, raw_is_closed = False\<rparr>]\<rparr> = (Ok (), w1)
     \<and> write_chunk accepting 0 [7] w1 = (Ok (), w2)"
proof -
  let ?w = "\<lparr>og_sent = [], og_streams = [\<lparr>raw_id = ''s1'', raw_progress = progress_new None, raw_is_closed = False\<rparr>]\<rparr>"
  obtain w1 where w1: "close_raw accepting 0 None ?w = (Ok (), w1)"
    by (simp add: close_raw_def Let_def sbind_def)
  from write_after_close_lost [OF w1] w1 show ?thesis by fastforce
qed

text \<open>
  The sender of a stream chooses the file. A receiver that saves a byte stream without a
  name of its own creates the file that the sender has named: if the name is an absolute path,
  the chosen directory plays no part.
\<close>

lemma sender_chooses_path:
  assumes "bsi_name (br_info reader) = CHR ''/'' # rest" and "fi_creates io"
  shows "\<exists>written. snd (write_to_file temp_dir (Some directory) None io reader c)
    = Some (CHR ''/'' # rest, written)"
  using assms
  by (auto simp: write_to_file_def path_join_def Let_def split: poll.split prod.split rust.split)

lemma sender_chooses_path_witness:
  "\<exists>written. snd (write_to_file ''/tmp'' (Some ''/home/me/downloads'') None
       \<lparr>fi_creates = True, fi_writes = [], fi_flushes = True\<rparr>
       \<lparr>br_info = \<lparr>bsi_id = ''s1'', bsi_topic = [], bsi_timestamp = 0, bsi_total_length = None,
          bsi_attributes = Map.empty, bsi_mime_type = [], bsi_name = ''/home/me/.profile'',
          bsi_encryption_type = E2ee_None\<rparr>, br_chunk_rx = 0\<rparr>
       \<lparr>ch_queue = [Ok [1]], ch_tx = False, ch_rx = True\<rparr>)
     = Some (''/home/me/.profile'', written)"
  by (rule sender_chooses_path) simp_all

end
