(* ===== verification/Data_Channels.thy ===== *)
theory Data_Channels
  imports Prelude
begin

text \<open>
  Sending with back-pressure: the interface of a loop that hands queued payloads to a data
  channel while its buffer is not too full, and the sender of \<^verbatim>\<open>rtc_engine/dc_sender.rs\<close>, which
  carries the packets of data tracks. The session's task for data packets uses the same loop
  (theory \<open>Session_Data\<close>).
\<close>

section \<open>Draining a queue up to a threshold\<close>

text \<open>The payloads taken from the queue, the amount buffered after them, and the rest.\<close>

fun drain :: "('p \<Rightarrow> nat) \<Rightarrow> nat \<Rightarrow> nat \<Rightarrow> 'p list \<Rightarrow> 'p list \<times> nat \<times> 'p list" where
  "drain sz threshold b [] = ([], b, [])"
| "drain sz threshold b (p # ps) =
     (if b \<le> threshold
      then (let (taken, b', rest) = drain sz threshold (b + sz p) ps in (p # taken, b', rest))
      else ([], b, p # ps))"

text \<open>
  What a client may rely on: nothing is lost or reordered, the amount is kept, a rest means
  that the buffer is over the threshold, and each payload was taken while it was not.
\<close>

locale backpressure =
  fixes sz :: "'p \<Rightarrow> nat" and threshold :: nat
    and take_out :: "nat \<Rightarrow> 'p list \<Rightarrow> 'p list \<times> nat \<times> 'p list"
  assumes split_queue: "take_out b q = (taken, b', rest) \<Longrightarrow> taken @ rest = q"
    and amount: "take_out b q = (taken, b', rest) \<Longrightarrow> b' = b + sum_list (map sz taken)"
    and blocked: "take_out b q = (taken, b', rest) \<Longrightarrow> rest \<noteq> [] \<Longrightarrow> threshold < b'"
    and taken_below: "take_out b q = (xs @ p # ys, b', rest) \<Longrightarrow> b + sum_list (map sz xs) \<le> threshold"
begin

lemma all_taken:
  assumes "take_out b q = (taken, b', rest)" and "b + sum_list (map sz q) \<le> threshold"
  shows "taken = q" and "rest = []"
proof -
  have "b' \<le> threshold"
    using assms(2) amount [OF assms(1)] split_queue [OF assms(1)] by auto
  with blocked [OF assms(1)] show r: "rest = []" by fastforce
  with split_queue [OF assms(1)] show "taken = q" by simp
qed

lemma overshoot:
  assumes "take_out b q = (taken, b', rest)" and "\<forall>p \<in> set q. sz p \<le> n" and "b \<le> threshold + n"
  shows "b' \<le> threshold + n"
proof (cases taken rule: rev_cases)
  case Nil
  with amount [OF assms(1)] assms(3) show ?thesis by simp
next
  case (snoc xs p)
  with taken_below [of b q xs p "[]"] assms(1) have "b + sum_list (map sz xs) \<le> threshold" by simp
  moreover have "sz p \<le> n" using split_queue [OF assms(1)] snoc assms(2) by auto
  ultimately show ?thesis using amount [OF assms(1)] snoc by simp
qed

end

lemma drain_split: "drain sz threshold b q = (taken, b', rest) \<Longrightarrow> taken @ rest = q"
  by (induction q arbitrary: b taken) (auto split: if_splits prod.splits)

lemma drain_amount: "drain sz threshold b q = (taken, b', rest) \<Longrightarrow> b' = b + sum_list (map sz taken)"
  by (induction q arbitrary: b taken) (fastforce split: if_splits prod.splits)+

lemma drain_blocked: "drain sz threshold b q = (taken, b', rest) \<Longrightarrow> rest \<noteq> [] \<Longrightarrow> threshold < b'"
  by (induction q arbitrary: b taken) (auto split: if_splits prod.splits)

lemma drain_below:
  "drain sz threshold b q = (xs @ p # ys, b', rest) \<Longrightarrow> b + sum_list (map sz xs) \<le> threshold"
proof (induction q arbitrary: b xs)
  case (Cons x q)
  then show ?case by (cases xs) (fastforce split: if_splits prod.splits)+
qed simp

interpretation bp: backpressure sz threshold "drain sz threshold" for sz :: "'p \<Rightarrow> nat" and threshold
  using drain_split drain_amount drain_blocked drain_below by unfold_locales blast+

section \<open>The sender of data track packets\<close>

text \<open>
  The payloads handed to the channel are listed with what the channel answered; a refused one
  is logged and counted as buffered all the same.
\<close>

record dc_sender =
  dcs_low_buffer_threshold :: nat
  dcs_buffered_amount :: nat
  dcs_send_queue :: "bytes list"
  dcs_handed :: "(bytes \<times> bool) list"

definition CHANNEL_BUFFER_SIZE :: nat where "CHANNEL_BUFFER_SIZE = 128"

definition dc_sender_new :: "nat \<Rightarrow> dc_sender" where
  "dc_sender_new threshold =
     \<lparr>dcs_low_buffer_threshold = threshold, dcs_buffered_amount = 0, dcs_send_queue = [], dcs_handed = []\<rparr>"

definition dcs_send_until_threshold :: "(bytes \<Rightarrow> bool) \<Rightarrow> dc_sender \<Rightarrow> dc_sender" where
  "dcs_send_until_threshold accepts s =
     (let (taken, b, rest) = drain length (dcs_low_buffer_threshold s) (dcs_buffered_amount s) (dcs_send_queue s)
      in s\<lparr>dcs_buffered_amount := b, dcs_send_queue := rest,
           dcs_handed := dcs_handed s @ map (\<lambda>p. (p, accepts p)) taken\<rparr>)"

definition handle_enqueue_for_send :: "(bytes \<Rightarrow> bool) \<Rightarrow> bytes \<Rightarrow> dc_sender \<Rightarrow> dc_sender" where
  "handle_enqueue_for_send accepts payload s =
     dcs_send_until_threshold accepts (s\<lparr>dcs_send_queue := dcs_send_queue s @ [payload]\<rparr>)"

definition handle_bytes_sent :: "(bytes \<Rightarrow> bool) \<Rightarrow> nat \<Rightarrow> dc_sender \<Rightarrow> dc_sender" where
  "handle_bytes_sent accepts bytes_sent s =
     (if dcs_buffered_amount s < bytes_sent then s\<lparr>dcs_buffered_amount := 0\<rparr>
      else dcs_send_until_threshold accepts (s\<lparr>dcs_buffered_amount := dcs_buffered_amount s - bytes_sent\<rparr>))"

datatype dcs_event = Send_Payload bytes | Bytes_Sent nat

primrec dcs_step :: "(bytes \<Rightarrow> bool) \<Rightarrow> dc_sender \<Rightarrow> dcs_event \<Rightarrow> dc_sender" where
  "dcs_step accepts s (Send_Payload p) = handle_enqueue_for_send accepts p s"
| "dcs_step accepts s (Bytes_Sent n) = handle_bytes_sent accepts n s"

text \<open>\<^verbatim>\<open>run\<close> takes events until the session closes, here the end of the list; the rest of the queue is dropped.\<close>

definition dcs_run :: "(bytes \<Rightarrow> bool) \<Rightarrow> dcs_event list \<Rightarrow> dc_sender \<Rightarrow> dc_sender" where
  "dcs_run accepts es s = foldl (dcs_step accepts) s es"

definition payloads :: "dcs_event list \<Rightarrow> bytes list" where
  "payloads es = List.map_filter (\<lambda>e. case e of Send_Payload p \<Rightarrow> Some p | _ \<Rightarrow> None) es"

lemma dcs_send_until_threshold_cases:
  obtains taken b rest where
    "drain length (dcs_low_buffer_threshold s) (dcs_buffered_amount s) (dcs_send_queue s) = (taken, b, rest)"
    "dcs_send_until_threshold accepts s = s\<lparr>dcs_buffered_amount := b, dcs_send_queue := rest,
       dcs_handed := dcs_handed s @ map (\<lambda>p. (p, accepts p)) taken\<rparr>"
  by (cases "drain length (dcs_low_buffer_threshold s) (dcs_buffered_amount s) (dcs_send_queue s)")
    (simp add: dcs_send_until_threshold_def)

lemma dcs_send_history:
  "map fst (dcs_handed (dcs_send_until_threshold accepts s)) @ dcs_send_queue (dcs_send_until_threshold accepts s)
     = map fst (dcs_handed s) @ dcs_send_queue s"
  "dcs_low_buffer_threshold (dcs_send_until_threshold accepts s) = dcs_low_buffer_threshold s"
  by (cases rule: dcs_send_until_threshold_cases [of s accepts], simp add: bp.split_queue comp_def)+

lemma dcs_step_history:
  "map fst (dcs_handed (dcs_step accepts s e)) @ dcs_send_queue (dcs_step accepts s e)
     = map fst (dcs_handed s) @ dcs_send_queue s @ payloads [e]"
  "dcs_low_buffer_threshold (dcs_step accepts s e) = dcs_low_buffer_threshold s"
  by (cases e; simp add: handle_enqueue_for_send_def handle_bytes_sent_def dcs_send_history payloads_def map_filter_simps)+

lemma dcs_run_history:
  "map fst (dcs_handed (foldl (dcs_step accepts) s es)) @ dcs_send_queue (foldl (dcs_step accepts) s es)
     = map fst (dcs_handed s) @ dcs_send_queue s @ payloads es"
proof (induction es arbitrary: s)
  case (Cons e es)
  have "payloads (e # es) = payloads [e] @ payloads es"
    by (cases e) (simp_all add: payloads_def map_filter_simps)
  with Cons [of "dcs_step accepts s e"] dcs_step_history(1) [of accepts s e] show ?case by simp
qed (simp add: payloads_def map_filter_simps)

lemma dcs_amount_bound:
  assumes "dcs_buffered_amount s \<le> dcs_low_buffer_threshold s + n" and "\<forall>p \<in> set (dcs_send_queue s @ payloads [e]). length p \<le> n"
  shows "dcs_buffered_amount (dcs_step accepts s e) \<le> dcs_low_buffer_threshold s + n"
proof (cases e)
  case (Send_Payload p)
  let ?s = "s\<lparr>dcs_send_queue := dcs_send_queue s @ [p]\<rparr>"
  show ?thesis
    by (rule dcs_send_until_threshold_cases [of ?s accepts])
      (use bp.overshoot [where sz = length and threshold = "dcs_low_buffer_threshold s"] assms in
        \<open>fastforce simp: Send_Payload handle_enqueue_for_send_def payloads_def map_filter_simps\<close>)
next
  case (Bytes_Sent k)
  let ?s = "s\<lparr>dcs_buffered_amount := dcs_buffered_amount s - k\<rparr>"
  show ?thesis
    by (rule dcs_send_until_threshold_cases [of ?s accepts])
      (use bp.overshoot [where sz = length and threshold = "dcs_low_buffer_threshold s"] assms in
        \<open>fastforce simp: Bytes_Sent handle_bytes_sent_def payloads_def map_filter_simps\<close>)
qed

text \<open>An acknowledgement that exceeds what is buffered.\<close>

fun unexpected :: "dc_sender \<Rightarrow> dcs_event \<Rightarrow> bool" where
  "unexpected s (Bytes_Sent n) \<longleftrightarrow> dcs_buffered_amount s < n"
| "unexpected s (Send_Payload p) \<longleftrightarrow> False"

lemma dcs_step_blocked:
  assumes "\<not> unexpected s e" and "dcs_send_queue (dcs_step accepts s e) \<noteq> []"
  shows "dcs_low_buffer_threshold s < dcs_buffered_amount (dcs_step accepts s e)"
proof -
  have "dcs_low_buffer_threshold s' < dcs_buffered_amount (dcs_send_until_threshold accepts s')"
    if "dcs_send_queue (dcs_send_until_threshold accepts s') \<noteq> []" "dcs_low_buffer_threshold s' = dcs_low_buffer_threshold s" for s'
    by (rule dcs_send_until_threshold_cases [of s' accepts]) (use that in \<open>auto dest: bp.blocked\<close>)
  with assms show ?thesis
    by (cases e) (auto simp: handle_enqueue_for_send_def handle_bytes_sent_def split: if_splits)
qed

lemma dcs_run_threshold: "dcs_low_buffer_threshold (foldl (dcs_step accepts) s es) = dcs_low_buffer_threshold s"
  by (induction es arbitrary: s) (simp_all add: dcs_step_history)

text \<open>
  The sender of data track packets keeps the order and never holds back without need.
  After any events, what was handed to the channel followed by what is queued is what was
  submitted, in order; unless the last event acknowledges more than is buffered, payloads wait
  only while the buffered amount is above the threshold.
\<close>

lemma dc_sender_order:
  shows "map fst (dcs_handed (dcs_run accepts es (dc_sender_new n))) @ dcs_send_queue (dcs_run accepts es (dc_sender_new n))
      = payloads es
    \<and> (dcs_send_queue (dcs_step accepts (dcs_run accepts es (dc_sender_new n)) e) \<noteq> [] \<longrightarrow>
        unexpected (dcs_run accepts es (dc_sender_new n)) e
        \<or> n < dcs_buffered_amount (dcs_step accepts (dcs_run accepts es (dc_sender_new n)) e))"
proof -
  have "dcs_low_buffer_threshold (dcs_run accepts es (dc_sender_new n)) = n"
    by (simp add: dcs_run_def dcs_run_threshold dc_sender_new_def)
  with dcs_step_blocked [of "dcs_run accepts es (dc_sender_new n)" e accepts]
    dcs_run_history [of accepts "dc_sender_new n" es]
  show ?thesis by (auto simp: dcs_run_def dc_sender_new_def)
qed

lemma dc_sender_order_witness:
  "let s = dcs_run (\<lambda>_. True) [Send_Payload [1, 2], Send_Payload [3]] (dc_sender_new 1)
   in dcs_send_queue (dcs_step (\<lambda>_. True) s (Send_Payload [4])) = [[3], [4]]
     \<and> 1 < dcs_buffered_amount (dcs_step (\<lambda>_. True) s (Send_Payload [4]))"
  using dc_sender_order [of "\<lambda>_. True" "[Send_Payload [1, 2], Send_Payload [3]]" 1 "Send_Payload [4]"]
  by (simp add: dcs_run_def dc_sender_new_def handle_enqueue_for_send_def dcs_send_until_threshold_def)

text \<open>
  After an acknowledgement that exceeds what is buffered the queue is not looked at, although
  the buffer is then taken to be empty; the task that sends data packets goes on in the same
  case.
\<close>

lemma unexpected_amount_stalls:
  "unexpected s (Bytes_Sent k) \<Longrightarrow>
     dcs_step accepts s (Bytes_Sent k) = s\<lparr>dcs_buffered_amount := 0\<rparr>"
  by (simp add: handle_bytes_sent_def)

end
