(* ===== verification/Room_Utils.thy ===== *)
theory Room_Utils
  imports Prelude
begin

text \<open>
  Small structures of the room, \<^verbatim>\<open>room/utils\<close>: the map whose entries expire
  (\<^verbatim>\<open>ttl_map.rs\<close>), the queue that knows its size in bytes (\<^verbatim>\<open>tx_queue.rs\<close>), and the difference
  of two attribute maps (\<^verbatim>\<open>mod.rs\<close>).
\<close>

section \<open>A map with expiring entries\<close>

text \<open>
  Times are numbers of nanoseconds. Every operation reads the system clock, which may also go
  back; the reading is an argument. The clean-up interval is half the time to live.
\<close>

record 'v ttl_entry =
  te_value :: 'v
  te_expires_at :: nat

record ('k, 'v) ttl_map =
  tm_inner :: "'k \<rightharpoonup> 'v ttl_entry"
  tm_last_cleanup :: nat
  tm_ttl :: nat

definition ttl_new :: "nat \<Rightarrow> nat \<Rightarrow> ('k, 'v) ttl_map" where
  "ttl_new now ttl = \<lparr>tm_inner = Map.empty, tm_last_cleanup = now, tm_ttl = ttl\<rparr>"

definition ttl_cleanup :: "nat \<Rightarrow> ('k, 'v) ttl_map \<Rightarrow> ('k, 'v) ttl_map" where
  "ttl_cleanup now m =
     m\<lparr>tm_inner := (\<lambda>k. case tm_inner m k of
          None \<Rightarrow> None | Some e \<Rightarrow> if te_expires_at e \<ge> now then Some e else None),
       tm_last_cleanup := now\<rparr>"

definition ttl_get :: "nat \<Rightarrow> 'k \<Rightarrow> ('k, 'v) ttl_map \<Rightarrow> 'v option \<times> ('k, 'v) ttl_map" where
  "ttl_get now k m =
     (case tm_inner m k of
        None \<Rightarrow> (None, m)
      | Some e \<Rightarrow>
          if te_expires_at e < now then (None, m\<lparr>tm_inner := (tm_inner m)(k := None)\<rparr>)
          else (Some (te_value e), m))"

definition ttl_set :: "nat \<Rightarrow> 'k \<Rightarrow> 'v option \<Rightarrow> ('k, 'v) ttl_map \<Rightarrow> ('k, 'v) ttl_map" where
  "ttl_set now k v m =
     (if now < tm_last_cleanup m then m
      else
        let m = (if tm_ttl m < 2 * (now - tm_last_cleanup m) then ttl_cleanup now m else m)
        in case v of
             None \<Rightarrow> m\<lparr>tm_inner := (tm_inner m)(k := None)\<rparr>
           | Some value \<Rightarrow>
               m\<lparr>tm_inner := (tm_inner m)(k \<mapsto> \<lparr>te_value = value, te_expires_at = now + tm_ttl m\<rparr>)\<rparr>)"

text \<open>\<^verbatim>\<open>iter\<close>: the pairs in the order \<open>ks\<close> of the keys.\<close>

definition ttl_iter :: "nat \<Rightarrow> 'k list \<Rightarrow> ('k, 'v) ttl_map \<Rightarrow> ('k \<times> 'v) list \<times> ('k, 'v) ttl_map" where
  "ttl_iter now ks m =
     (let m = ttl_cleanup now m
      in (List.map_filter (\<lambda>k. map_option (\<lambda>e. (k, te_value e)) (tm_inner m k)) ks, m))"

text \<open>What the map stands for at a time: the entries that have not expired.\<close>

definition ttl_view :: "nat \<Rightarrow> ('k, 'v) ttl_map \<Rightarrow> 'k \<rightharpoonup> 'v" where
  "ttl_view now m k = (case tm_inner m k of
     None \<Rightarrow> None | Some e \<Rightarrow> if now \<le> te_expires_at e then Some (te_value e) else None)"

lemma ttl_get_view: "fst (ttl_get now k m) = ttl_view now m k"
  and ttl_get_keeps: "now \<le> now' \<Longrightarrow> ttl_view now' (snd (ttl_get now k m)) = ttl_view now' m"
  by (auto simp: ttl_get_def ttl_view_def fun_eq_iff split: option.split)

text \<open>While the clock does not go back, clean-ups are invisible and the map behaves as a map.\<close>

lemma ttl_set_view:
  assumes "tm_last_cleanup m \<le> now" and "now \<le> now'" and "now' \<le> now + tm_ttl m"
  shows "ttl_view now' (ttl_set now k v m) = (ttl_view now' m)(k := v)"
  using assms
  by (auto simp: ttl_set_def ttl_view_def ttl_cleanup_def Let_def fun_eq_iff split: option.split)

text \<open>After the clock went back, nothing is recorded until it has caught up.\<close>

lemma ttl_set_ignored: "now < tm_last_cleanup m \<Longrightarrow> ttl_set now k v m = m"
  by (simp add: ttl_set_def)

section \<open>A queue that knows its size\<close>

text \<open>The size of an item, in bytes, is the argument \<open>sz\<close>.\<close>

record 'a tx_queue =
  tq_inner :: "'a list"
  tq_buffered_size :: nat

definition txq_new :: "'a tx_queue" where
  "txq_new = \<lparr>tq_inner = [], tq_buffered_size = 0\<rparr>"

definition txq_peek :: "'a tx_queue \<Rightarrow> 'a option" where
  "txq_peek q = (case tq_inner q of [] \<Rightarrow> None | x # xs \<Rightarrow> Some x)"

definition txq_enqueue :: "('a \<Rightarrow> nat) \<Rightarrow> 'a \<Rightarrow> 'a tx_queue \<Rightarrow> 'a tx_queue" where
  "txq_enqueue sz item q =
     q\<lparr>tq_inner := tq_inner q @ [item], tq_buffered_size := tq_buffered_size q + sz item\<rparr>"

definition txq_dequeue :: "('a \<Rightarrow> nat) \<Rightarrow> 'a tx_queue \<Rightarrow> 'a option \<times> 'a tx_queue" where
  "txq_dequeue sz q =
     (case tq_inner q of
        [] \<Rightarrow> (None, q)
      | x # xs \<Rightarrow> (Some x, q\<lparr>tq_inner := xs, tq_buffered_size := tq_buffered_size q - sz x\<rparr>))"

text \<open>
  \<^verbatim>\<open>trim\<close> dequeues while the size is above the target. It would never end on an empty queue
  whose size is not zero, so that it returns is something to prove.
\<close>

partial_function (option) txq_trim :: "('a \<Rightarrow> nat) \<Rightarrow> nat \<Rightarrow> 'a tx_queue \<Rightarrow> 'a tx_queue option" where
  "txq_trim sz n q =
     (if tq_buffered_size q > n then txq_trim sz n (snd (txq_dequeue sz q)) else Some q)"

definition txq_ok :: "('a \<Rightarrow> nat) \<Rightarrow> 'a tx_queue \<Rightarrow> bool" where
  "txq_ok sz q \<longleftrightarrow> tq_buffered_size q = sum_list (map sz (tq_inner q))"

lemma txq_ok_new: "txq_ok sz txq_new"
  by (simp add: txq_ok_def txq_new_def)

lemma txq_ok_enqueue: "txq_ok sz q \<Longrightarrow> txq_ok sz (txq_enqueue sz x q)"
  by (simp add: txq_ok_def txq_enqueue_def)

lemma txq_ok_dequeue: "txq_ok sz q \<Longrightarrow> txq_ok sz (snd (txq_dequeue sz q))"
  by (simp add: txq_ok_def txq_dequeue_def split: list.split)

text \<open>
  Trimming returns, and keeps the newest items that fit. On a queue whose recorded size is
  the sum of the sizes of its items (every queue made by the operations), \<^verbatim>\<open>trim\<close> ends; what
  is left is the longest end of the queue that does not exceed the target.
\<close>

lemma txq_trim_returns:
  assumes "txq_ok sz q"
  shows "\<exists>q' k. txq_trim sz n q = Some q' \<and> txq_ok sz q' \<and> tq_inner q' = drop k (tq_inner q)
    \<and> sum_list (map sz (drop k (tq_inner q))) \<le> n
    \<and> (\<forall>j < k. n < sum_list (map sz (drop j (tq_inner q))))"
  using assms
proof (induction "tq_inner q" arbitrary: q)
  case Nil
  then have "txq_trim sz n q = Some q"
    by (subst txq_trim.simps) (simp add: txq_ok_def)
  with Nil show ?case by (intro exI [of _ q] exI [of _ 0]) (simp flip: Nil.hyps)
next
  case (Cons x xs)
  let ?q = "snd (txq_dequeue sz q)"
  have inner: "tq_inner ?q = xs" by (simp add: txq_dequeue_def flip: Cons.hyps(2))
  show ?case
  proof (cases "tq_buffered_size q > n")
    case False
    then have "txq_trim sz n q = Some q" by (subst txq_trim.simps) simp
    with False Cons.prems show ?thesis
      by (intro exI [of _ q] exI [of _ 0]) (simp add: txq_ok_def)
  next
    case True
    from Cons.hyps(1) [OF inner [symmetric] txq_ok_dequeue [OF Cons.prems]] obtain q' k where
      q': "txq_trim sz n ?q = Some q'" "txq_ok sz q'" "tq_inner q' = drop k xs"
        "sum_list (map sz (drop k xs)) \<le> n" "\<forall>j < k. n < sum_list (map sz (drop j xs))"
      unfolding inner by blast
    from q'(1) True have "txq_trim sz n q = Some q'" by (subst txq_trim.simps) simp
    moreover have "n < sum_list (map sz (drop j (x # xs)))" if "j < Suc k" for j
      using that True q'(5) Cons.prems by (cases j) (simp_all add: txq_ok_def flip: Cons.hyps(2))
    ultimately show ?thesis
      using q'(2-4) by (intro exI [of _ q'] exI [of _ "Suc k"]) (simp flip: Cons.hyps(2))
  qed
qed

section \<open>Attributes\<close>

text \<open>
  \<^verbatim>\<open>calculate_changed_attributes\<close>, over the orders of the keys of the two maps: a changed or
  new attribute with its value, a removed one with the empty string.
\<close>

fun changed_loop ::
    "(string \<rightharpoonup> string) \<Rightarrow> (string \<rightharpoonup> string) \<Rightarrow> string list \<Rightarrow> (string \<rightharpoonup> string) \<Rightarrow> string \<rightharpoonup> string" where
  "changed_loop old new [] changed = changed"
| "changed_loop old new (key # keys) changed =
     changed_loop old new keys
       (if old key \<noteq> new key
        then (case new key of Some v \<Rightarrow> changed(key \<mapsto> v) | None \<Rightarrow> changed(key \<mapsto> []))
        else changed)"

definition calculate_changed_attributes ::
    "(string \<rightharpoonup> string) \<Rightarrow> (string \<rightharpoonup> string) \<Rightarrow> string list \<Rightarrow> string list \<Rightarrow> string \<rightharpoonup> string" where
  "calculate_changed_attributes old new old_keys new_keys =
     changed_loop old new (old_keys @ new_keys) Map.empty"

lemma changed_loop_value:
  "changed_loop old new keys changed k =
     (if k \<in> set keys \<and> old k \<noteq> new k then Some (case new k of Some v \<Rightarrow> v | None \<Rightarrow> []) else changed k)"
  by (induction keys arbitrary: changed) (auto split: option.split)

lemma calculate_changed_attributes_value:
  assumes "set old_keys = dom old" and "set new_keys = dom new"
  shows "calculate_changed_attributes old new old_keys new_keys k =
     (if old k = new k then None else Some (case new k of Some v \<Rightarrow> v | None \<Rightarrow> []))"
  using assms by (auto simp: calculate_changed_attributes_def changed_loop_value dom_def)

end
