(* ===== verification/Session_Data.thy ===== *)
theory Session_Data
  imports Track_Proto Data_Streams Data_Channels Room_Utils
begin

text \<open>
  Data packets in the session, \<^verbatim>\<open>rtc_engine/rtc_session.rs\<close>: publishing with encryption, the
  task that sends packets with back-pressure and keeps the reliable ones for a retry, the
  reception of packets with the record of sequence numbers, and the events that a packet
  becomes. The wire format of messages and the cipher are arguments, as is the answer of the
  data channel to each send.
\<close>

section \<open>State of the sending side\<close>

record encoded_packet =
  en_data :: bytes
  en_sequence :: u32

record publish_data_request =
  pd_encoded_packet :: encoded_packet
  pd_completion_tx :: "nat option"

datatype dc_event_detail =
    PublishPacket data_packet nat
  | PublishData publish_data_request
  | BufferedAmountChange nat
  | RetryFrom u32

type_synonym dc_event = "data_packet_kind \<times> dc_event_detail"

text \<open>
  The wire is the list of packets handed to the channels, with their answers. The field
  \<open>sx_overflow_checks\<close> says how the program was built: with the checks, arithmetic on integers that
  overflows panics, and without them, as in a release, it wraps.
\<close>

record session_tx =
  sx_dc_events :: "dc_event list"
  sx_lossy_threshold :: nat
  sx_reliable_threshold :: nat
  sx_lossy_buffered_amount :: nat
  sx_reliable_buffered_amount :: nat
  sx_lossy_queue :: "publish_data_request list"
  sx_reliable_queue :: "publish_data_request list"
  sx_retry_queue :: "encoded_packet tx_queue"
  sx_next_packet_sequence :: u32
  sx_wire :: "(data_packet_kind \<times> encoded_packet \<times> bool) list"
  sx_completions :: "(nat \<times> bool) list"
  sx_overflow_checks :: bool

definition INITIAL_BUFFERED_AMOUNT_LOW_THRESHOLD :: nat where
  "INITIAL_BUFFERED_AMOUNT_LOW_THRESHOLD = 2 * 1024 * 1024"

definition session_tx_new :: session_tx where
  "session_tx_new =
     \<lparr>sx_dc_events = [], sx_lossy_threshold = INITIAL_BUFFERED_AMOUNT_LOW_THRESHOLD,
      sx_reliable_threshold = INITIAL_BUFFERED_AMOUNT_LOW_THRESHOLD,
      sx_lossy_buffered_amount = 0, sx_reliable_buffered_amount = 0, sx_lossy_queue = [],
      sx_reliable_queue = [], sx_retry_queue = txq_new, sx_next_packet_sequence = 1,
      sx_wire = [], sx_completions = [], sx_overflow_checks = False\<rparr>"

abbreviation encoded_size :: "encoded_packet \<Rightarrow> nat" where
  "encoded_size p \<equiv> length (en_data p)"

abbreviation request_size :: "publish_data_request \<Rightarrow> nat" where
  "request_size r \<equiv> encoded_size (pd_encoded_packet r)"

definition emit_dc :: "dc_event \<Rightarrow> session_tx \<Rightarrow> session_tx" where
  "emit_dc ev s = s\<lparr>sx_dc_events := sx_dc_events s @ [ev]\<rparr>"

definition encode_packet :: "(data_packet \<Rightarrow> bytes) \<Rightarrow> data_packet \<Rightarrow> encoded_packet" where
  "encode_packet encode p = \<lparr>en_data = encode p, en_sequence = dp_sequence p\<rparr>"

section \<open>The task of the data channels\<close>

text \<open>What is done with one request that leaves its queue.\<close>

definition hand_over :: "(bytes \<Rightarrow> bool) \<Rightarrow> data_packet_kind \<Rightarrow> publish_data_request \<Rightarrow> session_tx \<Rightarrow> session_tx" where
  "hand_over accepts kind request s =
     (let p = pd_encoded_packet request; ok = accepts (en_data p);
          s = s\<lparr>sx_wire := sx_wire s @ [(kind, p, ok)]\<rparr>;
          s = (case pd_completion_tx request of
                 None \<Rightarrow> s
               | Some tx \<Rightarrow> s\<lparr>sx_completions := sx_completions s @ [(tx, ok)]\<rparr>)
      in if kind = Reliable
         then s\<lparr>sx_retry_queue := txq_enqueue encoded_size p (sx_retry_queue s)\<rparr> else s)"

definition send_until_threshold :: "(bytes \<Rightarrow> bool) \<Rightarrow> data_packet_kind \<Rightarrow> session_tx \<Rightarrow> session_tx" where
  "send_until_threshold accepts kind s =
     (case kind of
        Lossy \<Rightarrow>
          (let (taken, b, rest) = drain request_size (sx_lossy_threshold s) (sx_lossy_buffered_amount s) (sx_lossy_queue s)
           in fold (hand_over accepts Lossy) taken (s\<lparr>sx_lossy_buffered_amount := b, sx_lossy_queue := rest\<rparr>))
      | Reliable \<Rightarrow>
          (let (taken, b, rest) = drain request_size (sx_reliable_threshold s) (sx_reliable_buffered_amount s) (sx_reliable_queue s)
           in fold (hand_over accepts Reliable) taken
                (s\<lparr>sx_reliable_buffered_amount := b, sx_reliable_queue := rest\<rparr>)))"

text \<open>
  \<^verbatim>\<open>_enqueue_for_retry_from\<close>: the number of missing packets for a warning, computed by additions and
  subtractions that may overflow (\<open>None\<close> is the panic); then the queue is emptied, and what the
  server has not seen goes to the end of the task's own events. One turn more than the queue is long empties it.
\<close>

definition add_u32 :: "bool \<Rightarrow> u32 \<Rightarrow> u32 \<Rightarrow> u32 option" where
  "add_u32 checks a b = (if checks then checked_add a b else Some (a + b))"

definition sub_u32 :: "bool \<Rightarrow> u32 \<Rightarrow> u32 \<Rightarrow> u32 option" where
  "sub_u32 checks a b = (if checks \<and> a < b then None else Some (a - b))"

definition retry_warning :: "u32 \<Rightarrow> session_tx \<Rightarrow> u32 option option" where
  "retry_warning last_sequence s =
     (case txq_peek (sx_retry_queue s) of
        None \<Rightarrow> Some None
      | Some first \<Rightarrow>
          Option.bind (add_u32 (sx_overflow_checks s) last_sequence 1) (\<lambda>successor.
          if en_sequence first > successor
          then Option.bind (sub_u32 (sx_overflow_checks s) (en_sequence first) last_sequence) (\<lambda>distance.
            map_option Some (sub_u32 (sx_overflow_checks s) distance 1))
          else Some None))"

primrec retry_loop :: "nat \<Rightarrow> u32 \<Rightarrow> session_tx \<Rightarrow> session_tx" where
  "retry_loop 0 last_sequence s = s"
| "retry_loop (Suc n) last_sequence s =
     (case txq_dequeue encoded_size (sx_retry_queue s) of
        (None, q) \<Rightarrow> s
      | (Some p, q) \<Rightarrow>
          retry_loop n last_sequence
            (let s = s\<lparr>sx_retry_queue := q\<rparr>
             in if en_sequence p \<le> last_sequence then s
                else emit_dc (Reliable, PublishData \<lparr>pd_encoded_packet = p, pd_completion_tx = None\<rparr>) s))"

definition enqueue_for_retry_from :: "u32 \<Rightarrow> session_tx \<Rightarrow> session_tx option" where
  "enqueue_for_retry_from last_sequence s =
     Option.bind (retry_warning last_sequence s) (\<lambda>missing.
     Some (retry_loop (Suc (length (tq_inner (sx_retry_queue s)))) last_sequence s))"

definition amount_after :: "nat \<Rightarrow> nat \<Rightarrow> nat" where
  "amount_after buffered sent = (if buffered < sent then 0 else buffered - sent)"

text \<open>One event. \<open>None\<close> is a panic (a retry is asserted to be reliable, and its arithmetic may overflow), or a trim that never ends.\<close>

fun handle_dc_event ::
    "(data_packet \<Rightarrow> bytes) \<Rightarrow> (bytes \<Rightarrow> bool) \<Rightarrow> dc_event \<Rightarrow> session_tx \<Rightarrow> session_tx option" where
  "handle_dc_event encode accepts (kind, PublishPacket packet tx) s =
     (let (packet, s) = (if kind = Reliable
            then (packet\<lparr>dp_sequence := sx_next_packet_sequence s\<rparr>,
                  s\<lparr>sx_next_packet_sequence := sx_next_packet_sequence s + 1\<rparr>)
            else (packet, s))
      in Some (emit_dc (kind, PublishData
           \<lparr>pd_encoded_packet = encode_packet encode packet, pd_completion_tx = Some tx\<rparr>) s))"
| "handle_dc_event encode accepts (Lossy, PublishData request) s =
     Some (send_until_threshold accepts Lossy (s\<lparr>sx_lossy_queue := sx_lossy_queue s @ [request]\<rparr>))"
| "handle_dc_event encode accepts (Reliable, PublishData request) s =
     Some (send_until_threshold accepts Reliable (s\<lparr>sx_reliable_queue := sx_reliable_queue s @ [request]\<rparr>))"
| "handle_dc_event encode accepts (Lossy, BufferedAmountChange sent) s =
     Some (send_until_threshold accepts Lossy
       (s\<lparr>sx_lossy_buffered_amount := amount_after (sx_lossy_buffered_amount s) sent\<rparr>))"
| "handle_dc_event encode accepts (Reliable, BufferedAmountChange sent) s =
     (let s = send_until_threshold accepts Reliable
            (s\<lparr>sx_reliable_buffered_amount := amount_after (sx_reliable_buffered_amount s) sent\<rparr>)
      in map_option (\<lambda>q. s\<lparr>sx_retry_queue := q\<rparr>) (txq_trim encoded_size sent (sx_retry_queue s)))"
| "handle_dc_event encode accepts (kind, RetryFrom last_sequence) s =
     (if kind = Reliable then enqueue_for_retry_from last_sequence s else None)"

definition dc_receive :: "(data_packet \<Rightarrow> bytes) \<Rightarrow> (bytes \<Rightarrow> bool) \<Rightarrow> session_tx \<Rightarrow> session_tx option" where
  "dc_receive encode accepts s =
     (case sx_dc_events s of
        [] \<Rightarrow> Some s
      | ev # rest \<Rightarrow> handle_dc_event encode accepts ev (s\<lparr>sx_dc_events := rest\<rparr>))"

primrec data_channel_task :: "(data_packet \<Rightarrow> bytes) \<Rightarrow> (bytes \<Rightarrow> bool) \<Rightarrow> nat \<Rightarrow> session_tx \<Rightarrow> session_tx option" where
  "data_channel_task encode accepts 0 s = Some s"
| "data_channel_task encode accepts (Suc n) s =
     Option.bind (dc_receive encode accepts s) (data_channel_task encode accepts n)"

section \<open>Publishing\<close>

datatype engine_error = Not_Connected | Encrypt_Failed | Dc_Closed | Text_Unsupported | Decode_Failed

record cipher_packet =
  ci_data :: bytes
  ci_iv :: bytes
  ci_key_index :: u32

text \<open>The encryption manager as the data path uses it; the cipher belongs to the media library.\<close>

record e2ee_data =
  ed_dc_encryption_enabled :: bool
  ed_latest_key_index :: u32
  ed_encryption_type :: e2ee_type
  ed_encrypt :: "string \<Rightarrow> u32 \<Rightarrow> bytes \<Rightarrow> cipher_packet option"
  ed_decrypt :: "string \<Rightarrow> cipher_packet \<Rightarrow> bytes option"

record participant_id =
  pid_sid :: string
  pid_identity :: string

primrec convert_encrypted_to_data_packet_value :: "encrypted_payload_value \<Rightarrow> packet_value" where
  "convert_encrypted_to_data_packet_value (Enc_User x) = Value_User x"
| "convert_encrypted_to_data_packet_value (Enc_ChatMessage x) = Value_ChatMessage x"
| "convert_encrypted_to_data_packet_value (Enc_RpcRequest x) = Value_RpcRequest x"
| "convert_encrypted_to_data_packet_value (Enc_RpcResponse x) = Value_RpcResponse x"
| "convert_encrypted_to_data_packet_value (Enc_RpcAck x) = Value_RpcAck x"
| "convert_encrypted_to_data_packet_value (Enc_StreamHeader x) = Value_StreamHeader x"
| "convert_encrypted_to_data_packet_value (Enc_StreamChunk x) = Value_StreamChunk x"
| "convert_encrypted_to_data_packet_value (Enc_StreamTrailer x) = Value_StreamTrailer x"

fun convert_data_packet_to_encrypted_value :: "packet_value \<Rightarrow> encrypted_payload_value option" where
  "convert_data_packet_to_encrypted_value (Value_User x) = Some (Enc_User x)"
| "convert_data_packet_to_encrypted_value (Value_ChatMessage x) = Some (Enc_ChatMessage x)"
| "convert_data_packet_to_encrypted_value (Value_RpcRequest x) = Some (Enc_RpcRequest x)"
| "convert_data_packet_to_encrypted_value (Value_RpcResponse x) = Some (Enc_RpcResponse x)"
| "convert_data_packet_to_encrypted_value (Value_RpcAck x) = Some (Enc_RpcAck x)"
| "convert_data_packet_to_encrypted_value (Value_StreamHeader x) = Some (Enc_StreamHeader x)"
| "convert_data_packet_to_encrypted_value (Value_StreamChunk x) = Some (Enc_StreamChunk x)"
| "convert_data_packet_to_encrypted_value (Value_StreamTrailer x) = Some (Enc_StreamTrailer x)"
| "convert_data_packet_to_encrypted_value _ = None"

text \<open>The value that is sent: encrypted, where encryption is on and the kind of value allows it.\<close>

definition outgoing_value ::
    "(encrypted_payload_value \<Rightarrow> bytes) \<Rightarrow> e2ee_data option \<Rightarrow> participant_id \<Rightarrow> packet_value option \<Rightarrow>
     (engine_error, packet_value option) rust" where
  "outgoing_value encode_payload e2ee me value =
     (case (e2ee, value) of
        (Some m, Some v) \<Rightarrow>
          if ed_dc_encryption_enabled m
          then (case convert_data_packet_to_encrypted_value v of
                  None \<Rightarrow> Ok value
                | Some ev \<Rightarrow>
                    (case ed_encrypt m (pid_identity me) (ed_latest_key_index m) (encode_payload ev) of
                       None \<Rightarrow> Err Encrypt_Failed
                     | Some c \<Rightarrow> Ok (Some (Value_EncryptedPacket
                         \<lparr>ep_encryption_type = encryption_to_int (encryption_type_from (ed_encryption_type m)),
                          ep_iv = ci_iv c, ep_key_index = ci_key_index c,
                          ep_encrypted_value = ci_data c\<rparr>))))
          else Ok value
      | _ \<Rightarrow> Ok value)"

text \<open>
  \<^verbatim>\<open>publish_data\<close> up to the request that it puts into the task's events; it then waits for the
  completion \<open>tx\<close>. Whether the publisher's connection comes up is an argument, as is whether the
  task still takes events.
\<close>

definition publish_data ::
    "(encrypted_payload_value \<Rightarrow> bytes) \<Rightarrow> e2ee_data option \<Rightarrow> participant_id \<Rightarrow> bool \<Rightarrow> bool \<Rightarrow>
     data_packet \<Rightarrow> data_packet_kind \<Rightarrow> bool \<Rightarrow> nat \<Rightarrow> session_tx \<Rightarrow> (engine_error, unit) rust \<times> session_tx" where
  "publish_data encode_payload e2ee me connected dc_open packet kind is_raw_packet tx s =
     (if \<not> connected then (Err Not_Connected, s)
      else
        let packet = (if is_raw_packet then packet
              else packet\<lparr>dp_participant_identity := pid_identity me, dp_participant_sid := pid_sid me\<rparr>)
        in case outgoing_value encode_payload e2ee me (dp_value packet) of
             Ok value \<Rightarrow>
               if dc_open
               then (Ok (), emit_dc (kind, PublishPacket (packet\<lparr>dp_value := value\<rparr>) tx) s)
               else (Err Dc_Closed, s)
           | Err e \<Rightarrow> (Err e, s)
           | Panic \<Rightarrow> (Panic, s))"

text \<open>A resumed connection asks for everything after the last message the server has seen.\<close>

definition restart_retry :: "u32 \<Rightarrow> session_tx \<Rightarrow> session_tx" where
  "restart_retry last_message_seq s = emit_dc (Reliable, RetryFrom last_message_seq) s"

section \<open>Reception\<close>

text \<open>The events that a data packet becomes; \<^verbatim>\<open>ParticipantSid\<close> is a string with its prefix.\<close>

record room_chat_message =
  rc_id :: string
  rc_message :: string
  rc_timestamp :: int
  rc_edit_timestamp :: "int option"
  rc_deleted :: "bool option"
  rc_generated :: "bool option"

datatype session_event =
    Ev_Data data_packet_kind "string option" "string option" bytes "string option" encryption_type
  | Ev_SipDTMF "string option" u32 "string option"
  | Ev_Transcription string string "transcription_segment list"
  | Ev_RpcRequest "string option" string string string nat u32
  | Ev_RpcResponse string "string option" "rpc_error_msg option"
  | Ev_RpcAck string
  | Ev_ChatMessage string room_chat_message
  | Ev_DataStreamHeader stream_header string encryption_type
  | Ev_DataStreamChunk stream_chunk string encryption_type
  | Ev_DataStreamTrailer stream_trailer string

record session_rx =
  sr_packet_rx_state :: "(string, u32) ttl_map"
  sr_emitted :: "session_event list"

definition RELIABLE_RECEIVED_STATE_TTL :: nat where
  "RELIABLE_RECEIVED_STATE_TTL = 30 * 1000000000"

definition session_rx_new :: "nat \<Rightarrow> session_rx" where
  "session_rx_new now = \<lparr>sr_packet_rx_state = ttl_new now RELIABLE_RECEIVED_STATE_TTL, sr_emitted = []\<rparr>"

definition send_event :: "session_event \<Rightarrow> session_rx \<Rightarrow> session_rx" where
  "send_event ev s = s\<lparr>sr_emitted := sr_emitted s @ [ev]\<rparr>"

definition PARTICIPANT_PREFIX :: string where "PARTICIPANT_PREFIX = ''PA_''"

definition participant_sid_try_from :: "string \<Rightarrow> string option" where
  "participant_sid_try_from s = (if starts_with s PARTICIPANT_PREFIX then Some s else None)"

text \<open>The conversion of an identity accepts every string, also the empty one.\<close>

definition participant_identity_try_from :: "string \<Rightarrow> string option" where
  "participant_identity_try_from s = Some s"

definition room_chat_message_from :: "chat_message \<Rightarrow> room_chat_message" where
  "room_chat_message_from m =
     \<lparr>rc_id = cm_id m, rc_message = cm_message m, rc_timestamp = cm_timestamp m,
      rc_edit_timestamp = cm_edit_timestamp m, rc_deleted = Some (cm_deleted m),
      rc_generated = Some (cm_generated m)\<rparr>"

primrec or_else :: "'a option \<Rightarrow> 'a option \<Rightarrow> 'a option" where
  "or_else None y = y"
| "or_else (Some x) y = Some x"

definition identity_or_empty :: "string option \<Rightarrow> string" where
  "identity_or_empty i = (case i of None \<Rightarrow> [] | Some s \<Rightarrow> s)"

text \<open>The event of a value that is not encrypted.\<close>

fun value_event ::
    "data_packet_kind \<Rightarrow> string option \<Rightarrow> string option \<Rightarrow> packet_value \<Rightarrow> encryption_type \<Rightarrow> session_event option" where
  "value_event kind sid identity (Value_User user) t =
     Some (Ev_Data kind (or_else sid (participant_sid_try_from (up_participant_sid user)))
       (or_else identity (participant_identity_try_from (up_participant_identity user)))
       (up_payload user) (up_topic user) t)"
| "value_event kind sid identity (Value_SipDtmf dtmf) t =
     Some (Ev_SipDTMF identity (sd_code dtmf) (if sd_digit dtmf = [] then None else Some (sd_digit dtmf)))"
| "value_event kind sid identity (Value_Transcription tr) t =
     Some (Ev_Transcription (tr_transcribed_participant_identity tr) (tr_track_id tr) (tr_segments tr))"
| "value_event kind sid identity (Value_RpcRequest r) t =
     Some (Ev_RpcRequest identity (rq_id r) (rq_method r) (rq_payload r) (unat (rq_response_timeout_ms r))
       (rq_version r))"
| "value_event kind sid identity (Value_RpcResponse r) t =
     Some (case rs_value r of
             None \<Rightarrow> Ev_RpcResponse (rs_request_id r) None None
           | Some (Rpc_Payload p) \<Rightarrow> Ev_RpcResponse (rs_request_id r) (Some p) None
           | Some (Rpc_Error e) \<Rightarrow> Ev_RpcResponse (rs_request_id r) None (Some e)
           | Some (Rpc_Compressed _) \<Rightarrow> Ev_RpcResponse (rs_request_id r) None None)"
| "value_event kind sid identity (Value_RpcAck a) t = Some (Ev_RpcAck (ra_request_id a))"
| "value_event kind sid identity (Value_ChatMessage m) t =
     Some (Ev_ChatMessage (identity_or_empty identity) (room_chat_message_from m))"
| "value_event kind sid identity (Value_StreamHeader h) t =
     Some (Ev_DataStreamHeader h (identity_or_empty identity) t)"
| "value_event kind sid identity (Value_StreamChunk c) t =
     Some (Ev_DataStreamChunk c (identity_or_empty identity) t)"
| "value_event kind sid identity (Value_StreamTrailer tr) t =
     Some (Ev_DataStreamTrailer tr (identity_or_empty identity))"
| "value_event kind sid identity _ t = None"

text \<open>
  \<^verbatim>\<open>emit_incoming_packet\<close>. It calls itself on a decrypted value, which is never encrypted again,
  so that one level is enough. Decoding a decrypted payload gives \<open>None\<close> on an error and
  \<open>Some None\<close> when the message has no value.
\<close>

definition emit_incoming_packet ::
    "(bytes \<Rightarrow> encrypted_payload_value option option) \<Rightarrow> e2ee_data option \<Rightarrow> data_packet_kind \<Rightarrow>
     string option \<Rightarrow> string option \<Rightarrow> packet_value \<Rightarrow> encryption_type \<Rightarrow> session_rx \<Rightarrow> session_rx" where
  "emit_incoming_packet decode_payload e2ee kind sid identity value t s =
     (case value of
        Value_EncryptedPacket ep \<Rightarrow>
          (case e2ee of
             None \<Rightarrow> s
           | Some m \<Rightarrow>
               let t = encryption_of_int (ep_encryption_type ep);
                   c = \<lparr>ci_data = ep_encrypted_value ep, ci_iv = ep_iv ep, ci_key_index = ep_key_index ep\<rparr>
               in case ed_decrypt m (identity_or_empty identity) c of
                    None \<Rightarrow> s
                  | Some decrypted \<Rightarrow>
                      (case decode_payload decrypted of
                         Some (Some ev) \<Rightarrow>
                           (case value_event kind sid identity (convert_encrypted_to_data_packet_value ev) t of
                              None \<Rightarrow> s | Some e \<Rightarrow> send_event e s)
                       | _ \<Rightarrow> s))
      | v \<Rightarrow> (case value_event kind sid identity v t of None \<Rightarrow> s | Some e \<Rightarrow> send_event e s))"

definition update_packet_rx_state :: "nat \<Rightarrow> data_packet \<Rightarrow> session_rx \<Rightarrow> session_rx" where
  "update_packet_rx_state now packet s =
     (if dp_sequence packet = 0 \<or> dp_participant_sid packet = [] then s
      else
        let (last, m) = ttl_get now (dp_participant_sid packet) (sr_packet_rx_state s)
        in if (case last of Some n \<Rightarrow> dp_sequence packet \<le> n | None \<Rightarrow> False)
           then s\<lparr>sr_packet_rx_state := m\<rparr>
           else s\<lparr>sr_packet_rx_state := ttl_set now (dp_participant_sid packet) (Some (dp_sequence packet)) m\<rparr>)"

text \<open>\<^verbatim>\<open>RtcEvent::Data\<close>.\<close>

definition on_rtc_data ::
    "(bytes \<Rightarrow> data_packet option) \<Rightarrow> (bytes \<Rightarrow> encrypted_payload_value option option) \<Rightarrow> e2ee_data option \<Rightarrow>
     nat \<Rightarrow> bytes \<Rightarrow> bool \<Rightarrow> data_packet_kind \<Rightarrow> session_rx \<Rightarrow> (engine_error, unit) rust \<times> session_rx" where
  "on_rtc_data decode decode_payload e2ee now raw binary kind s =
     (if \<not> binary then (Err Text_Unsupported, s)
      else
        (case decode raw of
           None \<Rightarrow> (Err Decode_Failed, s)
         | Some packet \<Rightarrow>
             let s = (if kind = Reliable then update_packet_rx_state now packet s else s)
             in case dp_value packet of
                  None \<Rightarrow> (Ok (), s)
                | Some detail \<Rightarrow>
                    (Ok (), emit_incoming_packet decode_payload e2ee kind
                       (participant_sid_try_from (dp_participant_sid packet))
                       (participant_identity_try_from (dp_participant_identity packet))
                       detail Enc_None s)))"

definition on_buffered_amount_change :: "data_packet_kind \<Rightarrow> nat \<Rightarrow> session_tx \<Rightarrow> session_tx" where
  "on_buffered_amount_change kind sent s = emit_dc (kind, BufferedAmountChange sent) s"

definition data_channel_receive_states :: "nat \<Rightarrow> string list \<Rightarrow> session_rx \<Rightarrow> (string \<times> u32) list \<times> session_rx" where
  "data_channel_receive_states now ks s =
     (let (xs, m) = ttl_iter now ks (sr_packet_rx_state s) in (xs, s\<lparr>sr_packet_rx_state := m\<rparr>))"

lemma converted_not_encrypted: "convert_encrypted_to_data_packet_value ev \<noteq> Value_EncryptedPacket ep"
  by (cases ev) simp_all

lemma convert_roundtrip:
  "convert_data_packet_to_encrypted_value v = Some ev \<longleftrightarrow> v = convert_encrypted_to_data_packet_value ev"
  by (cases v; cases ev) auto

lemma converted_value_event:
  "value_event kind sid identity (convert_encrypted_to_data_packet_value ev) t \<noteq> None"
  by (cases ev) simp_all

section \<open>Encryption\<close>

definition ciphers_match :: "e2ee_data \<Rightarrow> e2ee_data \<Rightarrow> string \<Rightarrow> bool" where
  "ciphers_match m m' identity \<longleftrightarrow>
     (\<forall>k raw c. ed_encrypt m identity k raw = Some c \<longrightarrow> ed_decrypt m' identity c = Some raw)"

text \<open>
  C14. Encryption of data packets is transparent. With encryption on, a value of an encryptable
  kind leaves as an encrypted packet and in no other form; a receiver whose cipher matches the
  sender's emits for it exactly the event of the original value, marked with the sender's type
  of encryption.
\<close>

theorem encryption_transparent:
  assumes "outgoing_value encode_payload (Some m) me (Some v) = Ok (Some w)"
    and "ed_dc_encryption_enabled m" and "convert_data_packet_to_encrypted_value v = Some ev"
    and "decode_payload (encode_payload ev) = Some (Some ev)" and "ciphers_match m m' (pid_identity me)"
  shows "(\<exists>ep. w = Value_EncryptedPacket ep)
    \<and> Some (emit_incoming_packet decode_payload (Some m') kind sid (Some (pid_identity me)) w Enc_None s) =
      map_option (\<lambda>e. send_event e s)
        (value_event kind sid (Some (pid_identity me)) v (encryption_type_from (ed_encryption_type m)))"
proof -
  obtain c where c: "ed_encrypt m (pid_identity me) (ed_latest_key_index m) (encode_payload ev) = Some c"
      "w = Value_EncryptedPacket \<lparr>ep_encryption_type = encryption_to_int (encryption_type_from (ed_encryption_type m)),
        ep_iv = ci_iv c, ep_key_index = ci_key_index c, ep_encrypted_value = ci_data c\<rparr>"
    using assms(1-3) by (auto simp: outgoing_value_def split: option.splits)
  have same: "\<lparr>ci_data = ci_data c, ci_iv = ci_iv c, ci_key_index = ci_key_index c\<rparr> = c" by (cases c) simp
  have "ed_decrypt m' (pid_identity me)
      \<lparr>ci_data = ci_data c, ci_iv = ci_iv c, ci_key_index = ci_key_index c\<rparr> = Some (encode_payload ev)"
    unfolding same using c(1) assms(5) unfolding ciphers_match_def by blast
  moreover have "v = convert_encrypted_to_data_packet_value ev" using assms(3) convert_roundtrip by blast
  ultimately show ?thesis
    using converted_value_event [of kind sid "Some (pid_identity me)" ev]
    by (auto simp: c(2) emit_incoming_packet_def assms(4) identity_or_empty_def Let_def split: option.split)
qed

definition example_cipher :: e2ee_data where
  "example_cipher = \<lparr>ed_dc_encryption_enabled = True, ed_latest_key_index = 3, ed_encryption_type = E2ee_Gcm,
     ed_encrypt = (\<lambda>identity k raw. Some \<lparr>ci_data = rev raw, ci_iv = [7], ci_key_index = k\<rparr>),
     ed_decrypt = (\<lambda>identity c. Some (rev (ci_data c)))\<rparr>"

theorem encryption_transparent_witness:
  "\<exists>w. outgoing_value (\<lambda>ev. [1, 2]) (Some example_cipher) \<lparr>pid_sid = ''PA_1'', pid_identity = ''bob''\<rparr>
         (Some (Value_RpcAck \<lparr>ra_request_id = ''r''\<rparr>)) = Ok (Some w)
     \<and> emit_incoming_packet (\<lambda>raw. if raw = [1, 2] then Some (Some (Enc_RpcAck \<lparr>ra_request_id = ''r''\<rparr>)) else None)
         (Some example_cipher) Reliable None (Some ''bob'') w Enc_None (session_rx_new 0)
       = send_event (Ev_RpcAck ''r'') (session_rx_new 0)"
proof -
  let ?me = "\<lparr>pid_sid = ''PA_1'', pid_identity = ''bob''\<rparr>"
  have match: "ciphers_match example_cipher example_cipher (pid_identity ?me)"
    by (auto simp: ciphers_match_def example_cipher_def)
  obtain w where w: "outgoing_value (\<lambda>ev. [1, 2]) (Some example_cipher) ?me
      (Some (Value_RpcAck \<lparr>ra_request_id = ''r''\<rparr>)) = Ok (Some w)"
    by (simp add: outgoing_value_def example_cipher_def)
  from encryption_transparent [OF w _ _ _ match, where kind = Reliable and sid = None and s = "session_rx_new 0"
      and decode_payload = "\<lambda>raw. if raw = [1, 2] then Some (Some (Enc_RpcAck \<lparr>ra_request_id = ''r''\<rparr>)) else None"]
  show ?thesis using w by (simp add: example_cipher_def)
qed

section \<open>Runs of the sending side\<close>

datatype session_move =
    Publish data_packet data_packet_kind nat
  | Buffered_Changed data_packet_kind nat
  | Resumed u32
  | Task_Turn "bytes \<Rightarrow> bool"

text \<open>A turn of the task that would stop it leaves the state.\<close>

primrec session_step ::
    "(data_packet \<Rightarrow> bytes) \<Rightarrow> session_tx \<Rightarrow> session_move \<Rightarrow> session_tx" where
  "session_step encode s (Publish packet kind tx) = emit_dc (kind, PublishPacket packet tx) s"
| "session_step encode s (Buffered_Changed kind sent) = on_buffered_amount_change kind sent s"
| "session_step encode s (Resumed n) = restart_retry n s"
| "session_step encode s (Task_Turn accepts) =
     (case dc_receive encode accepts s of None \<Rightarrow> s | Some s' \<Rightarrow> s')"

text \<open>A retry is reliable, and its last number has a successor where overflow is checked.\<close>

fun dc_event_ok :: "bool \<Rightarrow> dc_event \<Rightarrow> bool" where
  "dc_event_ok checks (kind, RetryFrom n) \<longleftrightarrow> kind = Reliable \<and> (checks \<longrightarrow> n \<noteq> - 1)"
| "dc_event_ok checks _ \<longleftrightarrow> True"

definition session_tx_inv :: "session_tx \<Rightarrow> bool" where
  "session_tx_inv s \<longleftrightarrow> txq_ok encoded_size (sx_retry_queue s)
     \<and> list_all (dc_event_ok (sx_overflow_checks s)) (sx_dc_events s)"

definition retry_in_range :: "session_tx \<Rightarrow> session_move \<Rightarrow> bool" where
  "retry_in_range s move \<longleftrightarrow> (sx_overflow_checks s \<longrightarrow> move \<noteq> Resumed (- 1))"

lemma checked_successor: "checked_add n 1 = (if n = - 1 then None else Some (n + 1))" for n :: u32
proof -
  have "unat n < 2 ^ 32" using unsigned_less [of n] by simp
  moreover have "unat (- 1 :: u32) = 2 ^ 32 - 1" by (simp add: unsigned_minus_1_eq_mask mask_eq_exp_minus_1)
  ultimately have "unat n + 1 < 2 ^ 32 \<longleftrightarrow> n \<noteq> - 1" by (auto simp: word_unat_eq_iff simp del: unsigned_less)
  then show ?thesis by (simp add: checked_add_def)
qed

lemma behind_successor:
  fixes n :: u32
  assumes "n + 1 < m" and "n \<noteq> - 1"
  shows "n \<le> m" and "\<not> m - n < 1"
proof -
  have "unat n + 1 < 2 ^ 32"
    using checked_successor [of n] assms(2) by (simp add: checked_add_def split: if_splits)
  then have "unat (n + 1) = unat n + 1" by (subst unat_add_lem [THEN iffD1]) auto
  with assms(1) have "unat n + 1 < unat m" by (simp add: word_less_nat_alt)
  then show "n \<le> m" and "\<not> m - n < 1" by (simp_all add: word_le_nat_alt word_less_nat_alt unat_sub)
qed

lemma retry_warning_panics:
  "retry_warning n s = None \<longleftrightarrow> sx_overflow_checks s \<and> tq_inner (sx_retry_queue s) \<noteq> [] \<and> n = - 1"
proof (cases "n = - 1")
  case True
  then show ?thesis
    by (auto simp: retry_warning_def add_u32_def sub_u32_def checked_successor txq_peek_def split: list.split if_splits)
next
  case False
  have "sub_u32 c m n = Some (m - n)" "sub_u32 c (m - n) 1 = Some (m - n - 1)" if "n + 1 < m" for c m
    using behind_successor [OF that False] by (simp_all add: sub_u32_def not_less)
  with False show ?thesis
    by (auto simp: retry_warning_def add_u32_def checked_successor txq_peek_def split: list.split if_splits)
qed

lemma hand_over_frame [simp]:
  "sx_dc_events (hand_over accepts kind r s) = sx_dc_events s"
  "sx_overflow_checks (hand_over accepts kind r s) = sx_overflow_checks s"
  "sx_next_packet_sequence (hand_over accepts kind r s) = sx_next_packet_sequence s"
  "sx_reliable_queue (hand_over accepts kind r s) = sx_reliable_queue s"
  "sx_reliable_buffered_amount (hand_over accepts kind r s) = sx_reliable_buffered_amount s"
  "sx_wire (hand_over accepts kind r s) =
     sx_wire s @ [(kind, pd_encoded_packet r, accepts (en_data (pd_encoded_packet r)))]"
  "sx_retry_queue (hand_over accepts kind r s) =
     (if kind = Reliable then txq_enqueue encoded_size (pd_encoded_packet r) (sx_retry_queue s) else sx_retry_queue s)"
  by (simp_all add: hand_over_def Let_def split: option.split)

lemma hand_over_fold:
  "sx_dc_events (fold (hand_over accepts kind) rs s) = sx_dc_events s"
  "sx_overflow_checks (fold (hand_over accepts kind) rs s) = sx_overflow_checks s"
  "sx_next_packet_sequence (fold (hand_over accepts kind) rs s) = sx_next_packet_sequence s"
  "sx_reliable_queue (fold (hand_over accepts kind) rs s) = sx_reliable_queue s"
  "sx_reliable_buffered_amount (fold (hand_over accepts kind) rs s) = sx_reliable_buffered_amount s"
  "sx_wire (fold (hand_over accepts kind) rs s) =
     sx_wire s @ map (\<lambda>r. (kind, pd_encoded_packet r, accepts (en_data (pd_encoded_packet r)))) rs"
  "txq_ok encoded_size (sx_retry_queue s) \<Longrightarrow>
     txq_ok encoded_size (sx_retry_queue (fold (hand_over accepts kind) rs s))"
  by (induction rs arbitrary: s) (simp_all add: txq_ok_enqueue)

lemma send_until_threshold_frame:
  "sx_dc_events (send_until_threshold accepts kind s) = sx_dc_events s"
  "sx_overflow_checks (send_until_threshold accepts kind s) = sx_overflow_checks s"
  "sx_next_packet_sequence (send_until_threshold accepts kind s) = sx_next_packet_sequence s"
  "txq_ok encoded_size (sx_retry_queue s) \<Longrightarrow>
     txq_ok encoded_size (sx_retry_queue (send_until_threshold accepts kind s))"
  by (simp_all add: send_until_threshold_def hand_over_fold split: data_packet_kind.split prod.split)

lemma retry_loop_checks [simp]: "sx_overflow_checks (retry_loop n n0 s) = sx_overflow_checks s"
  by (induction n arbitrary: s) (simp_all add: emit_dc_def Let_def split: prod.split option.split)

lemma retry_loop_inv:
  "session_tx_inv s \<Longrightarrow> session_tx_inv (retry_loop n n0 s)"
proof (induction n arbitrary: s)
  case (Suc n)
  obtain r q where d: "txq_dequeue encoded_size (sx_retry_queue s) = (r, q)" by fastforce
  with Suc.prems txq_ok_dequeue [of encoded_size "sx_retry_queue s"] have "txq_ok encoded_size q"
    by (simp add: session_tx_inv_def)
  with Suc d show ?case
    by (cases r) (auto simp: session_tx_inv_def emit_dc_def Let_def)
qed simp

lemma handle_dc_event_total:
  assumes "session_tx_inv s" and "dc_event_ok (sx_overflow_checks s) ev"
  shows "\<exists>s'. handle_dc_event encode accepts ev s = Some s' \<and> session_tx_inv s'
    \<and> sx_overflow_checks s' = sx_overflow_checks s"
proof -
  obtain kind detail where ev: "ev = (kind, detail)" by fastforce
  show ?thesis
  proof (cases detail)
    case (BufferedAmountChange sent)
    show ?thesis
    proof (cases kind)
      case Reliable
      let ?s = "send_until_threshold accepts Reliable
            (s\<lparr>sx_reliable_buffered_amount := amount_after (sx_reliable_buffered_amount s) sent\<rparr>)"
      have "txq_ok encoded_size (sx_retry_queue ?s)"
        using assms(1) by (intro send_until_threshold_frame) (simp add: session_tx_inv_def)
      from txq_trim_returns [OF this, of sent] obtain q where
        "txq_trim encoded_size sent (sx_retry_queue ?s) = Some q" "txq_ok encoded_size q" by blast
      with assms show ?thesis
        by (simp add: ev Reliable BufferedAmountChange session_tx_inv_def send_until_threshold_frame Let_def)
    qed (use assms in \<open>simp add: ev BufferedAmountChange session_tx_inv_def send_until_threshold_frame\<close>)
  next
    case (RetryFrom n)
    with assms have "retry_warning n s \<noteq> None" by (auto simp: ev retry_warning_panics)
    with RetryFrom assms show ?thesis
      by (auto simp: ev enqueue_for_retry_from_def retry_loop_inv simp del: retry_loop.simps)
  next
    case (PublishData r)
    with assms show ?thesis
      by (cases kind) (simp_all add: ev session_tx_inv_def send_until_threshold_frame)
  next
    case (PublishPacket p tx)
    with assms show ?thesis by (auto simp: ev session_tx_inv_def emit_dc_def Let_def)
  qed
qed

lemma dc_receive_total:
  assumes "session_tx_inv s"
  shows "\<exists>s'. dc_receive encode accepts s = Some s' \<and> session_tx_inv s' \<and> sx_overflow_checks s' = sx_overflow_checks s"
proof (cases "sx_dc_events s")
  case (Cons ev rest)
  with assms have "session_tx_inv (s\<lparr>sx_dc_events := rest\<rparr>)" "dc_event_ok (sx_overflow_checks s) ev"
    by (simp_all add: session_tx_inv_def)
  with handle_dc_event_total [of "s\<lparr>sx_dc_events := rest\<rparr>" ev] Cons show ?thesis by (simp add: dc_receive_def)
qed (use assms in \<open>simp add: dc_receive_def\<close>)

lemma session_step_checks:
  "session_tx_inv s \<Longrightarrow> sx_overflow_checks (session_step encode s e) = sx_overflow_checks s"
proof (cases e)
  case (Task_Turn accepts)
  assume "session_tx_inv s"
  from dc_receive_total [OF this, of encode accepts] Task_Turn show ?thesis by auto
qed (simp_all add: emit_dc_def on_buffered_amount_change_def restart_retry_def)

interpretation stx: guarded_machine "session_step encode" retry_in_range session_tx_inv for encode
proof
  fix s e assume "session_tx_inv s" "retry_in_range s e"
  moreover have "session_tx_inv (session_step encode s (Task_Turn accepts))" for accepts
    using dc_receive_total [OF \<open>session_tx_inv s\<close>, of encode accepts] by auto
  ultimately show "session_tx_inv (session_step encode s e)"
    by (cases e) (simp_all add: emit_dc_def on_buffered_amount_change_def restart_retry_def session_tx_inv_def retry_in_range_def)
qed

lemma session_tx_reach:
  assumes "checks \<longrightarrow> Resumed (- 1) \<notin> set moves"
  shows "session_tx_inv (foldl (session_step encode) (session_tx_new\<lparr>sx_overflow_checks := checks\<rparr>) moves)"
proof (rule stx.grun_inv)
  show init: "session_tx_inv (session_tx_new\<lparr>sx_overflow_checks := checks\<rparr>)"
    by (simp add: session_tx_inv_def session_tx_new_def txq_ok_new)
  have "run_ok (session_step encode) retry_in_range s moves"
    if "session_tx_inv s" "sx_overflow_checks s \<longrightarrow> Resumed (- 1) \<notin> set moves" for s
    using that
  proof (induction moves arbitrary: s)
    case (Cons e moves)
    then have ok: "retry_in_range s e" by (auto simp: retry_in_range_def)
    from Cons ok stx.inv_gstep [OF Cons.prems(1) ok] session_step_checks [OF Cons.prems(1)] show ?case by auto
  qed simp
  from this [OF init] assms
  show "run_ok (session_step encode) retry_in_range (session_tx_new\<lparr>sx_overflow_checks := checks\<rparr>) moves" by simp
qed

lemma session_tx_reach_release:
  "session_tx_inv (foldl (session_step encode) session_tx_new moves)"
proof -
  have "session_tx_new\<lparr>sx_overflow_checks := False\<rparr> = session_tx_new" by (simp add: session_tx_new_def)
  with session_tx_reach [of False moves encode] show ?thesis by simp
qed

text \<open>
  C35. The task of the data channels does not stop on its own. Whatever is published, acknowledged
  and resumed, and whatever the channels answer, every event the task takes is handled: the
  assertion on retries holds, trimming the retry queue ends, and the arithmetic of a retry does not
  overflow, except that a build with overflow checks needs the server not to report the largest
  sequence number as the last one.
\<close>

theorem dc_task_total:
  assumes "checks \<longrightarrow> Resumed (- 1) \<notin> set moves"
  shows "data_channel_task encode accepts n
      (foldl (session_step encode) (session_tx_new\<lparr>sx_overflow_checks := checks\<rparr>) moves) \<noteq> None"
proof -
  have "\<exists>s'. data_channel_task encode accepts n s = Some s'" if "session_tx_inv s" for s
    using that
  proof (induction n arbitrary: s)
    case (Suc n)
    with dc_receive_total [OF Suc.prems, of encode accepts] show ?case by fastforce
  qed simp
  with session_tx_reach [OF assms, of encode] show ?thesis by fastforce
qed

text \<open>With the largest sequence number a build with overflow checks panics as soon as there is anything to retry.\<close>

lemma retry_overflow_panics:
  assumes "sx_overflow_checks s" and "tq_inner (sx_retry_queue s) \<noteq> []"
  shows "handle_dc_event encode accepts (Reliable, RetryFrom (- 1)) s = None"
  using assms retry_warning_panics [of "- 1" s] by (simp add: enqueue_for_retry_from_def)

theorem dc_task_total_witness:
  "\<exists>s'. data_channel_task (\<lambda>p. [0]) (\<lambda>_. True) 8
      (foldl (session_step (\<lambda>p. [0])) (session_tx_new\<lparr>sx_overflow_checks := True\<rparr>)
        [Publish data_packet_default Reliable 0, Task_Turn (\<lambda>_. True), Task_Turn (\<lambda>_. True), Resumed 0]) = Some s'"
proof -
  have "True \<longrightarrow> Resumed (- 1) \<notin> set [Publish data_packet_default Reliable 0, Task_Turn (\<lambda>_. True), Task_Turn (\<lambda>_. True), Resumed 0]"
    by simp
  from dc_task_total [OF this, of "\<lambda>p. [0]" "\<lambda>_. True" 8] show ?thesis by blast
qed

section \<open>The order of reliable packets\<close>

text \<open>The sequence numbers given out so far, by where their packets are.\<close>

definition reliable_sent :: "session_tx \<Rightarrow> u32 list" where
  "reliable_sent s = map (\<lambda>(k, p, ok). en_sequence p) (filter (\<lambda>(k, _). k = Reliable) (sx_wire s))"

fun pending_sequence :: "dc_event \<Rightarrow> u32 option" where
  "pending_sequence (Reliable, PublishData r) = Some (en_sequence (pd_encoded_packet r))"
| "pending_sequence _ = None"

definition reliable_given :: "session_tx \<Rightarrow> u32 list" where
  "reliable_given s = reliable_sent s
     @ map (\<lambda>r. en_sequence (pd_encoded_packet r)) (sx_reliable_queue s)
     @ List.map_filter pending_sequence (sx_dc_events s)"

fun no_retry :: "dc_event \<Rightarrow> bool" where
  "no_retry (kind, RetryFrom n) \<longleftrightarrow> False"
| "no_retry _ \<longleftrightarrow> True"

definition in_order :: "session_tx \<Rightarrow> bool" where
  "in_order s \<longleftrightarrow> list_all no_retry (sx_dc_events s)
     \<and> reliable_given s = map of_nat [1..<Suc (length (reliable_given s))]
     \<and> sx_next_packet_sequence s = of_nat (Suc (length (reliable_given s)))"

lemma reliable_sent_hand_over_fold:
  "reliable_sent (fold (hand_over accepts kind) rs s) = reliable_sent s
     @ (if kind = Reliable then map (\<lambda>r. en_sequence (pd_encoded_packet r)) rs else [])"
  by (auto simp: reliable_sent_def hand_over_fold comp_def)

lemma reliable_given_send:
  "reliable_given (send_until_threshold accepts kind s) = reliable_given s"
proof (cases kind)
  case Lossy
  show ?thesis
    by (simp add: Lossy reliable_given_def send_until_threshold_def hand_over_fold
      reliable_sent_hand_over_fold split: prod.split) (simp add: reliable_sent_def)
next
  case Reliable
  obtain taken b rest where d: "drain request_size (sx_reliable_threshold s) (sx_reliable_buffered_amount s)
      (sx_reliable_queue s) = (taken, b, rest)" by (rule prod_cases3)
  have "reliable_given (send_until_threshold accepts kind s) = reliable_sent s
      @ map (\<lambda>r. en_sequence (pd_encoded_packet r)) (taken @ rest) @ List.map_filter pending_sequence (sx_dc_events s)"
    by (simp add: Reliable d reliable_given_def send_until_threshold_def hand_over_fold
      reliable_sent_hand_over_fold) (simp add: reliable_sent_def)
  then show ?thesis by (simp add: bp.split_queue [OF d] reliable_given_def)
qed

lemma map_filter_append:
  "List.map_filter f (xs @ ys) = List.map_filter f xs @ List.map_filter f ys"
  by (induction xs) (simp_all add: map_filter_simps split: option.split)

lemma in_order_frame:
  assumes "in_order s" and "reliable_given s' = reliable_given s"
    and "sx_next_packet_sequence s' = sx_next_packet_sequence s" and "list_all no_retry (sx_dc_events s')"
  shows "in_order s'"
  using assms by (simp add: in_order_def)

lemma in_order_updates [simp]:
  "in_order (s\<lparr>sx_lossy_buffered_amount := n\<rparr>) = in_order s"
  "in_order (s\<lparr>sx_reliable_buffered_amount := n\<rparr>) = in_order s"
  "in_order (s\<lparr>sx_retry_queue := q\<rparr>) = in_order s"
  by (simp_all add: in_order_def reliable_given_def reliable_sent_def)

text \<open>Emitting an event that gives out no number, or the packet of the next number.\<close>

lemma in_order_emit:
  assumes "in_order s" and "no_retry ev" and "pending_sequence ev = None"
  shows "in_order (emit_dc ev s)"
  by (rule in_order_frame [OF assms(1)])
    (use assms in \<open>simp_all add: in_order_def emit_dc_def reliable_given_def reliable_sent_def
      map_filter_append map_filter_simps\<close>)

lemma in_order_publish:
  assumes "in_order s" and "en_sequence (pd_encoded_packet r) = sx_next_packet_sequence s"
  shows "in_order (emit_dc (Reliable, PublishData r)
    (s\<lparr>sx_next_packet_sequence := sx_next_packet_sequence s + 1\<rparr>))"
proof -
  have "reliable_given (emit_dc (Reliable, PublishData r)
      (s\<lparr>sx_next_packet_sequence := sx_next_packet_sequence s + 1\<rparr>)) = reliable_given s @ [sx_next_packet_sequence s]"
    using assms(2) by (simp add: reliable_given_def reliable_sent_def emit_dc_def map_filter_append map_filter_simps)
  with assms(1) show ?thesis by (simp add: in_order_def emit_dc_def)
qed

lemma in_order_send:
  "in_order s \<Longrightarrow> in_order (send_until_threshold accepts kind s)"
  by (rule in_order_frame) (simp_all add: reliable_given_send send_until_threshold_frame, simp add: in_order_def)

text \<open>Taking the next event and handling it keeps the order, unless the event is a retry.\<close>

lemma in_order_receive:
  assumes "in_order s" and "dc_receive encode accepts s = Some s'"
  shows "in_order s'"
proof (cases "sx_dc_events s")
  case Nil
  with assms show ?thesis by (simp add: dc_receive_def)
next
  case (Cons ev rest)
  obtain kind detail where ev: "ev = (kind, detail)" by fastforce
  let ?s = "s\<lparr>sx_dc_events := rest\<rparr>"
  have h: "handle_dc_event encode accepts (kind, detail) ?s = Some s'"
    using assms(2) Cons ev by (simp add: dc_receive_def)
  have plain: "in_order ?s" if "pending_sequence ev = None"
    by (rule in_order_frame [OF assms(1)])
      (use assms(1) Cons that in \<open>simp_all add: in_order_def reliable_given_def reliable_sent_def map_filter_simps\<close>)
  show ?thesis
  proof (cases detail)
    case (PublishPacket packet tx)
    then have order: "in_order ?s" using plain ev by simp
    show ?thesis
    proof (cases kind)
      case Reliable
      show ?thesis
        using h in_order_publish [OF order, of "\<lparr>pd_encoded_packet = encode_packet encode
          (packet\<lparr>dp_sequence := sx_next_packet_sequence s\<rparr>), pd_completion_tx = Some tx\<rparr>"]
        by (auto simp: Reliable PublishPacket encode_packet_def)
    next
      case Lossy
      with h PublishPacket show ?thesis by (auto intro: in_order_emit [OF order])
    qed
  next
    case (PublishData r)
    have "in_order (?s\<lparr>sx_reliable_queue := sx_reliable_queue s @ [r]\<rparr>)" if "kind = Reliable"
      by (rule in_order_frame [OF assms(1)])
        (use assms(1) Cons ev PublishData that in
          \<open>simp_all add: in_order_def reliable_given_def reliable_sent_def map_filter_simps\<close>)
    moreover have "in_order (?s\<lparr>sx_lossy_queue := sx_lossy_queue s @ [r]\<rparr>)" if "kind = Lossy"
      by (rule in_order_frame [OF assms(1)])
        (use assms(1) Cons ev PublishData that in
          \<open>simp_all add: in_order_def reliable_given_def reliable_sent_def map_filter_simps\<close>)
    ultimately show ?thesis using h PublishData by (cases kind) (auto intro!: in_order_send)
  next
    case (BufferedAmountChange sent)
    then have "in_order ?s" using plain ev by simp
    with h BufferedAmountChange show ?thesis by (cases kind) (auto simp: Let_def intro!: in_order_send)
  next
    case (RetryFrom n)
    with assms(1) Cons ev show ?thesis by (simp add: in_order_def)
  qed
qed

definition not_resumed :: "session_move \<Rightarrow> bool" where
  "not_resumed move = (case move of Resumed _ \<Rightarrow> False | _ \<Rightarrow> True)"

lemma in_order_step:
  assumes "in_order s" and "not_resumed move"
  shows "in_order (session_step encode s move)"
proof (cases move)
  case (Task_Turn accepts)
  with assms show ?thesis
    using in_order_receive [of s encode accepts] by (auto split: option.split)
qed (use assms in \<open>auto simp: not_resumed_def on_buffered_amount_change_def intro: in_order_emit\<close>)

lemma in_order_run:
  "in_order s \<Longrightarrow> list_all not_resumed moves \<Longrightarrow> in_order (foldl (session_step encode) s moves)"
  by (induction moves arbitrary: s) (simp_all add: in_order_step)

lemma upt_prefix:
  "map f [m..<n] = xs @ ys \<Longrightarrow> xs = map f [m..<m + length xs]"
proof -
  assume h: "map f [m..<n] = xs @ ys"
  then have "n - m = length xs + length ys" by (metis length_append length_map length_upt)
  then have "length xs \<le> n - m" by simp
  have "xs = take (length xs) (map f [m..<n])" by (simp add: h)
  also have "\<dots> = map f [m..<m + length xs]"
  proof (cases xs)
    case (Cons x xs')
    with \<open>length xs \<le> n - m\<close> have "m + length xs \<le> n" by simp
    then show ?thesis by (simp add: take_map)
  qed simp
  finally show ?thesis .
qed

text \<open>
  C13. Reliable packets leave in order and none is skipped. On every run on which the connection
  is not resumed, whatever is published on both channels, acknowledged and refused, the
  sequence numbers of the reliable packets handed to the channel are 1, 2, 3 and so on (as
  32-bit words), each exactly once.
\<close>

theorem reliable_in_order:
  assumes "list_all not_resumed moves"
  shows "reliable_sent (foldl (session_step encode) session_tx_new moves) =
    map of_nat [1..<Suc (length (reliable_sent (foldl (session_step encode) session_tx_new moves)))]"
proof -
  let ?s = "foldl (session_step encode) session_tx_new moves"
  have "in_order session_tx_new"
    by (simp add: in_order_def session_tx_new_def reliable_given_def reliable_sent_def map_filter_simps)
  from in_order_run [OF this assms] have "reliable_given ?s = map of_nat [1..<Suc (length (reliable_given ?s))]"
    by (simp add: in_order_def)
  then obtain n ys where "map of_nat [1..<n] = reliable_sent ?s @ ys" by (metis reliable_given_def)
  from upt_prefix [OF this] show ?thesis by simp
qed

definition example_moves :: "session_move list" where
  "example_moves =
     [Publish data_packet_default Reliable 0, Publish data_packet_default Lossy 1, Publish data_packet_default Reliable 2]
     @ replicate 6 (Task_Turn (\<lambda>_. True))"

lemmas run_simps = Let_def session_tx_new_def INITIAL_BUFFERED_AMOUNT_LOW_THRESHOLD_def emit_dc_def dc_receive_def
  encode_packet_def send_until_threshold_def hand_over_def txq_enqueue_def txq_new_def data_packet_default_def

lemma replicate_6: "replicate 6 x = [x, x, x, x, x, x]"
  by (simp add: numeral_eq_Suc)

lemma example_moves_sent:
  "reliable_sent (foldl (session_step (\<lambda>p. [0])) session_tx_new example_moves) = [1, 2]"
  by (simp add: example_moves_def replicate_6 run_simps reliable_sent_def)

theorem reliable_in_order_witness:
  "let s = foldl (session_step (\<lambda>p. [0])) session_tx_new example_moves
   in reliable_sent s = map of_nat [1..<Suc (length (reliable_sent s))] \<and> length (reliable_sent s) = 2"
proof -
  have "list_all not_resumed example_moves" by (simp add: example_moves_def replicate_6 not_resumed_def)
  from conjI [OF reliable_in_order [OF this, of "\<lambda>p. [0]"]] show ?thesis
    by (simp only: Let_def) (simp add: example_moves_sent)
qed

section \<open>What a retry can still send\<close>

text \<open>
  An acknowledgement makes the queue for retries forget packets that are still on their
  way. The queue is trimmed to the number of bytes just acknowledged, not to what is still
  buffered: when nothing is queued and more than twice that number was buffered, fewer bytes
  are kept for a retry than the channel has not yet sent, so that a resumed connection cannot
  retry all of them.
\<close>

lemma retry_forgets_unsent:
  assumes "session_tx_inv s" and "sx_reliable_queue s = []"
    and "2 * sent < sx_reliable_buffered_amount s"
    and "handle_dc_event encode accepts (Reliable, BufferedAmountChange sent) s = Some s'"
  shows "sum_list (map encoded_size (tq_inner (sx_retry_queue s'))) \<le> sent
    \<and> sum_list (map encoded_size (tq_inner (sx_retry_queue s'))) < sx_reliable_buffered_amount s'"
proof -
  let ?s = "s\<lparr>sx_reliable_buffered_amount := sx_reliable_buffered_amount s - sent\<rparr>"
  have idle: "send_until_threshold accepts Reliable ?s = ?s"
    by (cases s) (use assms(2) in \<open>simp add: send_until_threshold_def\<close>)
  from assms(1) txq_trim_returns [of encoded_size "sx_retry_queue s" sent] obtain q where
    "txq_trim encoded_size sent (sx_retry_queue s) = Some q" "sum_list (map encoded_size (tq_inner q)) \<le> sent"
    by (auto simp: session_tx_inv_def)
  with assms(3,4) idle show ?thesis by (auto simp: amount_after_def)
qed

definition three_sent :: session_tx where
  "three_sent = foldl (session_step (\<lambda>p. [0, 0])) session_tx_new
     (replicate 3 (Publish data_packet_default Reliable 0) @ replicate 6 (Task_Turn (\<lambda>_. True)))"

lemma three_sent_facts:
  "sx_reliable_queue three_sent = []" "sx_reliable_buffered_amount three_sent = 6"
  "map en_sequence (tq_inner (sx_retry_queue three_sent)) = [1, 2, 3]"
  by (simp_all add: three_sent_def replicate_6 numeral_3_eq_3 run_simps)

lemma retry_forgets_unsent_witness:
  "\<exists>s'. handle_dc_event (\<lambda>p. [0, 0]) (\<lambda>_. True) (Reliable, BufferedAmountChange 2) three_sent = Some s'
     \<and> sum_list (map encoded_size (tq_inner (sx_retry_queue s'))) \<le> 2
     \<and> sum_list (map encoded_size (tq_inner (sx_retry_queue s'))) < sx_reliable_buffered_amount s'"
proof -
  have inv: "session_tx_inv three_sent" unfolding three_sent_def by (rule session_tx_reach_release)
  then obtain s' where "handle_dc_event (\<lambda>p. [0, 0]) (\<lambda>_. True) (Reliable, BufferedAmountChange 2) three_sent = Some s'"
    using handle_dc_event_total [of three_sent "(Reliable, BufferedAmountChange 2)"] by auto
  with retry_forgets_unsent [OF inv three_sent_facts(1) _ this] show ?thesis
    by (auto simp: three_sent_facts(2))
qed

end
