(* ===== verification/Rpc.thy ===== *)
theory Rpc
  imports Session_Data Utf8
begin

text \<open>
  Remote procedure calls between participants: the errors of \<^verbatim>\<open>participant/rpc.rs\<close>, and the
  caller and the callee in \<^verbatim>\<open>participant/local_participant.rs\<close>. A call is a state machine
  driven by the answers of the engine, by received packets, and by its timers. A string is the
  list of the bytes of its text.
\<close>

section \<open>Errors\<close>

record rpc_error =
  er_code :: u32
  er_message :: string
  er_data :: "string option"

definition MAX_MESSAGE_BYTES :: nat where "MAX_MESSAGE_BYTES = 256"

definition MAX_DATA_BYTES :: nat where "MAX_DATA_BYTES = 15360"

definition MAX_PAYLOAD_BYTES :: nat where "MAX_PAYLOAD_BYTES = 15360"

definition byte_length :: "string \<Rightarrow> nat" where
  "byte_length s = length s"

text \<open>\<^verbatim>\<open>chars\<close>: a character is a byte with the continuation bytes after it.\<close>

definition char_cont :: "char \<Rightarrow> bool" where
  "char_cont c = cont (of_char c)"

function chars_of :: "string \<Rightarrow> string list" where
  "chars_of [] = []"
| "chars_of (c # cs) = (c # takeWhile char_cont cs) # chars_of (dropWhile char_cont cs)"
  by pat_completeness auto
termination by (relation "measure length") (auto simp: length_dropWhile_le less_Suc_eq_le)

fun truncate_loop :: "nat \<Rightarrow> string \<Rightarrow> string list \<Rightarrow> string" where
  "truncate_loop max_bytes result [] = result"
| "truncate_loop max_bytes result (c # cs) =
     (if byte_length (result @ c) > max_bytes then result
      else truncate_loop max_bytes (result @ c) cs)"

definition truncate_bytes :: "string \<Rightarrow> nat \<Rightarrow> string" where
  "truncate_bytes s max_bytes =
     (if byte_length s \<le> max_bytes then s else truncate_loop max_bytes [] (chars_of s))"

text \<open>What is left of a text is the most characters that fit.\<close>

lemma concat_chars_of: "concat (chars_of s) = s"
  by (induction s rule: chars_of.induct) simp_all

lemma truncate_loop_cut:
  "length result \<le> n \<Longrightarrow> \<exists>k. truncate_loop n result cs = result @ concat (take k cs)
     \<and> length (truncate_loop n result cs) \<le> n
     \<and> (length cs \<le> k \<or> n < length (result @ concat (take (Suc k) cs)))"
proof (induction cs arbitrary: result)
  case (Cons c cs)
  show ?case
  proof (cases "length (result @ c) \<le> n")
    case True
    from Cons.IH [OF this] obtain k where "truncate_loop n (result @ c) cs = (result @ c) @ concat (take k cs)"
      "length (truncate_loop n (result @ c) cs) \<le> n"
      "length cs \<le> k \<or> n < length ((result @ c) @ concat (take (Suc k) cs))" by blast
    with True show ?thesis by (intro exI [of _ "Suc k"]) (simp add: byte_length_def)
  next
    case False
    with Cons.prems show ?thesis by (intro exI [of _ 0]) (simp add: byte_length_def)
  qed
qed simp

lemma truncate_bytes_cut:
  "\<exists>k. truncate_bytes s n = concat (take k (chars_of s)) \<and> length (truncate_bytes s n) \<le> n
     \<and> (length (chars_of s) \<le> k \<or> n < length (concat (take (Suc k) (chars_of s))))"
proof (cases "length s \<le> n")
  case True
  then show ?thesis
    by (intro exI [of _ "length (chars_of s)"]) (simp add: truncate_bytes_def byte_length_def concat_chars_of)
next
  case False
  with truncate_loop_cut [of "[]" n "chars_of s"] show ?thesis
    by (simp add: truncate_bytes_def byte_length_def)
qed

definition rpc_error_new :: "u32 \<Rightarrow> string \<Rightarrow> string option \<Rightarrow> rpc_error" where
  "rpc_error_new code message data =
     \<lparr>er_code = code, er_message = truncate_bytes message MAX_MESSAGE_BYTES,
      er_data = map_option (\<lambda>d. truncate_bytes d MAX_DATA_BYTES) data\<rparr>"

definition rpc_error_from_proto :: "rpc_error_msg \<Rightarrow> rpc_error" where
  "rpc_error_from_proto p = rpc_error_new (re_code p) (re_message p) (Some (re_data p))"

definition rpc_error_to_proto :: "rpc_error \<Rightarrow> rpc_error_msg" where
  "rpc_error_to_proto e =
     \<lparr>re_code = er_code e, re_message = er_message e, re_data = unwrap_or [] (er_data e)\<rparr>"

datatype rpc_error_code =
    ApplicationError | ConnectionTimeout | ResponseTimeout | RecipientDisconnected
  | ResponsePayloadTooLarge | SendFailed
  | UnsupportedMethod | RecipientNotFound | RequestPayloadTooLarge | UnsupportedServer
  | UnsupportedRpcVersion

primrec code_number :: "rpc_error_code \<Rightarrow> u32" where
  "code_number ApplicationError = 1500"
| "code_number ConnectionTimeout = 1501"
| "code_number ResponseTimeout = 1502"
| "code_number RecipientDisconnected = 1503"
| "code_number ResponsePayloadTooLarge = 1504"
| "code_number SendFailed = 1505"
| "code_number UnsupportedMethod = 1400"
| "code_number RecipientNotFound = 1401"
| "code_number RequestPayloadTooLarge = 1402"
| "code_number UnsupportedServer = 1403"
| "code_number UnsupportedRpcVersion = 1404"

primrec code_message :: "rpc_error_code \<Rightarrow> string" where
  "code_message ApplicationError = ''Application error in method handler''"
| "code_message ConnectionTimeout = ''Connection timeout''"
| "code_message ResponseTimeout = ''Response timeout''"
| "code_message RecipientDisconnected = ''Recipient disconnected''"
| "code_message ResponsePayloadTooLarge = ''Response payload too large''"
| "code_message SendFailed = ''Failed to send''"
| "code_message UnsupportedMethod = ''Method not supported at destination''"
| "code_message RecipientNotFound = ''Recipient not found''"
| "code_message RequestPayloadTooLarge = ''Request payload too large''"
| "code_message UnsupportedServer = ''RPC not supported by server''"
| "code_message UnsupportedRpcVersion = ''Unsupported RPC version''"

definition built_in :: "rpc_error_code \<Rightarrow> string option \<Rightarrow> rpc_error" where
  "built_in code data = rpc_error_new (code_number code) (code_message code) data"

type_synonym rpc_result = "(rpc_error, string) rust"

section \<open>Packets\<close>

definition publish_rpc_request :: "string \<Rightarrow> rpc_request \<Rightarrow> data_packet" where
  "publish_rpc_request destination request =
     data_packet_default\<lparr>dp_value := Some (Value_RpcRequest request),
       dp_destination_identities := [destination]\<rparr>"

text \<open>The payload is unwrapped when there is no error.\<close>

definition publish_rpc_response ::
    "string \<Rightarrow> string \<Rightarrow> string option \<Rightarrow> rpc_error_msg option \<Rightarrow> data_packet option" where
  "publish_rpc_response destination request_id payload error =
     (case (case error of
              Some e \<Rightarrow> Some (Rpc_Error \<lparr>re_code = re_code e, re_message = re_message e, re_data = re_data e\<rparr>)
            | None \<Rightarrow> map_option Rpc_Payload payload) of
        None \<Rightarrow> None
      | Some v \<Rightarrow> Some (data_packet_default\<lparr>
          dp_value := Some (Value_RpcResponse \<lparr>rs_request_id = request_id, rs_value = Some v\<rparr>),
          dp_destination_identities := [destination]\<rparr>))"

definition publish_rpc_ack :: "string \<Rightarrow> string \<Rightarrow> data_packet" where
  "publish_rpc_ack destination request_id =
     data_packet_default\<lparr>dp_value := Some (Value_RpcAck \<lparr>ra_request_id = request_id\<rparr>),
       dp_destination_identities := [destination]\<rparr>"

section \<open>The callee\<close>

record rpc_invocation =
  ri_request_id :: string
  ri_caller_identity :: string
  ri_payload :: string
  ri_response_timeout :: nat

text \<open>
  A handler runs in a task of its own; what it returns is an argument of the handling, and
  \<open>Panic\<close> is a task that panicked. The result is the pair of the acknowledgement and the
  response that are given to the engine, whose errors are only logged.
\<close>

type_synonym rpc_handler = "rpc_invocation \<Rightarrow> rpc_result"

definition invoke :: "(string \<rightharpoonup> rpc_handler) \<Rightarrow> string \<Rightarrow> string \<Rightarrow> string \<Rightarrow> string \<Rightarrow> nat \<Rightarrow> u32 \<Rightarrow> (rpc_error, string) rust" where
  "invoke handlers caller_identity request_id method payload response_timeout version =
     (if version \<noteq> 1 then Err (built_in UnsupportedRpcVersion None)
      else
        (case handlers method of
           None \<Rightarrow> Err (built_in UnsupportedMethod None)
         | Some handler \<Rightarrow>
             (case handler \<lparr>ri_request_id = request_id, ri_caller_identity = caller_identity,
                 ri_payload = payload, ri_response_timeout = response_timeout\<rparr> of
                Panic \<Rightarrow> Err (built_in ApplicationError None)
              | result \<Rightarrow> result)))"

fun response_parts :: "(rpc_error, string) rust \<Rightarrow> string option \<times> rpc_error option" where
  "response_parts (Ok response_payload) =
     (if length response_payload \<le> MAX_PAYLOAD_BYTES then (Some response_payload, None)
      else (None, Some (built_in ResponsePayloadTooLarge None)))"
| "response_parts (Err e) = (None, Some e)"
| "response_parts Panic = (None, None)"

definition handle_incoming_rpc_request ::
    "(string \<rightharpoonup> rpc_handler) \<Rightarrow> string \<Rightarrow> string \<Rightarrow> string \<Rightarrow> string \<Rightarrow> nat \<Rightarrow> u32 \<Rightarrow> data_packet \<times> data_packet option" where
  "handle_incoming_rpc_request handlers caller_identity request_id method payload response_timeout version =
     (let ack = publish_rpc_ack caller_identity request_id;
          (payload, error) = response_parts
            (invoke handlers caller_identity request_id method payload response_timeout version)
      in (ack, publish_rpc_response caller_identity request_id payload (map_option rpc_error_to_proto error)))"

section \<open>The caller\<close>

text \<open>The channel on which a call waits for its acknowledgement or its response.\<close>

datatype 'a oneshot = Open | Sent 'a | Tx_Dropped

datatype rpc_phase = Publishing | Wait_Ack | Wait_Response | Finished rpc_result

record perform_rpc_data =
  pr_destination_identity :: string
  pr_method :: string
  pr_payload :: string
  pr_response_timeout :: nat

record rpc_call =
  cl_id :: string
  cl_data :: perform_rpc_data
  cl_ack :: "unit oneshot"
  cl_response :: "rpc_result oneshot"
  cl_phase :: rpc_phase

text \<open>The senders of the channels are named by the number of their call. Durations are in nanoseconds.\<close>

record rpc_state =
  rp_pending_acks :: "string \<rightharpoonup> nat"
  rp_pending_responses :: "string \<rightharpoonup> nat"
  rp_handlers :: "string \<rightharpoonup> rpc_handler"
  rp_calls :: "rpc_call list"
  rp_requests :: "data_packet list"

definition rpc_state_new :: rpc_state where
  "rpc_state_new = \<lparr>rp_pending_acks = Map.empty, rp_pending_responses = Map.empty,
     rp_handlers = Map.empty, rp_calls = [], rp_requests = []\<rparr>"

definition set_call :: "nat \<Rightarrow> rpc_call \<Rightarrow> rpc_state \<Rightarrow> rpc_state" where
  "set_call k c s = s\<lparr>rp_calls := (rp_calls s)[k := c]\<rparr>"

definition oneshot_send :: "'a \<Rightarrow> 'a oneshot \<Rightarrow> 'a oneshot" where
  "oneshot_send v ch = (case ch of Open \<Rightarrow> Sent v | _ \<Rightarrow> ch)"

definition oneshot_drop :: "'a oneshot \<Rightarrow> 'a oneshot" where
  "oneshot_drop ch = (case ch of Open \<Rightarrow> Tx_Dropped | _ \<Rightarrow> ch)"

text \<open>A sender that leaves its map unused is dropped.\<close>

definition forget_ack :: "string \<Rightarrow> rpc_state \<Rightarrow> rpc_state" where
  "forget_ack i s =
     (case rp_pending_acks s i of
        None \<Rightarrow> s
      | Some k \<Rightarrow>
          set_call k ((rp_calls s ! k)\<lparr>cl_ack := oneshot_drop (cl_ack (rp_calls s ! k))\<rparr>)
            (s\<lparr>rp_pending_acks := (rp_pending_acks s)(i := None)\<rparr>))"

definition forget_response :: "string \<Rightarrow> rpc_state \<Rightarrow> rpc_state" where
  "forget_response i s =
     (case rp_pending_responses s i of
        None \<Rightarrow> s
      | Some k \<Rightarrow>
          set_call k ((rp_calls s ! k)\<lparr>cl_response := oneshot_drop (cl_response (rp_calls s ! k))\<rparr>)
            (s\<lparr>rp_pending_responses := (rp_pending_responses s)(i := None)\<rparr>))"

definition finish :: "nat \<Rightarrow> rpc_result \<Rightarrow> rpc_state \<Rightarrow> rpc_state" where
  "finish k r s = set_call k ((rp_calls s ! k)\<lparr>cl_phase := Finished r\<rparr>) s"

definition max_round_trip_latency :: nat where "max_round_trip_latency = 7000 * 1000000"

definition min_effective_timeout :: nat where "min_effective_timeout = 1000 * 1000000"

definition effective_timeout :: "perform_rpc_data \<Rightarrow> nat" where
  "effective_timeout data = max (pr_response_timeout data - max_round_trip_latency) min_effective_timeout"

definition request_of :: "string \<Rightarrow> perform_rpc_data \<Rightarrow> data_packet" where
  "request_of i data = publish_rpc_request (pr_destination_identity data)
     \<lparr>rq_id = i, rq_method = pr_method data, rq_payload = pr_payload data,
      rq_response_timeout_ms = word_of_nat (effective_timeout data div 1000000), rq_version = 1\<rparr>"

text \<open>
  \<^verbatim>\<open>perform_rpc\<close> up to the publication of the request. The version of the server is absent or
  empty, or it is parsed, which may fail (a panic), and compared with the least version that
  knows remote procedure calls; both are done by a library, and \<open>too_old\<close> is its answer. A
  call that ends at once gets a number all the same.
\<close>

definition perform_rpc :: "(string \<Rightarrow> bool option) \<Rightarrow> string option \<Rightarrow> string \<Rightarrow> perform_rpc_data \<Rightarrow> rpc_state \<Rightarrow> rpc_state" where
  "perform_rpc too_old server_version i data s =
     (let k = length (rp_calls s);
          c = \<lparr>cl_id = i, cl_data = data, cl_ack = Open, cl_response = Open, cl_phase = Publishing\<rparr>;
          ended = (\<lambda>r. s\<lparr>rp_calls := rp_calls s @ [c\<lparr>cl_ack := Tx_Dropped, cl_response := Tx_Dropped, cl_phase := Finished r\<rparr>]\<rparr>);
          start = (let s = forget_response i (forget_ack i s)
            in s\<lparr>rp_pending_acks := (rp_pending_acks s)(i \<mapsto> k),
                 rp_pending_responses := (rp_pending_responses s)(i \<mapsto> k),
                 rp_calls := rp_calls s @ [c],
                 rp_requests := rp_requests s @ [request_of i data]\<rparr>)
      in if length (pr_payload data) > MAX_PAYLOAD_BYTES
         then ended (Err (built_in RequestPayloadTooLarge None))
         else (case server_version of
             None \<Rightarrow> start
           | Some v \<Rightarrow>
               if v = [] then start
               else (case too_old v of
                   None \<Rightarrow> ended Panic
                 | Some True \<Rightarrow> ended (Err (built_in UnsupportedServer None))
                 | Some False \<Rightarrow> start)))"

text \<open>The engine's answer to the request, with the text of an error.\<close>

definition rpc_published :: "nat \<Rightarrow> string option \<Rightarrow> rpc_state \<Rightarrow> rpc_state" where
  "rpc_published k error s =
     (let c = rp_calls s ! k
      in if k < length (rp_calls s) \<and> cl_phase c = Publishing
         then (case error of
             Some e \<Rightarrow> finish k (Err (built_in SendFailed (Some e))) (forget_response (cl_id c) (forget_ack (cl_id c) s))
           | None \<Rightarrow> set_call k (c\<lparr>cl_phase := Wait_Ack\<rparr>) s)
         else s)"

text \<open>
  A turn of a waiting call, with whether its timer has expired. A channel that is ready is
  seen before the timer; the end of the acknowledgement's channel counts as one.
\<close>

definition rpc_poll :: "bool \<Rightarrow> nat \<Rightarrow> rpc_state \<Rightarrow> rpc_state" where
  "rpc_poll expired k s =
     (let c = rp_calls s ! k
      in if k < length (rp_calls s)
         then (case cl_phase c of
             Wait_Ack \<Rightarrow>
               if cl_ack c \<noteq> Open then set_call k (c\<lparr>cl_phase := Wait_Response\<rparr>) s
               else if expired
               then finish k (Err (built_in ConnectionTimeout None)) (forget_response (cl_id c) (forget_ack (cl_id c) s))
               else s
           | Wait_Response \<Rightarrow>
               (case cl_response c of
                  Sent r \<Rightarrow> finish k r s
                | Tx_Dropped \<Rightarrow> finish k (Err (built_in RecipientDisconnected None)) s
                | Open \<Rightarrow>
                    if expired
                    then finish k (Err (built_in ResponseTimeout None)) (forget_response (cl_id c) s)
                    else s)
           | _ \<Rightarrow> s)
         else s)"

definition handle_incoming_rpc_ack :: "string \<Rightarrow> rpc_state \<Rightarrow> rpc_state" where
  "handle_incoming_rpc_ack request_id s =
     (case rp_pending_acks s request_id of
        None \<Rightarrow> s
      | Some k \<Rightarrow>
          set_call k ((rp_calls s ! k)\<lparr>cl_ack := oneshot_send () (cl_ack (rp_calls s ! k))\<rparr>)
            (s\<lparr>rp_pending_acks := (rp_pending_acks s)(request_id := None)\<rparr>))"

definition rpc_response_result :: "string option \<Rightarrow> rpc_error_msg option \<Rightarrow> rpc_result" where
  "rpc_response_result payload error =
     (case error of Some e \<Rightarrow> Err (rpc_error_from_proto e) | None \<Rightarrow> Ok (unwrap_or [] payload))"

definition handle_incoming_rpc_response ::
    "string \<Rightarrow> string option \<Rightarrow> rpc_error_msg option \<Rightarrow> rpc_state \<Rightarrow> rpc_state" where
  "handle_incoming_rpc_response request_id payload error s =
     (case rp_pending_responses s request_id of
        None \<Rightarrow> s
      | Some k \<Rightarrow>
          set_call k ((rp_calls s ! k)\<lparr>cl_response :=
              oneshot_send (rpc_response_result payload error) (cl_response (rp_calls s ! k))\<rparr>)
            (s\<lparr>rp_pending_responses := (rp_pending_responses s)(request_id := None)\<rparr>))"

definition register_rpc_method :: "string \<Rightarrow> rpc_handler \<Rightarrow> rpc_state \<Rightarrow> rpc_state" where
  "register_rpc_method method handler s = s\<lparr>rp_handlers := (rp_handlers s)(method \<mapsto> handler)\<rparr>"

definition unregister_rpc_method :: "string \<Rightarrow> rpc_state \<Rightarrow> rpc_state" where
  "unregister_rpc_method method s = s\<lparr>rp_handlers := (rp_handlers s)(method := None)\<rparr>"

section \<open>Runs of the caller\<close>

datatype rpc_event =
    Perform "string \<Rightarrow> bool option" "string option" string perform_rpc_data
  | Published nat "string option"
  | Polled bool nat
  | Ack_In string
  | Response_In string "string option" "rpc_error_msg option"
  | Registered string rpc_handler
  | Unregistered string

primrec rpc_step :: "rpc_state \<Rightarrow> rpc_event \<Rightarrow> rpc_state" where
  "rpc_step s (Perform too_old version i data) = perform_rpc too_old version i data s"
| "rpc_step s (Published k error) = rpc_published k error s"
| "rpc_step s (Polled expired k) = rpc_poll expired k s"
| "rpc_step s (Ack_In i) = handle_incoming_rpc_ack i s"
| "rpc_step s (Response_In i payload error) = handle_incoming_rpc_response i payload error s"
| "rpc_step s (Registered m h) = register_rpc_method m h s"
| "rpc_step s (Unregistered m) = unregister_rpc_method m s"

text \<open>The identifier of a call is a random one that no earlier call has.\<close>

definition rpc_fresh :: "rpc_state \<Rightarrow> rpc_event \<Rightarrow> bool" where
  "rpc_fresh s ev = (case ev of Perform _ _ i _ \<Rightarrow> i \<notin> set (map cl_id (rp_calls s)) | _ \<Rightarrow> True)"

definition finished :: "rpc_call \<Rightarrow> bool" where
  "finished c = (case cl_phase c of Finished _ \<Rightarrow> True | _ \<Rightarrow> False)"

definition ack_waits :: "rpc_call \<Rightarrow> bool" where
  "ack_waits c \<longleftrightarrow> cl_ack c = Open \<and> (cl_phase c = Publishing \<or> cl_phase c = Wait_Ack)"

definition response_waits :: "rpc_call \<Rightarrow> bool" where
  "response_waits c \<longleftrightarrow> cl_response c = Open \<and> \<not> finished c"

definition call_ok :: "rpc_call \<Rightarrow> bool" where
  "call_ok c \<longleftrightarrow> finished c \<or> cl_ack c \<noteq> Tx_Dropped \<and> cl_response c \<noteq> Tx_Dropped
     \<and> (cl_phase c = Wait_Response \<longrightarrow> cl_ack c = Sent ())"

text \<open>The maps hold exactly the calls that wait, and no channel of a running call is cut.\<close>

definition rpc_inv :: "rpc_state \<Rightarrow> bool" where
  "rpc_inv s \<longleftrightarrow> distinct (map cl_id (rp_calls s)) \<and> list_all call_ok (rp_calls s)
     \<and> (\<forall>i k. rp_pending_acks s i = Some k \<longleftrightarrow>
          k < length (rp_calls s) \<and> cl_id (rp_calls s ! k) = i \<and> ack_waits (rp_calls s ! k))
     \<and> (\<forall>i k. rp_pending_responses s i = Some k \<longleftrightarrow>
          k < length (rp_calls s) \<and> cl_id (rp_calls s ! k) = i \<and> response_waits (rp_calls s ! k))"

lemma rpc_invD:
  assumes "rpc_inv s"
  shows "distinct (map cl_id (rp_calls s))"
    and "rp_pending_acks s i = Some k \<longleftrightarrow>
          k < length (rp_calls s) \<and> cl_id (rp_calls s ! k) = i \<and> ack_waits (rp_calls s ! k)"
    and "rp_pending_responses s i = Some k \<longleftrightarrow>
          k < length (rp_calls s) \<and> cl_id (rp_calls s ! k) = i \<and> response_waits (rp_calls s ! k)"
    and "k < length (rp_calls s) \<Longrightarrow> call_ok (rp_calls s ! k)"
  using assms by (auto simp: rpc_inv_def list_all_length)

lemma rpc_ids_unique:
  assumes "rpc_inv s" and "j < length (rp_calls s)" and "k < length (rp_calls s)"
    and "cl_id (rp_calls s ! j) = cl_id (rp_calls s ! k)"
  shows "j = k"
  using rpc_invD(1) [OF assms(1)] assms(2-4) by (metis distinct_conv_nth length_map nth_map)

text \<open>A change of one call: the maps lose the call where it no longer waits.\<close>

lemma rpc_inv_update:
  assumes "rpc_inv s" and "k < length (rp_calls s)" and "rp_calls s' = (rp_calls s)[k := c]"
    and "cl_id c = cl_id (rp_calls s ! k)" and "call_ok c"
    and "ack_waits c \<Longrightarrow> ack_waits (rp_calls s ! k)" and "response_waits c \<Longrightarrow> response_waits (rp_calls s ! k)"
    and "rp_pending_acks s' = (if ack_waits c then rp_pending_acks s else (rp_pending_acks s)(cl_id c := None))"
    and "rp_pending_responses s' =
      (if response_waits c then rp_pending_responses s else (rp_pending_responses s)(cl_id c := None))"
  shows "rpc_inv s'"
proof -
  have ids: "map cl_id (rp_calls s') = map cl_id (rp_calls s)"
    using assms(2-4) by (simp add: map_update [symmetric]) (metis list_update_id map_update)
  have same: "cl_id (rp_calls s ! j) = cl_id (rp_calls s ! k) \<longleftrightarrow> j = k" if "j < length (rp_calls s)" for j
    using rpc_ids_unique [OF assms(1) that assms(2)] by blast
  have "rp_pending_acks s' i = Some j \<longleftrightarrow>
      j < length (rp_calls s') \<and> cl_id (rp_calls s' ! j) = i \<and> ack_waits (rp_calls s' ! j)" for i j
    using rpc_invD(2) [OF assms(1), of i j] same [of j] assms(2,3,4,6,8)
    by (cases "j = k") (auto simp: nth_list_update split: if_splits)
  moreover have "rp_pending_responses s' i = Some j \<longleftrightarrow>
      j < length (rp_calls s') \<and> cl_id (rp_calls s' ! j) = i \<and> response_waits (rp_calls s' ! j)" for i j
    using rpc_invD(3) [OF assms(1), of i j] same [of j] assms(2,3,4,7,9)
    by (cases "j = k") (auto simp: nth_list_update split: if_splits)
  moreover have "list_all call_ok (rp_calls s')"
    using rpc_invD(4) [OF assms(1)] assms(2,3,5) by (simp add: list_all_length nth_list_update)
  ultimately show ?thesis
    using rpc_invD(1) [OF assms(1)] ids by (simp add: rpc_inv_def)
qed

lemma map_none_upd: "m i = None \<Longrightarrow> m(i := None) = m"
  by auto

lemma rpc_not_waiting:
  assumes "rpc_inv s" and "k < length (rp_calls s)"
  shows "\<not> ack_waits (rp_calls s ! k) \<Longrightarrow> rp_pending_acks s (cl_id (rp_calls s ! k)) = None"
    and "\<not> response_waits (rp_calls s ! k) \<Longrightarrow> rp_pending_responses s (cl_id (rp_calls s ! k)) = None"
  using rpc_invD(2,3) [OF assms(1)] rpc_ids_unique [OF assms(1) _ assms(2)]
  by (metis not_None_eq)+

text \<open>Forgetting the senders of a call, under the invariant.\<close>

lemma forget_own:
  assumes "rpc_inv s" and "k < length (rp_calls s)"
  shows "\<exists>a. forget_ack (cl_id (rp_calls s ! k)) s = s\<lparr>rp_pending_acks := (rp_pending_acks s)(cl_id (rp_calls s ! k) := None),
      rp_calls := (rp_calls s)[k := (rp_calls s ! k)\<lparr>cl_ack := a\<rparr>]\<rparr>"
    and "\<exists>b. forget_response (cl_id (rp_calls s ! k)) s = s\<lparr>rp_pending_responses := (rp_pending_responses s)(cl_id (rp_calls s ! k) := None),
      rp_calls := (rp_calls s)[k := (rp_calls s ! k)\<lparr>cl_response := b\<rparr>]\<rparr>"
    and "\<exists>a b. forget_response (cl_id (rp_calls s ! k)) (forget_ack (cl_id (rp_calls s ! k)) s) =
      s\<lparr>rp_pending_acks := (rp_pending_acks s)(cl_id (rp_calls s ! k) := None),
        rp_pending_responses := (rp_pending_responses s)(cl_id (rp_calls s ! k) := None),
        rp_calls := (rp_calls s)[k := (rp_calls s ! k)\<lparr>cl_ack := a, cl_response := b\<rparr>]\<rparr>"
proof -
  let ?c = "rp_calls s ! k" let ?i = "cl_id ?c"
  have own: "j = k" if "rp_pending_acks s ?i = Some j \<or> rp_pending_responses s ?i = Some j" for j
    using that rpc_invD(2,3) [OF assms(1), of ?i j] rpc_ids_unique [OF assms(1) _ assms(2)] by auto
  show ack: "\<exists>a. forget_ack ?i s = s\<lparr>rp_pending_acks := (rp_pending_acks s)(?i := None),
      rp_calls := (rp_calls s)[k := ?c\<lparr>cl_ack := a\<rparr>]\<rparr>"
  proof (cases "rp_pending_acks s ?i")
    case None
    then show ?thesis
      by (intro exI [of _ "cl_ack ?c"]) (simp add: forget_ack_def map_none_upd)
  next
    case (Some j)
    with own have "j = k" by blast
    with Some show ?thesis by (intro exI) (simp add: forget_ack_def set_call_def)
  qed
  have resp: "\<exists>b. forget_response ?i s' = s'\<lparr>rp_pending_responses := (rp_pending_responses s')(?i := None),
      rp_calls := (rp_calls s')[k := (rp_calls s' ! k)\<lparr>cl_response := b\<rparr>]\<rparr>"
    if "rp_pending_responses s' = rp_pending_responses s" for s'
  proof (cases "rp_pending_responses s' ?i")
    case None
    then show ?thesis
      by (intro exI [of _ "cl_response (rp_calls s' ! k)"]) (simp add: forget_response_def map_none_upd)
  next
    case (Some j)
    with own that have "j = k" by simp
    with Some show ?thesis by (intro exI) (simp add: forget_response_def set_call_def)
  qed
  from resp [of s] show "\<exists>b. forget_response ?i s = s\<lparr>rp_pending_responses := (rp_pending_responses s)(?i := None),
      rp_calls := (rp_calls s)[k := ?c\<lparr>cl_response := b\<rparr>]\<rparr>" by simp
  from ack obtain a where a: "forget_ack ?i s = s\<lparr>rp_pending_acks := (rp_pending_acks s)(?i := None),
      rp_calls := (rp_calls s)[k := ?c\<lparr>cl_ack := a\<rparr>]\<rparr>" by blast
  from resp [of "forget_ack ?i s"] show "\<exists>a b. forget_response ?i (forget_ack ?i s) =
      s\<lparr>rp_pending_acks := (rp_pending_acks s)(?i := None),
        rp_pending_responses := (rp_pending_responses s)(?i := None),
        rp_calls := (rp_calls s)[k := ?c\<lparr>cl_ack := a, cl_response := b\<rparr>]\<rparr>"
    using assms(2) by (auto simp: a intro!: exI [of _ a])
qed

lemma finished_call [simp]:
  "finished (c\<lparr>cl_phase := Finished r\<rparr>)" "\<not> ack_waits (c\<lparr>cl_phase := Finished r\<rparr>)"
  "\<not> response_waits (c\<lparr>cl_phase := Finished r\<rparr>)" "call_ok (c\<lparr>cl_phase := Finished r\<rparr>)"
  by (simp_all add: finished_def ack_waits_def response_waits_def call_ok_def)

lemma rpc_inv_finish_all:
  assumes "rpc_inv s" and "k < length (rp_calls s)"
  shows "rpc_inv (finish k r (forget_response (cl_id (rp_calls s ! k)) (forget_ack (cl_id (rp_calls s ! k)) s)))"
proof -
  let ?i = "cl_id (rp_calls s ! k)"
  from forget_own(3) [OF assms] obtain a b where eq: "forget_response ?i (forget_ack ?i s) =
      s\<lparr>rp_pending_acks := (rp_pending_acks s)(?i := None), rp_pending_responses := (rp_pending_responses s)(?i := None),
        rp_calls := (rp_calls s)[k := (rp_calls s ! k)\<lparr>cl_ack := a, cl_response := b\<rparr>]\<rparr>" by blast
  let ?c = "(rp_calls s ! k)\<lparr>cl_ack := a, cl_response := b\<rparr>"
  show ?thesis
    unfolding eq
    by (rule rpc_inv_update [OF assms, where c = "?c\<lparr>cl_phase := Finished r\<rparr>"])
      (use assms(2) in \<open>simp_all only: finish_def set_call_def finished_call if_False, simp_all\<close>)
qed

lemma rpc_inv_finish_response:
  assumes "rpc_inv s" and "k < length (rp_calls s)" and "\<not> ack_waits (rp_calls s ! k)"
  shows "rpc_inv (finish k r (forget_response (cl_id (rp_calls s ! k)) s))"
proof -
  have "rp_pending_acks s (cl_id (rp_calls s ! k)) = None"
    using rpc_not_waiting(1) [OF assms] .
  then have "forget_ack (cl_id (rp_calls s ! k)) s = s" by (simp add: forget_ack_def)
  with rpc_inv_finish_all [OF assms(1,2), of r] show ?thesis by simp
qed

text \<open>A change of the phase alone, while what the call waits for stays.\<close>

lemma rpc_inv_phase:
  assumes "rpc_inv s" and "k < length (rp_calls s)" and "call_ok ((rp_calls s ! k)\<lparr>cl_phase := p\<rparr>)"
    and "ack_waits ((rp_calls s ! k)\<lparr>cl_phase := p\<rparr>) = ack_waits (rp_calls s ! k)"
    and "response_waits ((rp_calls s ! k)\<lparr>cl_phase := p\<rparr>) = response_waits (rp_calls s ! k)"
  shows "rpc_inv (set_call k ((rp_calls s ! k)\<lparr>cl_phase := p\<rparr>) s)"
  by (rule rpc_inv_update [OF assms(1,2), where c = "(rp_calls s ! k)\<lparr>cl_phase := p\<rparr>"])
    (use assms rpc_not_waiting [OF assms(1,2)] in \<open>simp_all add: set_call_def map_none_upd\<close>)

lemma rpc_inv_published:
  assumes "rpc_inv s"
  shows "rpc_inv (rpc_published k error s)"
proof (cases "k < length (rp_calls s) \<and> cl_phase (rp_calls s ! k) = Publishing")
  case True
  then have "rpc_inv (set_call k ((rp_calls s ! k)\<lparr>cl_phase := Wait_Ack\<rparr>) s)"
    using rpc_invD(4) [OF assms, of k] assms
    by (intro rpc_inv_phase) (auto simp: call_ok_def finished_def ack_waits_def response_waits_def)
  with True rpc_inv_finish_all [OF assms, of k] show ?thesis
    by (simp add: rpc_published_def Let_def split: option.split)
qed (use assms in \<open>auto simp: rpc_published_def Let_def\<close>)

lemma rpc_inv_poll:
  assumes "rpc_inv s"
  shows "rpc_inv (rpc_poll expired k s)"
proof (cases "k < length (rp_calls s)")
  case True
  note ok = rpc_invD(4) [OF assms True]
  show ?thesis
  proof (cases "cl_phase (rp_calls s ! k)")
    case Wait_Ack
    have "rpc_inv (set_call k ((rp_calls s ! k)\<lparr>cl_phase := Wait_Response\<rparr>) s)" if "cl_ack (rp_calls s ! k) \<noteq> Open"
      using ok that Wait_Ack
      by (intro rpc_inv_phase assms True) (cases "cl_ack (rp_calls s ! k)",
        auto simp: call_ok_def finished_def ack_waits_def response_waits_def)
    with Wait_Ack rpc_inv_finish_all [OF assms True] assms True show ?thesis
      by (simp add: rpc_poll_def Let_def)
  next
    case Wait_Response
    then have "\<not> ack_waits (rp_calls s ! k)" by (simp add: ack_waits_def)
    note expire = rpc_inv_finish_response [OF assms True this]
    have "rpc_inv (finish k r s)" if "cl_response (rp_calls s ! k) \<noteq> Open" for r
      unfolding finish_def using that Wait_Response
      by (intro rpc_inv_phase assms True) (simp_all add: ack_waits_def response_waits_def)
    with Wait_Response expire assms True show ?thesis
      by (simp add: rpc_poll_def Let_def split: oneshot.split)
  qed (use assms True in \<open>simp_all add: rpc_poll_def Let_def\<close>)
qed (use assms in \<open>simp add: rpc_poll_def Let_def\<close>)

lemma rpc_inv_ack:
  assumes "rpc_inv s"
  shows "rpc_inv (handle_incoming_rpc_ack i s)"
proof (cases "rp_pending_acks s i")
  case (Some k)
  with rpc_invD(2) [OF assms, of i k] have k: "k < length (rp_calls s)" "i = cl_id (rp_calls s ! k)"
    "ack_waits (rp_calls s ! k)" by auto
  let ?c = "(rp_calls s ! k)\<lparr>cl_ack := Sent ()\<rparr>"
  have "call_ok ?c" "\<not> ack_waits ?c" "response_waits ?c = response_waits (rp_calls s ! k)"
    using rpc_invD(4) [OF assms k(1)] k(3)
    by (auto simp: call_ok_def ack_waits_def response_waits_def finished_def)
  with rpc_not_waiting [OF assms k(1)] Some k show ?thesis
    by (intro rpc_inv_update [OF assms k(1), where c = ?c])
      (simp_all add: handle_incoming_rpc_ack_def set_call_def oneshot_send_def ack_waits_def map_none_upd)
qed (use assms in \<open>simp add: handle_incoming_rpc_ack_def\<close>)

lemma rpc_inv_response:
  assumes "rpc_inv s"
  shows "rpc_inv (handle_incoming_rpc_response i payload error s)"
proof (cases "rp_pending_responses s i")
  case (Some k)
  with rpc_invD(3) [OF assms, of i k] have k: "k < length (rp_calls s)" "i = cl_id (rp_calls s ! k)"
    "response_waits (rp_calls s ! k)" by auto
  let ?c = "(rp_calls s ! k)\<lparr>cl_response := Sent (rpc_response_result payload error)\<rparr>"
  have "call_ok ?c" "ack_waits ?c = ack_waits (rp_calls s ! k)" "\<not> response_waits ?c"
    using rpc_invD(4) [OF assms k(1)] k(3)
    by (auto simp: call_ok_def ack_waits_def response_waits_def finished_def)
  with rpc_not_waiting [OF assms k(1)] Some k show ?thesis
    by (intro rpc_inv_update [OF assms k(1), where c = ?c])
      (simp_all add: handle_incoming_rpc_response_def set_call_def oneshot_send_def response_waits_def map_none_upd)
qed (use assms in \<open>simp add: handle_incoming_rpc_response_def\<close>)

text \<open>A new call at the end of the list.\<close>

lemma rpc_inv_append:
  assumes "rpc_inv s" and "cl_id c \<notin> set (map cl_id (rp_calls s))" and "call_ok c"
    and "rp_calls s' = rp_calls s @ [c]"
    and "rp_pending_acks s' = (if ack_waits c then (rp_pending_acks s)(cl_id c \<mapsto> length (rp_calls s)) else rp_pending_acks s)"
    and "rp_pending_responses s' =
      (if response_waits c then (rp_pending_responses s)(cl_id c \<mapsto> length (rp_calls s)) else rp_pending_responses s)"
  shows "rpc_inv s'"
proof -
  have new: "cl_id (rp_calls s ! k) \<noteq> cl_id c" if "k < length (rp_calls s)" for k
    using assms(2) that by (metis image_eqI list.set_map nth_mem)
  have "rp_pending_acks s' i = Some k \<longleftrightarrow>
      k < length (rp_calls s') \<and> cl_id (rp_calls s' ! k) = i \<and> ack_waits (rp_calls s' ! k)" for i k
    using rpc_invD(2) [OF assms(1), of i k] new [of k] assms(4,5)
    by (auto simp: nth_append less_Suc_eq)
  moreover have "rp_pending_responses s' i = Some k \<longleftrightarrow>
      k < length (rp_calls s') \<and> cl_id (rp_calls s' ! k) = i \<and> response_waits (rp_calls s' ! k)" for i k
    using rpc_invD(3) [OF assms(1), of i k] new [of k] assms(4,6)
    by (auto simp: nth_append less_Suc_eq)
  ultimately show ?thesis
    using assms(1-4) by (simp add: rpc_inv_def)
qed

lemma forget_fresh:
  assumes "rpc_inv s" and "i \<notin> set (map cl_id (rp_calls s))"
  shows "forget_ack i s = s" and "forget_response i s = s"
  using assms rpc_invD(2,3) [OF assms(1), of i]
  by (auto simp: forget_ack_def forget_response_def split: option.split)

text \<open>The call that a request starts, or that ends at once.\<close>

definition accepted :: "(string \<Rightarrow> bool option) \<Rightarrow> string option \<Rightarrow> perform_rpc_data \<Rightarrow> bool" where
  "accepted too_old version data \<longleftrightarrow> length (pr_payload data) \<le> MAX_PAYLOAD_BYTES
     \<and> (case version of None \<Rightarrow> True | Some v \<Rightarrow> v = [] \<or> too_old v = Some False)"

definition new_call :: "string \<Rightarrow> perform_rpc_data \<Rightarrow> rpc_call" where
  "new_call i data = \<lparr>cl_id = i, cl_data = data, cl_ack = Open, cl_response = Open, cl_phase = Publishing\<rparr>"

lemma perform_rpc_accepted:
  assumes "rpc_inv s" and "i \<notin> set (map cl_id (rp_calls s))" and "accepted too_old version data"
  shows "perform_rpc too_old version i data s =
    s\<lparr>rp_pending_acks := (rp_pending_acks s)(i \<mapsto> length (rp_calls s)),
      rp_pending_responses := (rp_pending_responses s)(i \<mapsto> length (rp_calls s)),
      rp_calls := rp_calls s @ [new_call i data], rp_requests := rp_requests s @ [request_of i data]\<rparr>"
  using assms(3) by (auto simp: perform_rpc_def accepted_def new_call_def Let_def forget_fresh [OF assms(1,2)]
    split: option.splits)

lemma perform_rpc_refused:
  assumes "\<not> accepted too_old version data"
  shows "\<exists>r. (r = Panic \<or> r = Err (built_in RequestPayloadTooLarge None) \<or> r = Err (built_in UnsupportedServer None))
    \<and> perform_rpc too_old version i data s = s\<lparr>rp_calls := rp_calls s @
       [(new_call i data)\<lparr>cl_ack := Tx_Dropped, cl_response := Tx_Dropped, cl_phase := Finished r\<rparr>]\<rparr>"
proof (cases "length (pr_payload data) \<le> MAX_PAYLOAD_BYTES")
  case False
  then show ?thesis
    by (intro exI [of _ "Err (built_in RequestPayloadTooLarge None)"]) (simp add: perform_rpc_def new_call_def Let_def)
next
  case True
  with assms obtain v where v: "version = Some v" "v \<noteq> []" "too_old v \<noteq> Some False"
    by (auto simp: accepted_def split: option.splits)
  show ?thesis
  proof (cases "too_old v")
    case None
    with True v show ?thesis
      by (intro exI [of _ Panic]) (simp add: perform_rpc_def new_call_def Let_def)
  next
    case (Some old)
    with True v show ?thesis
      by (intro exI [of _ "Err (built_in UnsupportedServer None)"]) (simp add: perform_rpc_def new_call_def Let_def)
  qed
qed

lemma rpc_inv_perform:
  assumes "rpc_inv s" and "i \<notin> set (map cl_id (rp_calls s))"
  shows "rpc_inv (perform_rpc too_old version i data s)"
proof (cases "accepted too_old version data")
  case True
  show ?thesis
    unfolding perform_rpc_accepted [OF assms True]
    by (rule rpc_inv_append [OF assms(1), where c = "new_call i data"])
      (use assms(2) in \<open>simp_all add: new_call_def call_ok_def ack_waits_def response_waits_def finished_def\<close>)
next
  case False
  from perform_rpc_refused [OF this, of i s] obtain r where eq: "perform_rpc too_old version i data s = s\<lparr>rp_calls := rp_calls s @
       [(new_call i data)\<lparr>cl_ack := Tx_Dropped, cl_response := Tx_Dropped, cl_phase := Finished r\<rparr>]\<rparr>" by blast
  show ?thesis
    unfolding eq
    by (rule rpc_inv_append [OF assms(1), where c = "(new_call i data)\<lparr>cl_ack := Tx_Dropped, cl_response := Tx_Dropped, cl_phase := Finished r\<rparr>"])
      (use assms(2) in \<open>simp_all add: new_call_def call_ok_def ack_waits_def response_waits_def finished_def\<close>)
qed

lemma rpc_inv_new: "rpc_inv rpc_state_new"
  by (simp add: rpc_inv_def rpc_state_new_def)

lemma rpc_inv_methods:
  assumes "rpc_inv s"
  shows "rpc_inv (register_rpc_method m h s)" and "rpc_inv (unregister_rpc_method m s)"
  using assms by (simp_all add: rpc_inv_def register_rpc_method_def unregister_rpc_method_def)

interpretation rpcs: guarded_machine rpc_step rpc_fresh rpc_inv
proof
  fix s e assume "rpc_inv s" and "rpc_fresh s e"
  then show "rpc_inv (rpc_step s e)"
    by (cases e) (simp_all add: rpc_fresh_def rpc_inv_perform rpc_inv_published rpc_inv_poll rpc_inv_ack
      rpc_inv_response rpc_inv_methods del: set_map)
qed

section \<open>One call on its own\<close>

text \<open>
  The specification of a call: an automaton that sees its own answers, packets and timers
  only. It remembers whether it was acknowledged and the first response.
\<close>

datatype call_view = Ended rpc_result | Running rpc_phase bool "rpc_result option"

definition view :: "rpc_call \<Rightarrow> call_view" where
  "view c = (case cl_phase c of
     Finished r \<Rightarrow> Ended r
   | p \<Rightarrow> Running p (cl_ack c \<noteq> Open) (case cl_response c of Sent r \<Rightarrow> Some r | _ \<Rightarrow> None))"

fun view_step :: "nat \<Rightarrow> string \<Rightarrow> call_view \<Rightarrow> rpc_event \<Rightarrow> call_view" where
  "view_step k i (Running p a r) (Published j error) =
     (if j = k \<and> p = Publishing
      then (case error of None \<Rightarrow> Running Wait_Ack a r | Some e \<Rightarrow> Ended (Err (built_in SendFailed (Some e))))
      else Running p a r)"
| "view_step k i (Running p a r) (Polled expired j) =
     (if j \<noteq> k then Running p a r
      else if p = Wait_Ack
      then (if a then Running Wait_Response a r
            else if expired then Ended (Err (built_in ConnectionTimeout None)) else Running p a r)
      else if p = Wait_Response
      then (case r of
              Some q \<Rightarrow> Ended q
            | None \<Rightarrow> if expired then Ended (Err (built_in ResponseTimeout None)) else Running p a r)
      else Running p a r)"
| "view_step k i (Running p a r) (Ack_In j) = Running p (a \<or> j = i) r"
| "view_step k i (Running p a r) (Response_In j payload error) =
     Running p a (if j = i \<and> r = None then Some (rpc_response_result payload error) else r)"
| "view_step k i v _ = v"

definition sees :: "rpc_state \<Rightarrow> nat \<Rightarrow> rpc_event \<Rightarrow> rpc_state \<Rightarrow> bool" where
  "sees s k e s' \<longleftrightarrow> k < length (rp_calls s') \<and> cl_id (rp_calls s' ! k) = cl_id (rp_calls s ! k)
     \<and> view (rp_calls s' ! k) = view_step k (cl_id (rp_calls s ! k)) (view (rp_calls s ! k)) e"

lemma view_finished [simp]: "view (c\<lparr>cl_phase := Finished r\<rparr>) = Ended r"
  by (simp add: view_def)

lemma view_step_Ended [simp]: "view_step k i (Ended r) e = Ended r"
  by (cases e) simp_all

lemma view_cases:
  obtains (ended) r where "cl_phase c = Finished r" "view c = Ended r"
  | (running) "\<not> finished c"
    "view c = Running (cl_phase c) (cl_ack c \<noteq> Open) (case cl_response c of Sent r \<Rightarrow> Some r | _ \<Rightarrow> None)"
  by (cases "cl_phase c") (auto simp: view_def finished_def)

lemma sees_perform:
  assumes "rpc_inv s" and "i \<notin> set (map cl_id (rp_calls s))" and "k < length (rp_calls s)"
  shows "sees s k (Perform too_old version i data) (perform_rpc too_old version i data s)"
proof -
  have "\<exists>c. rp_calls (perform_rpc too_old version i data s) = rp_calls s @ [c]"
    using perform_rpc_accepted [OF assms(1,2)] perform_rpc_refused [of too_old version data i s]
    by (cases "accepted too_old version data") fastforce+
  with assms(3) show ?thesis by (cases "view (rp_calls s ! k)") (auto simp: sees_def nth_append)
qed

lemma forget_calls:
  assumes "rpc_inv s" and "j < length (rp_calls s)" and "k < length (rp_calls s)"
  shows "rp_calls (finish j r (forget_response (cl_id (rp_calls s ! j)) (forget_ack (cl_id (rp_calls s ! j)) s))) ! k =
    (if j = k then rp_calls (finish j r (forget_response (cl_id (rp_calls s ! j)) (forget_ack (cl_id (rp_calls s ! j)) s))) ! j
     else rp_calls s ! k)"
    and "view (rp_calls (finish j r (forget_response (cl_id (rp_calls s ! j)) (forget_ack (cl_id (rp_calls s ! j)) s))) ! j) = Ended r"
    and "cl_id (rp_calls (finish j r (forget_response (cl_id (rp_calls s ! j)) (forget_ack (cl_id (rp_calls s ! j)) s))) ! j)
      = cl_id (rp_calls s ! j)"
    and "length (rp_calls (finish j r (forget_response (cl_id (rp_calls s ! j)) (forget_ack (cl_id (rp_calls s ! j)) s)))) = length (rp_calls s)"
  using forget_own(3) [OF assms(1,2)] assms(2,3) by (auto simp: finish_def set_call_def view_def)

lemma sees_published:
  assumes "rpc_inv s" and "k < length (rp_calls s)"
  shows "sees s k (Published j error) (rpc_published j error s)"
proof (cases "j < length (rp_calls s) \<and> cl_phase (rp_calls s ! j) = Publishing")
  case True
  note fin = forget_calls [OF assms(1) conjunct1 [OF True] assms(2)]
  show ?thesis
  proof (cases error)
    case None
    with True assms show ?thesis
      by (cases rule: view_cases [of "rp_calls s ! k"])
        (auto simp: sees_def rpc_published_def Let_def set_call_def nth_list_update view_def)
  next
    case (Some e)
    with True assms fin [of "Err (built_in SendFailed (Some e))"] show ?thesis
      by (cases rule: view_cases [of "rp_calls s ! k"])
        (auto simp: sees_def rpc_published_def Let_def)
  qed
next
  case False
  then have "rpc_published j error s = s" by (auto simp: rpc_published_def Let_def)
  with False assms show ?thesis
    by (cases rule: view_cases [of "rp_calls s ! k"]) (auto simp: sees_def)
qed

lemma view_waiting [simp]:
  "view (c\<lparr>cl_phase := Wait_Response\<rparr>) =
     Running Wait_Response (cl_ack c \<noteq> Open) (case cl_response c of Sent r \<Rightarrow> Some r | _ \<Rightarrow> None)"
  "view (c\<lparr>cl_response := b, cl_phase := Finished r\<rparr>) = Ended r"
  by (simp_all add: view_def)

lemma sees_poll:
  assumes "rpc_inv s" and "k < length (rp_calls s)"
  shows "sees s k (Polled expired j) (rpc_poll expired j s)"
proof (cases "j < length (rp_calls s)")
  case True
  note fin = forget_calls [OF assms(1) True assms(2)]
  note fin1 = forget_own(2) [OF assms(1) True]
  note ok = rpc_invD(4) [OF assms(1) True]
  show ?thesis
  proof (cases "cl_phase (rp_calls s ! j)")
    case Wait_Ack
    with True assms fin [of "Err (built_in ConnectionTimeout None)"] show ?thesis
      by (cases rule: view_cases [of "rp_calls s ! k"])
        (auto simp: sees_def rpc_poll_def Let_def set_call_def nth_list_update)
  next
    case Wait_Response
    with ok have "cl_response (rp_calls s ! j) \<noteq> Tx_Dropped" by (simp add: call_ok_def finished_def)
    with Wait_Response True assms fin1 show ?thesis
      by (cases rule: view_cases [of "rp_calls s ! k"])
        (auto simp: sees_def rpc_poll_def Let_def finish_def set_call_def nth_list_update split: oneshot.split)
  qed (use True assms in \<open>cases rule: view_cases [of "rp_calls s ! k"];
      auto simp: sees_def rpc_poll_def Let_def finished_def\<close>)+
next
  case False
  with assms show ?thesis
    by (cases rule: view_cases [of "rp_calls s ! k"]) (auto simp: sees_def rpc_poll_def Let_def)
qed

lemma sees_ack:
  assumes "rpc_inv s" and "k < length (rp_calls s)"
  shows "sees s k (Ack_In i) (handle_incoming_rpc_ack i s)"
proof (cases "rp_pending_acks s i")
  case None
  with rpc_invD(2) [OF assms(1), of i k] rpc_invD(4) [OF assms] assms(2) show ?thesis
    by (cases rule: view_cases [of "rp_calls s ! k"])
      (auto simp: sees_def handle_incoming_rpc_ack_def ack_waits_def call_ok_def finished_def split: rpc_phase.splits)
next
  case (Some j)
  with rpc_invD(2) [OF assms(1), of i j] have j: "j < length (rp_calls s)" "cl_id (rp_calls s ! j) = i"
    "cl_ack (rp_calls s ! j) = Open" by (auto simp: ack_waits_def)
  with rpc_ids_unique [OF assms(1) j(1) assms(2)] Some assms(2) show ?thesis
    by (cases rule: view_cases [of "rp_calls s ! k"])
      (auto simp: sees_def handle_incoming_rpc_ack_def set_call_def oneshot_send_def nth_list_update view_def
        finished_def split: rpc_phase.splits)
qed

lemma sees_response:
  assumes "rpc_inv s" and "k < length (rp_calls s)"
  shows "sees s k (Response_In i payload error) (handle_incoming_rpc_response i payload error s)"
proof (cases "rp_pending_responses s i")
  case None
  with rpc_invD(3) [OF assms(1), of i k] rpc_invD(4) [OF assms] assms(2) show ?thesis
    by (cases rule: view_cases [of "rp_calls s ! k"])
      (auto simp: sees_def handle_incoming_rpc_response_def response_waits_def call_ok_def split: oneshot.splits)
next
  case (Some j)
  with rpc_invD(3) [OF assms(1), of i j] have j: "j < length (rp_calls s)" "cl_id (rp_calls s ! j) = i"
    "cl_response (rp_calls s ! j) = Open" by (auto simp: response_waits_def)
  with rpc_ids_unique [OF assms(1) j(1) assms(2)] Some assms(2) show ?thesis
    by (cases rule: view_cases [of "rp_calls s ! k"])
      (auto simp: sees_def handle_incoming_rpc_response_def set_call_def oneshot_send_def nth_list_update view_def
        finished_def split: rpc_phase.splits)
qed

lemma sees_step:
  assumes "rpc_inv s" and "rpc_fresh s e" and "k < length (rp_calls s)"
  shows "sees s k e (rpc_step s e)"
proof (cases e)
  case (Perform too_old version i data)
  with assms sees_perform [OF assms(1) _ assms(3)] show ?thesis by (simp add: rpc_fresh_def del: set_map)
next
  case (Registered m h)
  with assms(3) show ?thesis by (cases "view (rp_calls s ! k)") (simp_all add: sees_def register_rpc_method_def)
next
  case (Unregistered m)
  with assms(3) show ?thesis by (cases "view (rp_calls s ! k)") (simp_all add: sees_def unregister_rpc_method_def)
qed (use assms sees_published sees_poll sees_ack sees_response in simp_all)

lemma sees_run:
  assumes "rpc_inv s" and "run_ok rpc_step rpc_fresh s es" and "k < length (rp_calls s)"
  shows "k < length (rp_calls (foldl rpc_step s es))
    \<and> view (rp_calls (foldl rpc_step s es) ! k) = foldl (view_step k (cl_id (rp_calls s ! k))) (view (rp_calls s ! k)) es"
  using assms
proof (induction es arbitrary: s)
  case (Cons e es)
  then have "sees s k e (rpc_step s e)" "rpc_inv (rpc_step s e)" "run_ok rpc_step rpc_fresh (rpc_step s e) es"
    using sees_step rpcs.inv_gstep by auto
  with Cons.IH [of "rpc_step s e"] show ?case by (simp add: sees_def)
qed simp

section \<open>What a call returns\<close>

fun answers :: "string \<Rightarrow> rpc_event \<Rightarrow> rpc_result option" where
  "answers i (Response_In j payload error) = (if j = i then Some (rpc_response_result payload error) else None)"
| "answers i _ = None"

primrec first_response :: "string \<Rightarrow> rpc_event list \<Rightarrow> rpc_result option" where
  "first_response i [] = None"
| "first_response i (e # es) = (case answers i e of Some r \<Rightarrow> Some r | None \<Rightarrow> first_response i es)"

definition local_failure :: "rpc_result \<Rightarrow> bool" where
  "local_failure r \<longleftrightarrow> r = Err (built_in ConnectionTimeout None) \<or> r = Err (built_in ResponseTimeout None)
     \<or> (\<exists>d. r = Err (built_in SendFailed (Some d)))"

lemma first_response_snoc:
  "first_response i (es @ [e]) = (case first_response i es of Some r \<Rightarrow> Some r | None \<Rightarrow> answers i e)"
  by (induction es) (auto split: option.splits)

fun view_explained :: "string \<Rightarrow> rpc_event list \<Rightarrow> call_view \<Rightarrow> bool" where
  "view_explained i es (Running p a r) \<longleftrightarrow>
     r = first_response i es \<and> (a \<longleftrightarrow> Ack_In i \<in> set es) \<and> (p = Wait_Response \<longrightarrow> a)"
| "view_explained i es (Ended r) \<longleftrightarrow>
     local_failure r \<or> first_response i es = Some r \<and> Ack_In i \<in> set es"

lemma view_explained_step:
  assumes "view_explained i es v"
  shows "view_explained i (es @ [e]) (view_step k i v e)"
proof (cases v)
  case (Ended r)
  with assms show ?thesis by (auto simp: first_response_snoc)
next
  case (Running p a r)
  with assms show ?thesis
    by (cases e) (auto simp: first_response_snoc local_failure_def split: option.splits)
qed

lemma view_explained_run:
  "view_explained i es (foldl (view_step k i) (Running Publishing False None) es)"
  by (induction es rule: rev_induct) (simp_all add: view_explained_step)

lemma view_new_call [simp]: "view (new_call i data) = Running Publishing False None"
  by (simp add: view_def new_call_def)

lemma run_ok_append:
  "run_ok step ok s (es @ es') \<longleftrightarrow> run_ok step ok s es \<and> run_ok step ok (foldl step s es) es'"
  by (induction es arbitrary: s) simp_all

text \<open>A call in the middle of a run, from its start.\<close>

lemma call_in_run:
  assumes "run_ok rpc_step rpc_fresh rpc_state_new (es @ Perform too_old version i data # es')"
    and "accepted too_old version data"
  shows "let s = foldl rpc_step rpc_state_new es; k = length (rp_calls s);
      s' = foldl rpc_step s (Perform too_old version i data # es')
    in k < length (rp_calls s') \<and> view (rp_calls s' ! k) = foldl (view_step k i) (Running Publishing False None) es'"
proof -
  let ?s = "foldl rpc_step rpc_state_new es"
  have run: "run_ok rpc_step rpc_fresh rpc_state_new es" "rpc_fresh ?s (Perform too_old version i data)"
    "run_ok rpc_step rpc_fresh (rpc_step ?s (Perform too_old version i data)) es'"
    using assms(1) by (simp_all add: run_ok_append)
  have inv: "rpc_inv ?s" by (rule rpcs.grun_inv [OF rpc_inv_new run(1)])
  have eq: "rp_calls (rpc_step ?s (Perform too_old version i data)) = rp_calls ?s @ [new_call i data]"
    using perform_rpc_accepted [OF inv _ assms(2), of i] run(2) by (simp add: rpc_fresh_def)
  from sees_run [OF rpcs.inv_gstep [OF inv run(2)] run(3), of "length (rp_calls ?s)"] eq
  show ?thesis by (simp add: new_call_def [of i data, THEN arg_cong [of _ _ cl_id]])
qed

text \<open>
  C11. A remote procedure call returns what was answered to it. On every run with fresh
  identifiers, a call that returns does so with the first response that arrived under its own
  identifier after it started, and only once it was acknowledged; or it fails locally, because
  the request could not be sent or one of its two timers expired. In particular it never
  reports that the recipient has disconnected.
\<close>

theorem rpc_outcome:
  assumes "run_ok rpc_step rpc_fresh rpc_state_new (es @ Perform too_old version i data # es')"
    and "accepted too_old version data"
  shows "let s = foldl rpc_step rpc_state_new es; k = length (rp_calls s);
      s' = foldl rpc_step s (Perform too_old version i data # es')
    in cl_phase (rp_calls s' ! k) = Finished r \<longrightarrow>
      local_failure r \<or> first_response i es' = Some r \<and> Ack_In i \<in> set es'"
proof -
  let ?s = "foldl rpc_step rpc_state_new es"
  let ?k = "length (rp_calls ?s)"
  let ?s' = "foldl rpc_step ?s (Perform too_old version i data # es')"
  have v: "view (rp_calls ?s' ! ?k) = foldl (view_step ?k i) (Running Publishing False None) es'"
    using call_in_run [OF assms] by (simp add: Let_def)
  show ?thesis unfolding Let_def
  proof
    assume "cl_phase (rp_calls ?s' ! ?k) = Finished r"
    then have "view (rp_calls ?s' ! ?k) = Ended r" by (simp add: view_def)
    with v view_explained_run [of i es' ?k] show "local_failure r \<or> first_response i es' = Some r \<and> Ack_In i \<in> set es'"
      by simp
  qed
qed

section \<open>A call ends\<close>

text \<open>
  C34. A call does not wait for ever, and leaves nothing behind. In every reachable state, once
  the engine has answered the request and both timers of the call have expired, the call has
  returned, and neither map holds its identifier any more.
\<close>

theorem rpc_ends:
  assumes "run_ok rpc_step rpc_fresh rpc_state_new es"
    and "k < length (rp_calls (foldl rpc_step rpc_state_new es))"
  shows "let s = foldl rpc_step (foldl rpc_step rpc_state_new es) [Published k error, Polled True k, Polled True k]
    in finished (rp_calls s ! k) \<and> rp_pending_acks s (cl_id (rp_calls s ! k)) = None
     \<and> rp_pending_responses s (cl_id (rp_calls s ! k)) = None"
proof -
  let ?s = "foldl rpc_step rpc_state_new es" and ?es = "[Published k error, Polled True k, Polled True k]"
  let ?s' = "foldl rpc_step ?s ?es"
  have inv: "rpc_inv ?s" by (rule rpcs.grun_inv [OF rpc_inv_new assms(1)])
  have ok: "run_ok rpc_step rpc_fresh ?s ?es" by (simp add: rpc_fresh_def)
  note inv' = rpcs.grun_inv [OF inv ok]
  from sees_run [OF inv ok assms(2)] have k: "k < length (rp_calls ?s')"
    and v: "view (rp_calls ?s' ! k) = foldl (view_step k (cl_id (rp_calls ?s ! k))) (view (rp_calls ?s ! k)) ?es"
    by blast+
  have "\<exists>r. foldl (view_step k i) (view c) ?es = Ended r" for i c
    by (cases "cl_phase c"; cases error; cases "cl_response c") (auto simp: view_def)
  with v have "view (rp_calls ?s' ! k) \<noteq> Running p a r" for p a r by (metis call_view.distinct(1))
  then have fin: "finished (rp_calls ?s' ! k)" by (cases rule: view_cases [of "rp_calls ?s' ! k"]) (auto simp: finished_def)
  then have "\<not> ack_waits (rp_calls ?s' ! k)" "\<not> response_waits (rp_calls ?s' ! k)"
    by (auto simp: finished_def ack_waits_def response_waits_def)
  with fin rpc_not_waiting [OF inv' k] show ?thesis unfolding Let_def by blast
qed

section \<open>From the caller to the callee and back\<close>

text \<open>
  The way of the three packets: a packet becomes an event of the other session, which the room
  hands to the local participant (\<^verbatim>\<open>room/mod.rs\<close>); a request without a caller is ignored.
\<close>

definition received_event :: "string option \<Rightarrow> data_packet \<Rightarrow> session_event option" where
  "received_event sender p =
     Option.bind (dp_value p) (\<lambda>v. value_event Reliable None sender v Enc_None)"

fun on_rpc_request :: "(string \<rightharpoonup> rpc_handler) \<Rightarrow> session_event \<Rightarrow> (data_packet \<times> data_packet option) option" where
  "on_rpc_request handlers (Ev_RpcRequest (Some caller) request_id method payload response_timeout version) =
     Some (handle_incoming_rpc_request handlers caller request_id method payload response_timeout version)"
| "on_rpc_request handlers _ = None"

fun on_rpc_answer :: "session_event \<Rightarrow> rpc_event option" where
  "on_rpc_answer (Ev_RpcResponse request_id payload error) = Some (Response_In request_id payload error)"
| "on_rpc_answer (Ev_RpcAck request_id) = Some (Ack_In request_id)"
| "on_rpc_answer _ = None"

definition answer_arrives :: "string option \<Rightarrow> data_packet \<Rightarrow> rpc_event list" where
  "answer_arrives sender p =
     (case Option.bind (received_event sender p) on_rpc_answer of None \<Rightarrow> [] | Some e \<Rightarrow> [e])"

text \<open>What arrives of a handler's result.\<close>

fun delivered :: "rpc_result \<Rightarrow> rpc_result" where
  "delivered (Ok p) =
     (if length p \<le> MAX_PAYLOAD_BYTES then Ok p
      else Err ((built_in ResponsePayloadTooLarge None)\<lparr>er_data := Some []\<rparr>))"
| "delivered (Err e) =
     Err \<lparr>er_code = er_code e, er_message = truncate_bytes (er_message e) MAX_MESSAGE_BYTES,
       er_data = Some (truncate_bytes (unwrap_or [] (er_data e)) MAX_DATA_BYTES)\<rparr>"
| "delivered Panic = Err ((built_in ApplicationError None)\<lparr>er_data := Some []\<rparr>)"

lemma truncate_short: "byte_length s \<le> n \<Longrightarrow> truncate_bytes s n = s"
  by (simp add: truncate_bytes_def)

lemma code_message_short: "length (code_message c) \<le> MAX_MESSAGE_BYTES"
  by (cases c) (simp_all add: MAX_MESSAGE_BYTES_def)

lemma built_in_delivered:
  "rpc_error_from_proto (rpc_error_to_proto (built_in c None)) = (built_in c None)\<lparr>er_data := Some []\<rparr>"
  by (simp add: rpc_error_from_proto_def rpc_error_to_proto_def built_in_def rpc_error_new_def
    truncate_short byte_length_def code_message_short)

lemma rpc_error_msg_eta: "\<lparr>re_code = re_code e, re_message = re_message e, re_data = re_data e\<rparr> = (e :: rpc_error_msg)"
  by (cases e) simp

lemma response_arrives:
  assumes "handlers method = Some handler"
    and "handler \<lparr>ri_request_id = i, ri_caller_identity = caller, ri_payload = payload, ri_response_timeout = timeout\<rparr> = r'"
  shows "\<exists>p. snd (handle_incoming_rpc_request handlers caller i method payload timeout 1) = Some p
    \<and> (\<exists>pl er. answer_arrives sender p = [Response_In i pl er] \<and> rpc_response_result pl er = delivered r')"
proof (cases r')
  case (Ok p)
  with assms show ?thesis
    by (auto simp: handle_incoming_rpc_request_def invoke_def publish_rpc_response_def answer_arrives_def
      received_event_def rpc_response_result_def built_in_delivered rpc_error_msg_eta)
next
  case (Err e)
  with assms show ?thesis
    by (auto simp: handle_incoming_rpc_request_def invoke_def publish_rpc_response_def answer_arrives_def
      received_event_def rpc_response_result_def rpc_error_from_proto_def rpc_error_to_proto_def rpc_error_new_def)
next
  case Panic
  with assms show ?thesis
    by (auto simp: handle_incoming_rpc_request_def invoke_def publish_rpc_response_def answer_arrives_def
      received_event_def rpc_response_result_def built_in_delivered rpc_error_msg_eta)
qed

text \<open>
  C10. A call reaches its handler and the handler's result comes back. In every reachable state
  of the caller, the request of a new call makes the callee's handler run with the payload and
  the identity of the caller, and the acknowledgement and the response that it sends make the
  call return the handler's result: a payload up to the limit unchanged, an error with its code
  and its text cut at a character, a payload over the limit or a panic as the error for it.
\<close>

theorem rpc_round_trip:
  assumes "run_ok rpc_step rpc_fresh rpc_state_new (es @ [Perform too_old version i data])"
    and "accepted too_old version data" and "handlers (pr_method data) = Some handler"
  shows "\<exists>ev ack response. received_event (Some caller) (request_of i data) = Some ev
    \<and> on_rpc_request handlers ev = Some (ack, Some response)
    \<and> (let s = foldl rpc_step rpc_state_new es; k = length (rp_calls s);
          s' = foldl rpc_step s (Perform too_old version i data # Published k None
            # answer_arrives sender ack @ answer_arrives sender response @ [Polled False k, Polled False k])
       in cl_phase (rp_calls s' ! k) = Finished (delivered (handler
         \<lparr>ri_request_id = i, ri_caller_identity = caller, ri_payload = pr_payload data,
          ri_response_timeout = unat (word_of_nat (effective_timeout data div 1000000) :: u32)\<rparr>)))"
proof -
  let ?t = "unat (word_of_nat (effective_timeout data div 1000000) :: u32)"
  let ?h = "handle_incoming_rpc_request handlers caller i (pr_method data) (pr_payload data) ?t 1"
  let ?s = "foldl rpc_step rpc_state_new es"
  let ?k = "length (rp_calls ?s)"
  have ev: "received_event (Some caller) (request_of i data) =
      Some (Ev_RpcRequest (Some caller) i (pr_method data) (pr_payload data) ?t 1)"
    by (simp add: received_event_def request_of_def publish_rpc_request_def)
  from response_arrives [of handlers "pr_method data" handler i caller "pr_payload data" ?t _ sender, OF assms(3) refl] obtain p pl er where
    p: "snd ?h = Some p" "answer_arrives sender p = [Response_In i pl er]"
      "rpc_response_result pl er = delivered (handler \<lparr>ri_request_id = i, ri_caller_identity = caller,
         ri_payload = pr_payload data, ri_response_timeout = ?t\<rparr>)" by blast
  have ack: "answer_arrives sender (fst ?h) = [Ack_In i]"
    by (simp add: handle_incoming_rpc_request_def publish_rpc_ack_def answer_arrives_def received_event_def
      split: prod.split)
  let ?es = "[Published ?k None, Ack_In i, Response_In i pl er, Polled False ?k, Polled False ?k]"
  have "run_ok rpc_step rpc_fresh rpc_state_new (es @ Perform too_old version i data # ?es)"
    using assms(1) by (simp add: run_ok_append rpc_fresh_def)
  from call_in_run [OF this assms(2)] have
    "view (rp_calls (foldl rpc_step ?s (Perform too_old version i data # ?es)) ! ?k) = Ended (rpc_response_result pl er)"
    by (simp add: Let_def)
  then have "cl_phase (rp_calls (foldl rpc_step ?s (Perform too_old version i data # ?es)) ! ?k) =
      Finished (rpc_response_result pl er)"
    by (auto simp: view_def split: rpc_phase.splits)
  with ev p ack show ?thesis
    by (intro exI [of _ "Ev_RpcRequest (Some caller) i (pr_method data) (pr_payload data) ?t 1"]
      exI [of _ "fst ?h"] exI [of _ p]) (simp add: Let_def prod_eq_iff)
qed

section \<open>Examples\<close>

definition example_call :: perform_rpc_data where
  "example_call = \<lparr>pr_destination_identity = ''bob'', pr_method = ''echo'', pr_payload = ''hi'',
     pr_response_timeout = 15 * 1000000000\<rparr>"

lemma example_accepted: "accepted (\<lambda>_. None) None example_call"
  by (simp add: accepted_def example_call_def MAX_PAYLOAD_BYTES_def)

definition example_answers :: "rpc_event list" where
  "example_answers = [Published 0 None, Ack_In ''x'', Response_In ''x'' (Some ''ok'') None, Polled False 0, Polled False 0]"

lemma example_rpc_run: "run_ok rpc_step rpc_fresh rpc_state_new ([] @ Perform (\<lambda>_. None) None ''x'' example_call # example_answers)"
  by (simp add: example_answers_def rpc_fresh_def rpc_state_new_def)

theorem rpc_outcome_witness:
  "first_response ''x'' example_answers = Some (Ok ''ok'') \<and> Ack_In ''x'' \<in> set example_answers"
proof -
  have "\<not> local_failure (Ok ''ok'')" by (simp add: local_failure_def)
  moreover have "cl_phase (rp_calls (foldl rpc_step rpc_state_new
      (Perform (\<lambda>_. None) None ''x'' example_call # example_answers)) ! 0) = Finished (Ok ''ok'')"
    by (simp add: example_answers_def example_call_def rpc_state_new_def perform_rpc_def MAX_PAYLOAD_BYTES_def
      Let_def forget_ack_def forget_response_def rpc_published_def set_call_def handle_incoming_rpc_ack_def
      handle_incoming_rpc_response_def oneshot_send_def rpc_poll_def finish_def rpc_response_result_def)
  ultimately show ?thesis
    using rpc_outcome [OF example_rpc_run example_accepted, of "Ok ''ok''"] by (simp add: rpc_state_new_def Let_def)
qed

theorem rpc_ends_witness:
  "let s = foldl rpc_step (foldl rpc_step rpc_state_new [Perform (\<lambda>_. None) None ''x'' example_call])
       [Published 0 None, Polled True 0, Polled True 0]
   in finished (rp_calls s ! 0) \<and> rp_pending_acks s (cl_id (rp_calls s ! 0)) = None
     \<and> rp_pending_responses s (cl_id (rp_calls s ! 0)) = None"
  by (rule rpc_ends) (simp_all add: rpc_fresh_def rpc_state_new_def perform_rpc_def example_call_def
    MAX_PAYLOAD_BYTES_def Let_def forget_ack_def forget_response_def)

theorem rpc_round_trip_witness:
  "\<exists>ev ack response. received_event (Some ''alice'') (request_of ''x'' example_call) = Some ev
    \<and> on_rpc_request [''echo'' \<mapsto> \<lambda>inv. Ok (ri_payload inv)] ev = Some (ack, Some response)
    \<and> cl_phase (rp_calls (foldl rpc_step rpc_state_new
        (Perform (\<lambda>_. None) None ''x'' example_call # Published 0 None
          # answer_arrives (Some ''bob'') ack @ answer_arrives (Some ''bob'') response @ [Polled False 0, Polled False 0])) ! 0)
      = Finished (Ok ''hi'')"
  using rpc_round_trip [of "[]" "\<lambda>_. None" None "''x''" example_call "[''echo'' \<mapsto> \<lambda>inv. Ok (ri_payload inv)]"
      "\<lambda>inv. Ok (ri_payload inv)" "''alice''" "Some ''bob''"] example_accepted
  by (simp add: rpc_fresh_def rpc_state_new_def example_call_def MAX_PAYLOAD_BYTES_def Let_def)

end
