(* ===== verification/Engine.thy ===== *)
theory Engine
  imports Prelude
begin

text \<open>
  The engine's connection, \<^verbatim>\<open>rtc_engine/mod.rs\<close>: connecting with retries, the task that
  reconnects by resuming or restarting the session, and closing. Sessions are numbers in the
  order they are made. The points where the task waits are its program counter; what happens
  in between (events of the session, a user who closes the engine) are other inputs of the
  same state. The room answers the events that wait for it.
\<close>

section \<open>State\<close>

datatype disconnect_reason =
    Unknown_Reason | Client_Initiated | Duplicate_Identity | Server_Shutdown | Participant_Removed
  | Room_Deleted | State_Mismatch | Join_Failure | Migration | Signal_Close | Room_Closed
  | User_Unavailable | User_Rejected | Sip_Trunk_Failure | Connection_Timeout | Media_Failure
  | Agent_Error

datatype leave_action = Action_Disconnect | Action_Resume | Action_Reconnect

text \<open>The events that tell the room about the connection.\<close>

datatype engine_event =
    Engine_Resuming
  | Engine_Resumed
  | Engine_SignalResumed
  | Engine_Restarting
  | Engine_Restarted
  | Engine_SignalRestarted nat
  | Engine_Disconnected disconnect_reason

definition RECONNECT_ATTEMPTS :: nat where "RECONNECT_ATTEMPTS = 10"

record engine_handle =
  eh_session :: nat
  eh_closed :: bool
  eh_reconnecting :: bool
  eh_can_reconnect :: bool
  eh_full_reconnect :: bool
  eh_engine_task :: "nat option"

text \<open>Where the task that reconnects is; the number is that of the attempt.\<close>

datatype reconnect_pc =
    No_Task
  | Waiting_Lock
  | Loop_Top nat
  | Resume_Restart nat
  | Resume_Sync nat
  | Restart_Begin nat
  | Restart_Connect nat
  | Restart_Wait nat nat
  | Ticking nat
  | Recovered

record engine_inner =
  eg_handle :: engine_handle
  eg_emitted :: "engine_event list"
  eg_closed_sessions :: "(nat \<times> disconnect_reason) list"
  eg_next_session :: nat
  eg_reconnect :: reconnect_pc
  eg_closing :: "disconnect_reason list"

definition engine_new :: engine_inner where
  "engine_new = \<lparr>eg_handle = \<lparr>eh_session = 0, eh_closed = False, eh_reconnecting = False,
       eh_can_reconnect = True, eh_full_reconnect = False, eh_engine_task = Some 0\<rparr>,
     eg_emitted = [], eg_closed_sessions = [], eg_next_session = 1, eg_reconnect = No_Task,
     eg_closing = []\<rparr>"

definition engine_emit :: "engine_event \<Rightarrow> engine_inner \<Rightarrow> engine_inner" where
  "engine_emit ev s = s\<lparr>eg_emitted := eg_emitted s @ [ev]\<rparr>"

definition update_handle :: "(engine_handle \<Rightarrow> engine_handle) \<Rightarrow> engine_inner \<Rightarrow> engine_inner" where
  "update_handle f s = s\<lparr>eg_handle := f (eg_handle s)\<rparr>"

definition goto :: "reconnect_pc \<Rightarrow> engine_inner \<Rightarrow> engine_inner" where
  "goto pc s = s\<lparr>eg_reconnect := pc\<rparr>"

section \<open>Connecting\<close>

text \<open>The loop over the attempts, with the outcome of each; the last error is returned.\<close>

fun connect_loop :: "(nat \<Rightarrow> 'e + 'a) \<Rightarrow> nat \<Rightarrow> nat \<Rightarrow> 'e option \<Rightarrow> 'e option + 'a" where
  "connect_loop try_connect i 0 last_error = Inl last_error"
| "connect_loop try_connect i (Suc n) last_error =
     (case try_connect i of
        Inr res \<Rightarrow> Inr res
      | Inl e \<Rightarrow> connect_loop try_connect (Suc i) n (Some e))"

definition engine_connect :: "(nat \<Rightarrow> 'e + 'a) \<Rightarrow> nat \<Rightarrow> 'e option + 'a" where
  "engine_connect try_connect join_retries = connect_loop try_connect 0 (join_retries + 1) None"

section \<open>Closing\<close>

text \<open>The session is closed and the room is told only when the session's task is still there.\<close>

definition engine_close :: "disconnect_reason \<Rightarrow> engine_inner \<Rightarrow> engine_inner" where
  "engine_close reason s =
     (let session = eh_session (eg_handle s); engine_task = eh_engine_task (eg_handle s);
          s = update_handle (\<lambda>h. h\<lparr>eh_closed := True, eh_engine_task := None\<rparr>) s
      in case engine_task of
           None \<Rightarrow> s
         | Some _ \<Rightarrow>
             engine_emit (Engine_Disconnected reason)
               (s\<lparr>eg_closed_sessions := eg_closed_sessions s @ [(session, reason)]\<rparr>))"

section \<open>Reconnecting\<close>

definition reconnection_needed :: "bool \<Rightarrow> bool \<Rightarrow> engine_inner \<Rightarrow> engine_inner" where
  "reconnection_needed retry_now full_reconnect s =
     (if \<not> eh_can_reconnect (eg_handle s) then s
      else if eh_reconnecting (eg_handle s)
      then (if full_reconnect then update_handle (\<lambda>h. h\<lparr>eh_full_reconnect := True\<rparr>) s else s)
      else goto Waiting_Lock
        (update_handle (\<lambda>h. h\<lparr>eh_reconnecting := True, eh_full_reconnect := full_reconnect\<rparr>) s))"

text \<open>A close of the session. A disconnection closes the engine in a task of its own.\<close>

definition on_session_close :: "disconnect_reason \<Rightarrow> leave_action \<Rightarrow> bool \<Rightarrow> engine_inner \<Rightarrow> engine_inner" where
  "on_session_close reason action retry_now s =
     (case action of
        Action_Disconnect \<Rightarrow>
          (update_handle (\<lambda>h. h\<lparr>eh_can_reconnect := False\<rparr>) s)\<lparr>eg_closing := eg_closing s @ [reason]\<rparr>
      | _ \<Rightarrow>
          if \<not> eh_can_reconnect (eg_handle s) then s
          else reconnection_needed retry_now (action = Action_Reconnect) s)"

definition run_closing :: "engine_inner \<Rightarrow> engine_inner" where
  "run_closing s =
     (case eg_closing s of [] \<Rightarrow> s | r # rs \<Rightarrow> engine_close r (s\<lparr>eg_closing := rs\<rparr>))"

text \<open>The end of the task.\<close>

definition task_ends :: "engine_inner \<Rightarrow> engine_inner" where
  "task_ends s = goto No_Task (update_handle (\<lambda>h. h\<lparr>eh_reconnecting := False\<rparr>) s)"

definition reconnect_failed :: "engine_inner \<Rightarrow> engine_inner" where
  "reconnect_failed s = task_ends (engine_close Unknown_Reason s)"

text \<open>The top of the loop: give up, or begin the attempt \<open>i\<close>.\<close>

definition loop_top :: "nat \<Rightarrow> engine_inner \<Rightarrow> engine_inner" where
  "loop_top i s =
     (if i \<ge> RECONNECT_ATTEMPTS \<or> eh_closed (eg_handle s) then reconnect_failed s
      else if eh_full_reconnect (eg_handle s)
      then goto (Restart_Begin i) (if i = 0 then engine_emit Engine_Restarting s else s)
      else goto (Resume_Restart i) (if i = 0 then engine_emit Engine_Resuming s else s))"

text \<open>\<^verbatim>\<open>try_resume_connection\<close>: restart the signal, let the room synchronize, restart the publisher.\<close>

definition resume_failed :: "nat \<Rightarrow> engine_inner \<Rightarrow> engine_inner" where
  "resume_failed i s = goto (Ticking i) (update_handle (\<lambda>h. h\<lparr>eh_full_reconnect := True\<rparr>) s)"

definition resume_restart :: "bool \<Rightarrow> nat \<Rightarrow> engine_inner \<Rightarrow> engine_inner" where
  "resume_restart ok i s =
     (if ok then goto (Resume_Sync i) (engine_emit Engine_SignalResumed s) else resume_failed i s)"

definition resume_sync :: "bool \<Rightarrow> nat \<Rightarrow> engine_inner \<Rightarrow> engine_inner" where
  "resume_sync ok i s =
     (if ok then goto Recovered (engine_emit Engine_Resumed s) else resume_failed i s)"

text \<open>\<^verbatim>\<open>try_restart_connection\<close>: the old session is closed first; the new one replaces it at the end.\<close>

definition restart_begin :: "nat \<Rightarrow> engine_inner \<Rightarrow> engine_inner" where
  "restart_begin i s =
     (let session = eh_session (eg_handle s); engine_task = eh_engine_task (eg_handle s);
          s = update_handle (\<lambda>h. h\<lparr>eh_engine_task := None\<rparr>) s;
          s = (case engine_task of
                 None \<Rightarrow> s
               | Some _ \<Rightarrow> s\<lparr>eg_closed_sessions := eg_closed_sessions s @ [(session, Client_Initiated)]\<rparr>)
      in goto (Restart_Connect i) s)"

definition restart_connect :: "bool \<Rightarrow> nat \<Rightarrow> engine_inner \<Rightarrow> engine_inner" where
  "restart_connect ok i s =
     (if ok
      then let n = eg_next_session s
           in goto (Restart_Wait i n) (engine_emit (Engine_SignalRestarted n) (s\<lparr>eg_next_session := n + 1\<rparr>))
      else goto (Ticking i) s)"

definition restart_wait :: "bool \<Rightarrow> nat \<Rightarrow> nat \<Rightarrow> engine_inner \<Rightarrow> engine_inner" where
  "restart_wait ok i n s =
     (if ok
      then goto Recovered (engine_emit Engine_Restarted
        (update_handle (\<lambda>h. h\<lparr>eh_session := n, eh_engine_task := Some n\<rparr>) s))
      else goto (Ticking i) s)"

text \<open>A turn of the task, with the outcome of what it waits for where that can fail.\<close>

definition reconnect_step :: "bool \<Rightarrow> engine_inner \<Rightarrow> engine_inner" where
  "reconnect_step ok s =
     (case eg_reconnect s of
        No_Task \<Rightarrow> s
      | Waiting_Lock \<Rightarrow> goto (Loop_Top 0) s
      | Loop_Top i \<Rightarrow> loop_top i s
      | Resume_Restart i \<Rightarrow> resume_restart ok i s
      | Resume_Sync i \<Rightarrow> resume_sync ok i s
      | Restart_Begin i \<Rightarrow> restart_begin i s
      | Restart_Connect i \<Rightarrow> restart_connect ok i s
      | Restart_Wait i n \<Rightarrow> restart_wait ok i n s
      | Ticking i \<Rightarrow> goto (Loop_Top (Suc i)) s
      | Recovered \<Rightarrow> task_ends s)"

text \<open>
  \<^verbatim>\<open>wait_reconnection\<close>: \<open>None\<close> while the task holds the lock; then the session, or an error when
  the engine is closed.
\<close>

definition wait_reconnection :: "engine_inner \<Rightarrow> (unit + nat) option" where
  "wait_reconnection s =
     (if eg_reconnect s \<noteq> No_Task \<and> eg_reconnect s \<noteq> Waiting_Lock then None
      else if eh_closed (eg_handle s) then Some (Inl ())
      else Some (Inr (eh_session (eg_handle s))))"

section \<open>Runs\<close>

datatype engine_input =
    Session_Close disconnect_reason leave_action bool
  | Run_Closing
  | User_Close disconnect_reason
  | Reconnect_Turn bool

primrec engine_step :: "engine_inner \<Rightarrow> engine_input \<Rightarrow> engine_inner" where
  "engine_step s (Session_Close reason action retry_now) = on_session_close reason action retry_now s"
| "engine_step s Run_Closing = run_closing s"
| "engine_step s (User_Close reason) = engine_close reason s"
| "engine_step s (Reconnect_Turn ok) = reconnect_step ok s"

section \<open>Invariant\<close>

text \<open>Where the task has taken the session's task away, and where it has passed the check for it twice.\<close>

fun task_gone :: "reconnect_pc \<Rightarrow> bool" where
  "task_gone (Loop_Top i) \<longleftrightarrow> 2 \<le> i"
| "task_gone (Restart_Begin i) \<longleftrightarrow> 2 \<le> i"
| "task_gone (Restart_Connect i) \<longleftrightarrow> True"
| "task_gone (Restart_Wait i n) \<longleftrightarrow> True"
| "task_gone (Ticking i) \<longleftrightarrow> 1 \<le> i"
| "task_gone _ \<longleftrightarrow> False"

fun late :: "reconnect_pc \<Rightarrow> bool" where
  "late (Loop_Top i) \<longleftrightarrow> 3 \<le> i"
| "late (Restart_Begin i) \<longleftrightarrow> 2 \<le> i"
| "late (Restart_Connect i) \<longleftrightarrow> 2 \<le> i"
| "late (Restart_Wait i n) \<longleftrightarrow> 2 \<le> i"
| "late (Ticking i) \<longleftrightarrow> 2 \<le> i"
| "late _ \<longleftrightarrow> False"

text \<open>Where only a restart can follow, and where the task is in its first attempt.\<close>

fun restarting :: "reconnect_pc \<Rightarrow> bool" where
  "restarting (Loop_Top i) \<longleftrightarrow> 1 \<le> i"
| "restarting (Restart_Begin i) \<longleftrightarrow> True"
| "restarting (Restart_Connect i) \<longleftrightarrow> True"
| "restarting (Restart_Wait i n) \<longleftrightarrow> True"
| "restarting (Ticking i) \<longleftrightarrow> True"
| "restarting _ \<longleftrightarrow> False"

fun attempt :: "reconnect_pc \<Rightarrow> nat" where
  "attempt (Resume_Restart i) = i"
| "attempt (Resume_Sync i) = i"
| "attempt (Restart_Begin i) = i"
| "attempt (Restart_Connect i) = i"
| "attempt (Restart_Wait i n) = i"
| "attempt (Ticking i) = i"
| "attempt _ = 0"

definition never_disconnected :: "engine_inner \<Rightarrow> bool" where
  "never_disconnected s \<longleftrightarrow> (\<forall>r. Engine_Disconnected r \<notin> set (eg_emitted s))"

definition engine_inv :: "engine_inner \<Rightarrow> bool" where
  "engine_inv s \<longleftrightarrow>
     (eh_reconnecting (eg_handle s) \<longleftrightarrow> eg_reconnect s \<noteq> No_Task)
     \<and> (restarting (eg_reconnect s) \<longrightarrow> eh_full_reconnect (eg_handle s))
     \<and> (case eg_reconnect s of Resume_Restart i \<Rightarrow> i = 0 | Resume_Sync i \<Rightarrow> i = 0 | _ \<Rightarrow> True)
     \<and> attempt (eg_reconnect s) < RECONNECT_ATTEMPTS
     \<and> (task_gone (eg_reconnect s) \<longrightarrow> eh_engine_task (eg_handle s) = None)
     \<and> (late (eg_reconnect s) \<longrightarrow> never_disconnected s)
     \<and> (\<not> never_disconnected s \<longrightarrow> eh_closed (eg_handle s))"

lemmas engine_defs = engine_emit_def update_handle_def goto_def engine_close_def reconnection_needed_def
  on_session_close_def run_closing_def task_ends_def reconnect_failed_def loop_top_def resume_failed_def
  resume_restart_def resume_sync_def restart_begin_def restart_connect_def restart_wait_def never_disconnected_def

lemma engine_inv_new: "engine_inv engine_new"
  by (simp add: engine_inv_def engine_new_def never_disconnected_def RECONNECT_ATTEMPTS_def)

lemma engine_inv_close: "engine_inv s \<Longrightarrow> engine_inv (engine_close r s)"
  by (cases "eg_reconnect s"; cases "eh_engine_task (eg_handle s)")
    (auto simp: engine_inv_def engine_defs Let_def)

lemma engine_inv_session_close: "engine_inv s \<Longrightarrow> engine_inv (on_session_close r a retry_now s)"
  by (cases a; cases "eg_reconnect s")
    (auto simp: engine_inv_def engine_defs RECONNECT_ATTEMPTS_def)

lemma engine_inv_run_closing: "engine_inv s \<Longrightarrow> engine_inv (run_closing s)"
proof (cases "eg_closing s")
  case (Cons r rs)
  assume "engine_inv s"
  then have "engine_inv (s\<lparr>eg_closing := rs\<rparr>)" by (simp add: engine_inv_def never_disconnected_def)
  with Cons show ?thesis by (simp add: run_closing_def engine_inv_close)
qed (simp add: run_closing_def)

lemma engine_inv_failed:
  "engine_inv s \<Longrightarrow> engine_inv (reconnect_failed s)"
  by (cases "eh_engine_task (eg_handle s)")
    (auto simp: engine_inv_def engine_defs Let_def RECONNECT_ATTEMPTS_def)

lemma engine_inv_turn:
  assumes "engine_inv s"
  shows "engine_inv (reconnect_step ok s)"
proof (cases "eg_reconnect s")
  case (Loop_Top i)
  show ?thesis
  proof (cases "i \<ge> RECONNECT_ATTEMPTS \<or> eh_closed (eg_handle s)")
    case True
    with Loop_Top engine_inv_failed [OF assms] show ?thesis by (simp add: reconnect_step_def loop_top_def)
  next
    case False
    with assms Loop_Top show ?thesis
      by (cases i) (auto simp: engine_inv_def reconnect_step_def engine_defs)
  qed
qed (use assms in \<open>auto simp: engine_inv_def reconnect_step_def engine_defs Let_def RECONNECT_ATTEMPTS_def
  split: option.split\<close>)

interpretation eng: event_machine engine_step engine_new engine_inv
proof
  fix s e assume "engine_inv s"
  then show "engine_inv (engine_step s e)"
    by (cases e) (simp_all add: engine_inv_close engine_inv_session_close engine_inv_run_closing engine_inv_turn)
qed (rule engine_inv_new)

section \<open>A reconnection ends\<close>

fun turns_left :: "reconnect_pc \<Rightarrow> nat" where
  "turns_left No_Task = 0"
| "turns_left Waiting_Lock = 5 * RECONNECT_ATTEMPTS + 2"
| "turns_left (Loop_Top i) = 5 * (RECONNECT_ATTEMPTS - i) + 1"
| "turns_left (Resume_Restart i) = 5 * (RECONNECT_ATTEMPTS - i)"
| "turns_left (Resume_Sync i) = 5 * (RECONNECT_ATTEMPTS - i) - 1"
| "turns_left (Restart_Begin i) = 5 * (RECONNECT_ATTEMPTS - i)"
| "turns_left (Restart_Connect i) = 5 * (RECONNECT_ATTEMPTS - i) - 1"
| "turns_left (Restart_Wait i n) = 5 * (RECONNECT_ATTEMPTS - i) - 2"
| "turns_left (Ticking i) = 5 * (RECONNECT_ATTEMPTS - i) - 3"
| "turns_left Recovered = 1"

definition is_turn :: "engine_input \<Rightarrow> bool" where
  "is_turn e = (case e of Reconnect_Turn _ \<Rightarrow> True | _ \<Rightarrow> False)"

lemma turn_decreases:
  assumes "engine_inv s" and "eg_reconnect s \<noteq> No_Task"
  shows "turns_left (eg_reconnect (reconnect_step ok s)) < turns_left (eg_reconnect s)"
  using assms
  by (cases "eg_reconnect s")
    (auto simp: engine_inv_def reconnect_step_def engine_defs Let_def RECONNECT_ATTEMPTS_def split: option.split)

lemma other_keeps_pc:
  assumes "engine_inv s" and "\<not> is_turn e" and "eg_reconnect s \<noteq> No_Task"
  shows "eg_reconnect (engine_step s e) = eg_reconnect s"
  using assms
  by (cases e) (auto simp: is_turn_def engine_inv_def engine_defs Let_def split: option.split leave_action.split list.split)

text \<open>
  C31. A reconnection ends. From every reachable state in which the task is reconnecting, after
  52 of its turns it has ended, whatever the outcomes of its attempts are, and whatever the
  session, the user and other requests to reconnect do in between.
\<close>

theorem reconnect_ends:
  assumes "5 * RECONNECT_ATTEMPTS + 2 \<le> length (filter is_turn es)"
  shows "\<exists>es1 es2. es = es1 @ es2
    \<and> eg_reconnect (foldl engine_step (foldl engine_step engine_new es0) es1) = No_Task"
proof -
  have "\<exists>es1 es2. es = es1 @ es2 \<and> eg_reconnect (foldl engine_step s es1) = No_Task"
    if "engine_inv s" "turns_left (eg_reconnect s) \<le> length (filter is_turn es)" for s
    using that
  proof (induction es arbitrary: s)
    case Nil
    then show ?case by (cases "eg_reconnect s") (auto simp: engine_inv_def RECONNECT_ATTEMPTS_def)
  next
    case (Cons e es)
    show ?case
    proof (cases "eg_reconnect s = No_Task")
      case True
      then show ?thesis by (intro exI [of _ "[]"] exI [of _ "e # es"]) simp
    next
      case False
      have "turns_left (eg_reconnect (engine_step s e)) \<le> length (filter is_turn es)"
      proof (cases "is_turn e")
        case True
        then obtain ok where "e = Reconnect_Turn ok" by (auto simp: is_turn_def split: engine_input.splits)
        with turn_decreases [OF Cons.prems(1) False, of ok] Cons.prems(2) True show ?thesis by simp
      next
        case False
        with other_keeps_pc [OF Cons.prems(1) False \<open>eg_reconnect s \<noteq> No_Task\<close>] Cons.prems(2) show ?thesis by simp
      qed
      from Cons.IH [OF eng.inv_step [OF Cons.prems(1)] this] obtain es1 es2 where
        "es = es1 @ es2" "eg_reconnect (foldl engine_step (engine_step s e) es1) = No_Task" by blast
      then show ?thesis by (intro exI [of _ "e # es1"] exI [of _ es2]) simp
    qed
  qed
  moreover have "turns_left pc \<le> 5 * RECONNECT_ATTEMPTS + 2" for pc
    by (cases pc) (simp_all add: RECONNECT_ATTEMPTS_def)
  ultimately show ?thesis using eng.reach_inv [of es0] assms order_trans by blast
qed

section \<open>Where a reconnection falls short\<close>

text \<open>An engine that has given up stays silent.\<close>

definition given_up :: "engine_inner \<Rightarrow> bool" where
  "given_up s \<longleftrightarrow> eh_closed (eg_handle s) \<and> eh_engine_task (eg_handle s) = None
     \<and> (case eg_reconnect s of No_Task \<Rightarrow> True | Waiting_Lock \<Rightarrow> True | Loop_Top _ \<Rightarrow> True | _ \<Rightarrow> False)"

lemma given_up_step:
  assumes "given_up s"
  shows "given_up (engine_step s e) \<and> eg_emitted (engine_step s e) = eg_emitted s"
proof (cases e)
  case (Reconnect_Turn ok)
  with assms show ?thesis
    by (cases "eg_reconnect s") (auto simp: given_up_def reconnect_step_def engine_defs Let_def)
next
  case (Session_Close r a b)
  with assms show ?thesis
    by (cases a) (auto simp: given_up_def engine_defs)
qed (use assms in \<open>auto simp: given_up_def engine_defs Let_def split: list.split\<close>)

lemma given_up_run:
  "given_up s \<Longrightarrow> given_up (foldl engine_step s es) \<and> eg_emitted (foldl engine_step s es) = eg_emitted s"
  by (induction es arbitrary: s) (use given_up_step in auto)

text \<open>
  C39. A reconnection that fails for good is never reported. When the task gives up after its
  last attempt it closes the engine, but the event that tells the room so is emitted only while
  the session has a task, and the attempts to restart have taken it: the room is not told that it
  is disconnected, then or at any later time.
\<close>

theorem failed_reconnect_silent:
  assumes "eg_reconnect (foldl engine_step engine_new es) = Loop_Top RECONNECT_ATTEMPTS"
  shows "let s = foldl engine_step (foldl engine_step engine_new es) (Reconnect_Turn ok # es')
    in eh_closed (eg_handle s) \<and> (\<forall>r. Engine_Disconnected r \<notin> set (eg_emitted s))"
proof -
  let ?s = "foldl engine_step engine_new es"
  have "engine_inv ?s" by (rule eng.reach_inv)
  with assms have s: "eh_engine_task (eg_handle ?s) = None" "never_disconnected ?s"
    by (auto simp: engine_inv_def RECONNECT_ATTEMPTS_def)
  with assms have "given_up (reconnect_step ok ?s)" "eg_emitted (reconnect_step ok ?s) = eg_emitted ?s"
    by (simp_all add: given_up_def reconnect_step_def engine_defs)
  with given_up_run [of "reconnect_step ok ?s" es'] s(2) show ?thesis
    by (simp add: Let_def given_up_def never_disconnected_def)
qed

text \<open>
  An engine that is closed while it restarts comes back. If the user closes the engine
  while a new session connects, the session that then succeeds is installed with its task and
  reported as restarted; it is never closed, and the room is not told of the disconnection.
\<close>

lemma closed_engine_restarts:
  assumes "eg_reconnect (foldl engine_step engine_new es) = Restart_Wait i n"
  shows "let s = foldl engine_step engine_new es;
      s' = foldl engine_step s [User_Close r, Reconnect_Turn True, Reconnect_Turn True]
    in eh_closed (eg_handle s') \<and> eh_session (eg_handle s') = n \<and> eh_engine_task (eg_handle s') = Some n
     \<and> eg_emitted s' = eg_emitted s @ [Engine_Restarted] \<and> eg_closed_sessions s' = eg_closed_sessions s"
proof -
  have "engine_inv (foldl engine_step engine_new es)" by (rule eng.reach_inv)
  with assms show ?thesis
    by (simp add: engine_inv_def Let_def reconnect_step_def engine_defs)
qed

lemma resume_then_restart:
  assumes "eg_reconnect s = Loop_Top 0" and "\<not> eh_closed (eg_handle s)" and "\<not> eh_full_reconnect (eg_handle s)"
  shows "eg_emitted (foldl engine_step s (map Reconnect_Turn [True, False, True, True, True, True, True, True])) =
      eg_emitted s @ [Engine_Resuming, Engine_SignalRestarted (eg_next_session s), Engine_Restarted]
    \<and> eg_reconnect (foldl engine_step s (map Reconnect_Turn [True, False, True, True, True, True, True, True])) = No_Task
    \<and> eh_session (eg_handle (foldl engine_step s (map Reconnect_Turn [True, False, True, True, True, True, True, True])))
      = eg_next_session s"
proof (cases s)
  case (fields h emitted closed next_session pc closing)
  show ?thesis
    by (cases h; cases "eh_engine_task h")
      (use assms fields in \<open>simp_all add: reconnect_step_def engine_defs RECONNECT_ATTEMPTS_def\<close>)
qed

text \<open>
  A restart after a failed resume is not announced. When the first attempt, a resume,
  fails and the next one, a restart, succeeds, the room sees the events of the resume, then the
  new session and that it has restarted, but not the event on which it removes the
  participants of the old session.
\<close>

lemma restart_unannounced:
  assumes "eg_reconnect (foldl engine_step engine_new es) = Loop_Top 0"
    and "\<not> eh_closed (eg_handle (foldl engine_step engine_new es))"
    and "\<not> eh_full_reconnect (eg_handle (foldl engine_step engine_new es))"
  shows "let s = foldl engine_step engine_new es;
      s' = foldl engine_step s (map Reconnect_Turn [True, False, True, True, True, True, True, True])
    in eg_emitted s' = eg_emitted s @ [Engine_Resuming, Engine_SignalRestarted (eg_next_session s), Engine_Restarted]
     \<and> eg_reconnect s' = No_Task \<and> eh_session (eg_handle s') = eg_next_session s"
  unfolding Let_def by (rule resume_then_restart [OF assms])

section \<open>Retries of the first connection\<close>

lemma connect_loop_outcome:
  "case connect_loop f i n e of
     Inr res \<Rightarrow> \<exists>j < n. f (i + j) = Inr res \<and> (\<forall>m < j. \<exists>err. f (i + m) = Inl err)
   | Inl err \<Rightarrow> (\<forall>m < n. \<exists>x. f (i + m) = Inl x) \<and> (if n = 0 then err = e else Some (projl (f (i + n - 1))) = err)"
proof (induction n arbitrary: i e)
  case (Suc n)
  show ?case
  proof (cases "f i")
    case (Inr res)
    then show ?thesis by (auto intro!: exI [of _ 0])
  next
    case (Inl err)
    show ?thesis
    proof (cases "connect_loop f (Suc i) n (Some err)")
      case l: (Inl e')
      with Suc [of "Suc i" "Some err"] Inl show ?thesis
        by (auto simp: less_Suc_eq_0_disj split: if_splits)
    next
      case r: (Inr res)
      with Suc [of "Suc i" "Some err"] obtain j where "j < n" "f (Suc i + j) = Inr res" "\<forall>m < j. \<exists>err. f (Suc i + m) = Inl err"
        by auto
      with r Inl show ?thesis by (simp, intro exI [of _ "Suc j"]) (auto simp: less_Suc_eq_0_disj)
    qed
  qed
qed simp

lemma engine_connect_outcome:
  "case engine_connect f n of
     Inr res \<Rightarrow> \<exists>j \<le> n. f j = Inr res \<and> (\<forall>m < j. \<exists>err. f m = Inl err)
   | Inl err \<Rightarrow> (\<forall>m \<le> n. \<exists>x. f m = Inl x) \<and> err = Some (projl (f n))"
  using connect_loop_outcome [where f = f and i = 0 and n = "n + 1" and e = None]
  by (auto simp: engine_connect_def less_Suc_eq_le split: sum.splits)

section \<open>Examples\<close>

definition example_reconnect :: "engine_input list" where
  "example_reconnect = [Session_Close Signal_Close Action_Resume False, Reconnect_Turn True]"

lemma example_reconnect_state:
  "eg_reconnect (foldl engine_step engine_new example_reconnect) = Loop_Top 0"
  "\<not> eh_closed (eg_handle (foldl engine_step engine_new example_reconnect))"
  "\<not> eh_full_reconnect (eg_handle (foldl engine_step engine_new example_reconnect))"
  "eg_emitted (foldl engine_step engine_new example_reconnect) = []"
  "eg_next_session (foldl engine_step engine_new example_reconnect) = 1"
  by (simp_all add: example_reconnect_def engine_new_def engine_defs reconnect_step_def)

lemma restart_unannounced_witness:
  "eg_emitted (foldl engine_step (foldl engine_step engine_new example_reconnect)
      (map Reconnect_Turn [True, False, True, True, True, True, True, True]))
   = [Engine_Resuming, Engine_SignalRestarted 1, Engine_Restarted]"
  using restart_unannounced [OF example_reconnect_state(1-3)] by (simp add: Let_def example_reconnect_state)

theorem reconnect_ends_witness:
  "\<exists>es1 es2. replicate 52 (Reconnect_Turn False) = es1 @ es2
     \<and> eg_reconnect (foldl engine_step (foldl engine_step engine_new example_reconnect) es1) = No_Task"
  by (rule reconnect_ends) (simp add: RECONNECT_ATTEMPTS_def is_turn_def)

lemma closed_engine_restarts_witness:
  "let s' = foldl engine_step engine_new ([Session_Close Signal_Close Action_Reconnect False]
        @ map Reconnect_Turn [True, True, True, True] @ [User_Close Client_Initiated, Reconnect_Turn True, Reconnect_Turn True])
   in eh_closed (eg_handle s') \<and> eh_engine_task (eg_handle s') = Some 1"
proof -
  have "eg_reconnect (foldl engine_step engine_new ([Session_Close Signal_Close Action_Reconnect False]
        @ map Reconnect_Turn [True, True, True, True])) = Restart_Wait 0 1"
    by (simp add: engine_new_def engine_defs reconnect_step_def RECONNECT_ATTEMPTS_def)
  from closed_engine_restarts [OF this, of Client_Initiated] show ?thesis by (simp add: Let_def)
qed

text \<open>A run in which every attempt fails.\<close>

definition all_fail :: "engine_input list" where
  "all_fail = Session_Close Signal_Close Action_Reconnect False # replicate 41 (Reconnect_Turn False)"

lemma all_fail_state: "eg_reconnect (foldl engine_step engine_new all_fail) = Loop_Top RECONNECT_ATTEMPTS"
  by (simp add: all_fail_def numeral_eq_Suc engine_new_def engine_defs reconnect_step_def RECONNECT_ATTEMPTS_def)

theorem failed_reconnect_silent_witness:
  "let s = foldl engine_step engine_new (all_fail @ [Reconnect_Turn False, User_Close Client_Initiated])
   in eh_closed (eg_handle s) \<and> (\<forall>r. Engine_Disconnected r \<notin> set (eg_emitted s))"
  using failed_reconnect_silent [OF all_fail_state, of False "[User_Close Client_Initiated]"] by (simp add: Let_def)

end
