(* ===== verification/E2ee_Manager.thy ===== *)
theory E2ee_Manager
  imports Pipelines Session_Data
begin

text \<open>
  The manager of end-to-end encryption, \<^verbatim>\<open>room/e2ee/manager.rs\<close>, with the key provider
  (\<^verbatim>\<open>key_provider.rs\<close>) and the providers that it gives to data tracks (\<^verbatim>\<open>e2ee/data_track.rs\<close>).
  The ciphers themselves belong to the media library: a frame cryptor is what the manager sets
  of it, and the data cryptor is a pair of arguments.
\<close>

section \<open>The key provider\<close>

text \<open>Its handle in the media library is a number; \<^verbatim>\<open>latest_key_index\<close> is the part kept here.\<close>

record key_provider =
  kp_handle :: nat
  kp_latest_key_index :: "32 word"

definition key_provider_new :: "nat \<Rightarrow> key_provider" where
  "key_provider_new h = \<lparr>kp_handle = h, kp_latest_key_index = 0\<rparr>"

text \<open>
  \<^verbatim>\<open>set_key\<close> (and \<^verbatim>\<open>set_shared_key\<close>): the index is stored before the library is asked, and
  whatever it answers.
\<close>

definition set_key :: "(nat \<Rightarrow> 32 word \<Rightarrow> bytes \<Rightarrow> bool) \<Rightarrow> 32 word \<Rightarrow> bytes \<Rightarrow> key_provider \<Rightarrow> bool \<times> key_provider" where
  "set_key library k key kp =
     (library (kp_handle kp) k key, kp\<lparr>kp_latest_key_index := k\<rparr>)"

section \<open>The manager\<close>

record e2ee_options =
  eo_encryption_type :: e2ee_type
  eo_key_provider :: key_provider

text \<open>The participant and the sender or receiver that a frame cryptor was made for.\<close>

record frame_cryptor =
  fc_participant :: string
  fc_endpoint :: nat
  fc_key_handle :: nat
  fc_enabled :: bool

record e2ee_manager =
  em_options :: "e2ee_options option"
  em_enabled :: bool
  em_dc_encryption_enabled :: bool
  em_frame_cryptors :: "((string \<times> string) \<times> frame_cryptor) list"
  em_data_packet_cryptor :: "nat option"

definition e2ee_new :: "e2ee_options option \<Rightarrow> bool \<Rightarrow> e2ee_manager" where
  "e2ee_new options with_dc_encryption =
     \<lparr>em_options = options, em_enabled = (options \<noteq> None),
      em_dc_encryption_enabled = (options \<noteq> None \<and> with_dc_encryption),
      em_frame_cryptors = [],
      em_data_packet_cryptor = map_option (\<lambda>opts. kp_handle (eo_key_provider opts)) options\<rparr>"

definition initialized :: "e2ee_manager \<Rightarrow> bool" where
  "initialized m = (em_options m \<noteq> None)"

definition e2ee_enabled :: "e2ee_manager \<Rightarrow> bool" where
  "e2ee_enabled m = (em_enabled m \<and> em_options m \<noteq> None)"

definition e2ee_key_provider :: "e2ee_manager \<Rightarrow> key_provider option" where
  "e2ee_key_provider m = map_option eo_key_provider (em_options m)"

definition manager_encryption_type :: "e2ee_manager \<Rightarrow> e2ee_type" where
  "manager_encryption_type m = (case em_options m of None \<Rightarrow> E2ee_None | Some opts \<Rightarrow> eo_encryption_type opts)"

definition set_enabled :: "bool \<Rightarrow> e2ee_manager \<Rightarrow> e2ee_manager" where
  "set_enabled b m =
     (if em_enabled m = b then m
      else m\<lparr>em_enabled := b,
             em_frame_cryptors := map (\<lambda>(k, c). (k, c\<lparr>fc_enabled := b\<rparr>)) (em_frame_cryptors m)\<rparr>)"

text \<open>
  \<^verbatim>\<open>setup_rtp_sender\<close>, \<^verbatim>\<open>setup_rtp_receiver\<close>: the same but for the library's constructor;
  \<open>None\<close> is the panic of the unwrapped options.
\<close>

definition setup_rtp :: "string \<Rightarrow> nat \<Rightarrow> e2ee_manager \<Rightarrow> frame_cryptor option" where
  "setup_rtp identity endpoint m =
     map_option (\<lambda>opts. \<lparr>fc_participant = identity, fc_endpoint = endpoint,
       fc_key_handle = kp_handle (eo_key_provider opts), fc_enabled = em_enabled m\<rparr>) (em_options m)"

definition insert_cryptor :: "string \<Rightarrow> string \<Rightarrow> frame_cryptor \<Rightarrow> e2ee_manager \<Rightarrow> e2ee_manager" where
  "insert_cryptor identity sid c m =
     m\<lparr>em_frame_cryptors := AList.update (identity, sid) c (em_frame_cryptors m)\<rparr>"

text \<open>
  \<^verbatim>\<open>on_track_subscribed\<close> and \<^verbatim>\<open>on_local_track_published\<close> make a cryptor and enter it, and release the
  lock in between: \<open>begin_track\<close> and \<open>insert_cryptor\<close> are the two halves, which the runs below
  interleave with everything else. \<open>on_track_subscribed\<close> is the call when nothing comes between.
\<close>

definition begin_track :: "string \<Rightarrow> nat \<Rightarrow> e2ee_type \<Rightarrow> e2ee_manager \<Rightarrow> frame_cryptor option" where
  "begin_track identity endpoint t m =
     (if \<not> initialized m \<or> t = E2ee_None then None else setup_rtp identity endpoint m)"

definition on_track_subscribed :: "string \<Rightarrow> string \<Rightarrow> nat \<Rightarrow> e2ee_type \<Rightarrow> e2ee_manager \<Rightarrow> e2ee_manager" where
  "on_track_subscribed identity sid endpoint t m =
     (case begin_track identity endpoint t m of
        None \<Rightarrow> m
      | Some c \<Rightarrow> insert_cryptor identity sid c m)"

definition on_track_unsubscribed :: "string \<Rightarrow> string \<Rightarrow> e2ee_manager \<Rightarrow> e2ee_manager" where
  "on_track_unsubscribed identity sid m =
     m\<lparr>em_frame_cryptors := AList.delete (identity, sid) (em_frame_cryptors m)\<rparr>"

text \<open>\<^verbatim>\<open>cleanup\<close>: the cryptors are disabled (for whoever still holds one) and forgotten.\<close>

definition cleanup_cryptors :: "e2ee_manager \<Rightarrow> frame_cryptor list" where
  "cleanup_cryptors m = map (\<lambda>(k, c). c\<lparr>fc_enabled := False\<rparr>) (em_frame_cryptors m)"

definition cleanup :: "e2ee_manager \<Rightarrow> e2ee_manager" where
  "cleanup m = m\<lparr>em_frame_cryptors := []\<rparr>"

section \<open>Data packets\<close>

text \<open>
  The data cryptor of the library: \<open>dc_encrypt handle identity key_index data\<close> and the reverse.
\<close>

record data_cryptor =
  dc_encrypt :: "nat \<Rightarrow> string \<Rightarrow> u32 \<Rightarrow> bytes \<Rightarrow> cipher_packet option"
  dc_decrypt :: "nat \<Rightarrow> string \<Rightarrow> cipher_packet \<Rightarrow> bytes option"

definition encrypt_data :: "data_cryptor \<Rightarrow> bytes \<Rightarrow> string \<Rightarrow> u32 \<Rightarrow> e2ee_manager \<Rightarrow> cipher_packet option" where
  "encrypt_data dc data identity k m =
     (case em_data_packet_cryptor m of
        None \<Rightarrow> None
      | Some h \<Rightarrow> dc_encrypt dc h identity k data)"

definition decrypt_data :: "data_cryptor \<Rightarrow> bytes \<Rightarrow> bytes \<Rightarrow> u32 \<Rightarrow> string \<Rightarrow> e2ee_manager \<Rightarrow> bytes option" where
  "decrypt_data dc data vector k identity m =
     (case em_data_packet_cryptor m of
        None \<Rightarrow> None
      | Some h \<Rightarrow> dc_decrypt dc h identity \<lparr>ci_data = data, ci_iv = vector, ci_key_index = k\<rparr>)"

definition latest_key_index :: "e2ee_manager \<Rightarrow> u32" where
  "latest_key_index m = (case e2ee_key_provider m of None \<Rightarrow> 0 | Some kp \<Rightarrow> kp_latest_key_index kp)"

text \<open>What the session's data path uses of the manager.\<close>

definition e2ee_data_of :: "data_cryptor \<Rightarrow> e2ee_manager \<Rightarrow> e2ee_data" where
  "e2ee_data_of dc m =
     \<lparr>ed_dc_encryption_enabled = em_dc_encryption_enabled m, ed_latest_key_index = latest_key_index m,
      ed_encryption_type = manager_encryption_type m,
      ed_encrypt = (\<lambda>identity k data. encrypt_data dc data identity k m),
      ed_decrypt = (\<lambda>identity c. decrypt_data dc (ci_data c) (ci_iv c) (ci_key_index c) identity m)\<rparr>"

section \<open>Providers of data tracks\<close>

text \<open>
  \<^verbatim>\<open>DataTrackEncryptionProvider::encrypt\<close>: the initialisation vector must have 12 bytes and the
  index of the key must fit into a byte; the debug assertion that the library used the index
  asked for has no effect in a release.
\<close>

definition data_track_encrypt :: "data_cryptor \<Rightarrow> e2ee_manager \<Rightarrow> string \<Rightarrow> encryption_provider" where
  "data_track_encrypt dc m sender_identity payload =
     (case encrypt_data dc payload sender_identity (latest_key_index m) m of
        None \<Rightarrow> Inl EncryptionError
      | Some c \<Rightarrow>
          if length (ci_iv c) \<noteq> 12 then Inl EncryptionError
          else if unat (ci_key_index c) \<ge> 256 then Inl EncryptionError
          else Inr \<lparr>ep_payload = ci_data c, encrypted_payload.ep_iv = ci_iv c, encrypted_payload.ep_key_index = ucast (ci_key_index c)\<rparr>)"

definition data_track_decrypt :: "data_cryptor \<Rightarrow> e2ee_manager \<Rightarrow> decryption_provider" where
  "data_track_decrypt dc m e sender_identity =
     (case decrypt_data dc (ep_payload e) (encrypted_payload.ep_iv e) (ucast (encrypted_payload.ep_key_index e)) sender_identity m of
        None \<Rightarrow> Inl DecryptionError
      | Some data \<Rightarrow> Inr data)"

text \<open>The room makes the providers when encryption is on at the time it is made.\<close>

definition encryption_provider_of :: "data_cryptor \<Rightarrow> e2ee_manager \<Rightarrow> string \<Rightarrow> encryption_provider option" where
  "encryption_provider_of dc m identity =
     (if e2ee_enabled m then Some (data_track_encrypt dc m identity) else None)"

definition decryption_provider_of :: "data_cryptor \<Rightarrow> e2ee_manager \<Rightarrow> decryption_provider option" where
  "decryption_provider_of dc m = (if e2ee_enabled m then Some (data_track_decrypt dc m) else None)"

section \<open>The frame cryptors follow the manager\<close>

text \<open>A run: the manager, and the cryptors that were made and are not yet entered.\<close>

record e2ee_run =
  er_manager :: e2ee_manager
  er_begun :: "((string \<times> string) \<times> frame_cryptor) list"

definition e2ee_start :: "e2ee_options option \<Rightarrow> bool \<Rightarrow> e2ee_run" where
  "e2ee_start options dc = \<lparr>er_manager = e2ee_new options dc, er_begun = []\<rparr>"

datatype e2ee_event =
    Track_Begins string string nat e2ee_type
  | Track_Enters nat
  | Track_Ends string string
  | Encryption_Set bool
  | Room_Closed_Down

definition remove_nth :: "nat \<Rightarrow> 'a list \<Rightarrow> 'a list" where
  "remove_nth i xs = take i xs @ drop (Suc i) xs"

definition on_manager :: "(e2ee_manager \<Rightarrow> e2ee_manager) \<Rightarrow> e2ee_run \<Rightarrow> e2ee_run" where
  "on_manager f r = r\<lparr>er_manager := f (er_manager r)\<rparr>"

fun e2ee_step :: "e2ee_run \<Rightarrow> e2ee_event \<Rightarrow> e2ee_run" where
  "e2ee_step r (Track_Begins identity sid endpoint t) =
     (case begin_track identity endpoint t (er_manager r) of
        None \<Rightarrow> r
      | Some c \<Rightarrow> r\<lparr>er_begun := er_begun r @ [((identity, sid), c)]\<rparr>)"
| "e2ee_step r (Track_Enters i) =
     (if i < length (er_begun r)
      then let ((identity, sid), c) = er_begun r ! i
        in (on_manager (insert_cryptor identity sid c) r)\<lparr>er_begun := remove_nth i (er_begun r)\<rparr>
      else r)"
| "e2ee_step r (Track_Ends identity sid) = on_manager (on_track_unsubscribed identity sid) r"
| "e2ee_step r (Encryption_Set b) = on_manager (set_enabled b) r"
| "e2ee_step r Room_Closed_Down = on_manager cleanup r"

text \<open>
  The reference, read off the history of events alone: which tracks have begun and not entered,
  for which endpoint the cryptor under a key was made, and whether encryption is on.
\<close>

fun live_endpoint :: "string \<times> string \<Rightarrow> e2ee_event list
    \<Rightarrow> ((string \<times> string) \<times> nat) list \<Rightarrow> nat option \<Rightarrow> nat option" where
  "live_endpoint k [] begun ep = ep"
| "live_endpoint k (Track_Begins identity sid endpoint t # es) begun ep =
     live_endpoint k es (if t = E2ee_None then begun else begun @ [((identity, sid), endpoint)]) ep"
| "live_endpoint k (Track_Enters i # es) begun ep =
     (if i < length begun
      then live_endpoint k es (remove_nth i begun) (if fst (begun ! i) = k then Some (snd (begun ! i)) else ep)
      else live_endpoint k es begun ep)"
| "live_endpoint k (Track_Ends identity sid # es) begun ep =
     live_endpoint k es begun (if k = (identity, sid) then None else ep)"
| "live_endpoint k (Encryption_Set b # es) begun ep = live_endpoint k es begun ep"
| "live_endpoint k (Room_Closed_Down # es) begun ep = live_endpoint k es begun None"

fun switched :: "e2ee_event list \<Rightarrow> bool \<Rightarrow> bool" where
  "switched [] b = b"
| "switched (Encryption_Set b # es) b' = switched es b"
| "switched (_ # es) b' = switched es b'"

text \<open>Encryption is not switched while a cryptor is made and not entered.\<close>

fun no_switch_between :: "e2ee_run \<Rightarrow> e2ee_event \<Rightarrow> bool" where
  "no_switch_between r (Encryption_Set b) = (er_begun r = [])"
| "no_switch_between r e = True"

text \<open>What a manager with options makes for each key.\<close>

definition cryptor_for :: "e2ee_options \<Rightarrow> bool \<Rightarrow> string \<times> string \<Rightarrow> nat \<Rightarrow> frame_cryptor" where
  "cryptor_for opts b k endpoint =
     \<lparr>fc_participant = fst k, fc_endpoint = endpoint, fc_key_handle = kp_handle (eo_key_provider opts),
      fc_enabled = b\<rparr>"

text \<open>A cryptor is that of an endpoint, whatever its switch; and it is switched as the manager is.\<close>

definition made_for :: "e2ee_options \<Rightarrow> string \<times> string \<Rightarrow> frame_cryptor \<Rightarrow> nat \<Rightarrow> bool" where
  "made_for opts k c endpoint \<longleftrightarrow> c = cryptor_for opts (fc_enabled c) k endpoint"

definition run_matches :: "e2ee_options \<Rightarrow> e2ee_run \<Rightarrow> ((string \<times> string) \<times> nat) list
    \<Rightarrow> (string \<times> string) \<Rightarrow> nat option \<Rightarrow> bool" where
  "run_matches opts r begun k ep \<longleftrightarrow> em_options (er_manager r) = Some opts
     \<and> list_all2 (\<lambda>(k, c) (k', n). k = k' \<and> made_for opts k c n) (er_begun r) begun
     \<and> rel_option (made_for opts k) (map_of (em_frame_cryptors (er_manager r)) k) ep"

definition follows_switch :: "e2ee_run \<Rightarrow> bool" where
  "follows_switch r \<longleftrightarrow>
     (\<forall>k c. map_of (em_frame_cryptors (er_manager r)) k = Some c \<or> (k, c) \<in> set (er_begun r)
        \<longrightarrow> fc_enabled c = em_enabled (er_manager r))"

lemma map_of_set_enabled:
  "map_of (map (\<lambda>(k, c). (k, c\<lparr>fc_enabled := b\<rparr>)) xs) k = map_option (\<lambda>c. c\<lparr>fc_enabled := b\<rparr>) (map_of xs k)"
  by (induction xs) auto

lemma made_for_switched: "made_for opts k c n \<Longrightarrow> c\<lparr>fc_enabled := b\<rparr> = cryptor_for opts b k n"
  by (cases c) (simp add: made_for_def cryptor_for_def)

lemma made_for_update: "made_for opts k c n \<Longrightarrow> made_for opts k (c\<lparr>fc_enabled := b\<rparr>) n"
  by (cases c) (simp add: made_for_def cryptor_for_def)

lemma set_remove_nth: "set (remove_nth i xs) \<subseteq> set xs"
  by (auto simp: remove_nth_def dest: in_set_takeD in_set_dropD)

lemma list_all2_remove_nth: "list_all2 P xs ys \<Longrightarrow> list_all2 P (remove_nth i xs) (remove_nth i ys)"
  by (simp add: remove_nth_def list_all2_appendI)

lemma begin_track_made:
  assumes "em_options m = Some opts" and "begin_track identity endpoint t m = Some c"
  shows "made_for opts (identity, sid) c endpoint" and "fc_enabled c = em_enabled m"
  using assms by (auto simp: begin_track_def setup_rtp_def made_for_def cryptor_for_def split: if_splits)

lemma begin_track_None:
  "em_options m = Some opts \<Longrightarrow> begin_track identity endpoint t m = None \<longleftrightarrow> t = E2ee_None"
  by (simp add: begin_track_def initialized_def setup_rtp_def)

lemma run_matches_step:
  assumes "run_matches opts r begun k ep"
  shows "\<exists>begun' ep'. run_matches opts (e2ee_step r e) begun' k ep'
    \<and> (\<forall>es. live_endpoint k (e # es) begun ep = live_endpoint k es begun' ep')"
proof (cases e)
  case (Track_Begins identity sid endpoint t)
  show ?thesis
  proof (cases "begin_track identity endpoint t (er_manager r)")
    case None
    with assms have "t = E2ee_None"
      using begin_track_None [of "er_manager r" opts identity endpoint t] by (simp add: run_matches_def)
    with None assms Track_Begins show ?thesis
      by (intro exI [of _ begun] exI [of _ ep]) (simp add: run_matches_def)
  next
    case (Some c)
    have o: "em_options (er_manager r) = Some opts" using assms by (simp add: run_matches_def)
    have "t \<noteq> E2ee_None" "made_for opts (identity, sid) c endpoint"
      using Some begin_track_None [OF o, of identity endpoint t] begin_track_made(1) [OF o Some] by auto
    with Some assms Track_Begins show ?thesis
      by (intro exI [of _ "begun @ [((identity, sid), endpoint)]"] exI [of _ ep])
        (auto simp: run_matches_def intro!: list_all2_appendI)
  qed
next
  case (Track_Enters i)
  show ?thesis
  proof (cases "i < length begun")
    case True
    obtain identity sid c where c: "er_begun r ! i = ((identity, sid), c)" by (metis prod.exhaust)
    have len: "length (er_begun r) = length begun"
      using assms by (auto simp: run_matches_def dest: list_all2_lengthD)
    have "list_all2 (\<lambda>(k, c) (k', n). k = k' \<and> made_for opts k c n) (er_begun r) begun"
      using assms by (simp add: run_matches_def)
    from list_all2_nthD2 [OF this True] c
    have m: "fst (begun ! i) = (identity, sid)" "made_for opts (identity, sid) c (snd (begun ! i))"
      by (auto split: prod.splits)
    show ?thesis
      using assms True Track_Enters c m len
      by (intro exI [of _ "remove_nth i begun"] exI [of _ "if fst (begun ! i) = k then Some (snd (begun ! i)) else ep"])
        (auto simp: run_matches_def on_manager_def insert_cryptor_def update_conv' list_all2_remove_nth)
  next
    case False
    then have "\<not> i < length (er_begun r)" using assms by (auto simp: run_matches_def dest: list_all2_lengthD)
    with False assms Track_Enters show ?thesis by (intro exI [of _ begun] exI [of _ ep]) simp
  qed
next
  case (Track_Ends identity sid)
  with assms show ?thesis
    by (intro exI [of _ begun] exI [of _ "if k = (identity, sid) then None else ep"])
      (auto simp: run_matches_def on_manager_def on_track_unsubscribed_def delete_conv')
next
  case (Encryption_Set b)
  with assms show ?thesis
    by (intro exI [of _ begun] exI [of _ ep])
      (auto simp: run_matches_def on_manager_def set_enabled_def map_of_set_enabled option.rel_map
        intro: option.rel_mono_strong made_for_update)
next
  case Room_Closed_Down
  with assms show ?thesis
    by (intro exI [of _ begun] exI [of _ None]) (simp add: run_matches_def on_manager_def cleanup_def)
qed

lemma run_matches_run:
  assumes "run_matches opts r begun k ep"
  shows "\<exists>begun'. run_matches opts (foldl e2ee_step r es) begun' k (live_endpoint k es begun ep)"
  using assms
proof (induction es arbitrary: r begun ep)
  case (Cons e es)
  from run_matches_step [OF Cons.prems, of e] obtain begun' ep' where
    "run_matches opts (e2ee_step r e) begun' k ep'" "live_endpoint k (e # es) begun ep = live_endpoint k es begun' ep'"
    by blast
  with Cons.IH [of "e2ee_step r e" begun' ep'] show ?case by simp
qed auto

text \<open>The switch, in a run that does not switch in between.\<close>

lemma follows_switch_step:
  assumes "follows_switch r" and "no_switch_between r e" and "em_options (er_manager r) = Some opts"
  shows "follows_switch (e2ee_step r e)"
proof (cases e)
  case (Track_Begins identity sid endpoint t)
  with assms begin_track_made(2) [OF assms(3)] show ?thesis
    by (auto simp: follows_switch_def split: option.split)
next
  case (Track_Enters i)
  show ?thesis
  proof (cases "i < length (er_begun r)")
    case True
    obtain identity sid c where c: "er_begun r ! i = ((identity, sid), c)" by (metis prod.exhaust)
    then have "((identity, sid), c) \<in> set (er_begun r)" using True nth_mem by metis
    with assms(1) Track_Enters c True set_remove_nth [of i "er_begun r"] show ?thesis
      by (auto simp: follows_switch_def on_manager_def insert_cryptor_def update_conv' split: if_splits)
  qed (use assms Track_Enters in simp)
next
  case (Track_Ends identity sid)
  with assms(1) show ?thesis
    by (auto simp: follows_switch_def on_manager_def on_track_unsubscribed_def delete_conv' split: if_splits)
next
  case (Encryption_Set b)
  with assms(1,2) show ?thesis
    by (auto simp: follows_switch_def on_manager_def set_enabled_def map_of_set_enabled)
next
  case Room_Closed_Down
  with assms(1) show ?thesis by (auto simp: follows_switch_def on_manager_def cleanup_def)
qed

lemma em_options_step [simp]: "em_options (er_manager (e2ee_step r e)) = em_options (er_manager r)"
  by (cases e) (auto simp: on_manager_def insert_cryptor_def on_track_unsubscribed_def set_enabled_def cleanup_def
    split: option.split prod.split)

lemma em_enabled_run: "em_enabled (er_manager (foldl e2ee_step r es)) = switched es (em_enabled (er_manager r))"
proof (induction es arbitrary: r)
  case (Cons e es)
  then show ?case
    by (cases e) (auto simp: on_manager_def insert_cryptor_def on_track_unsubscribed_def set_enabled_def cleanup_def
      split: option.split prod.split)
qed simp

interpretation e2ee_runs: guarded_machine e2ee_step no_switch_between
    "\<lambda>r. follows_switch r \<and> em_options (er_manager r) = Some opts" for opts
  by unfold_locales (simp add: follows_switch_step)

text \<open>
  C19. The frame cryptors are those of the subscribed and published tracks. After any run, with
  calls interleaved between making a cryptor and entering it, the manager holds under a participant
  and a track exactly a cryptor with the keys of the options for the endpoint of the track that
  was last entered there, and none when it has ended since; and when encryption is never switched between
  the two halves of a call, every cryptor is switched on or off as encryption last was.
\<close>

theorem cryptors_follow_manager:
  "let r = foldl e2ee_step (e2ee_start (Some opts) dc) es;
       cryptor = map_of (em_frame_cryptors (er_manager r)) k
   in map_option (\<lambda>c. c\<lparr>fc_enabled := b\<rparr>) cryptor = map_option (cryptor_for opts b k) (live_endpoint k es [] None)
    \<and> (run_ok e2ee_step no_switch_between (e2ee_start (Some opts) dc) es
        \<longrightarrow> cryptor = map_option (cryptor_for opts (switched es True) k) (live_endpoint k es [] None))"
proof -
  let ?r = "foldl e2ee_step (e2ee_start (Some opts) dc) es"
  let ?c = "map_of (em_frame_cryptors (er_manager ?r)) k"
  have "run_matches opts (e2ee_start (Some opts) dc) [] k None"
    by (simp add: run_matches_def e2ee_start_def e2ee_new_def)
  from run_matches_run [OF this, of es] have rel: "rel_option (made_for opts k) ?c (live_endpoint k es [] None)"
    by (auto simp: run_matches_def)
  have on: "em_enabled (er_manager ?r) = switched es True"
    by (simp add: em_enabled_run e2ee_start_def e2ee_new_def)
  have "?c = map_option (cryptor_for opts (switched es True) k) (live_endpoint k es [] None)"
    if "run_ok e2ee_step no_switch_between (e2ee_start (Some opts) dc) es"
  proof -
    have "follows_switch ?r"
      using e2ee_runs.grun_inv [OF _ that, of opts] by (simp add: follows_switch_def e2ee_start_def e2ee_new_def)
    then have "fc_enabled c = switched es True" if "?c = Some c" for c
      using that on unfolding follows_switch_def by metis
    with rel show ?thesis
      by (cases ?c; cases "live_endpoint k es [] None") (simp_all, metis made_for_def)
  qed
  moreover have "map_option (\<lambda>c. c\<lparr>fc_enabled := b\<rparr>) ?c = map_option (cryptor_for opts b k) (live_endpoint k es [] None)"
    using rel by (cases ?c; cases "live_endpoint k es [] None") (simp_all add: made_for_switched)
  ultimately show ?thesis by (simp add: Let_def)
qed

text \<open>Without options there is never a cryptor.\<close>

lemma no_options_no_cryptors:
  "em_frame_cryptors (er_manager (foldl e2ee_step (e2ee_start None dc) es)) = []
   \<and> er_begun (foldl e2ee_step (e2ee_start None dc) es) = []
   \<and> em_options (er_manager (foldl e2ee_step (e2ee_start None dc) es)) = None"
proof (induction es rule: rev_induct)
  case (snoc e es)
  then show ?case
    by (cases e) (auto simp: on_manager_def begin_track_def initialized_def
      on_track_unsubscribed_def set_enabled_def cleanup_def)
qed (simp add: e2ee_start_def e2ee_new_def)

text \<open>
  C24. A switch of encryption can be missed. When encryption is switched while a track begins, after
  its cryptor was made and before it is entered, the manager's other cryptors follow the switch
  and this one stays as it was: a track is sent in clear, or encrypted, against the setting.
\<close>

theorem switch_missed:
  assumes "begin_track identity endpoint t m = Some c" and "em_enabled m \<noteq> b"
  shows "let m' = insert_cryptor identity sid c (set_enabled b m)
    in em_enabled m' = b \<and> map_option fc_enabled (map_of (em_frame_cryptors m') (identity, sid)) = Some (\<not> b)"
  using assms
  by (auto simp: begin_track_def setup_rtp_def set_enabled_def insert_cryptor_def update_conv' split: if_splits)

section \<open>Data cryptors\<close>

text \<open>
  What is relied on of the library's data cryptor: what one side encrypts with a key, the other
  decrypts with the same key and identity; the vector has 12 bytes and the index is the one
  asked for.
\<close>

definition cryptor_inverts :: "data_cryptor \<Rightarrow> nat \<Rightarrow> nat \<Rightarrow> bool" where
  "cryptor_inverts dc h h' \<longleftrightarrow>
     (\<forall>identity k data c. dc_encrypt dc h identity k data = Some c \<longrightarrow>
        dc_decrypt dc h' identity c = Some data \<and> length (ci_iv c) = 12 \<and> ci_key_index c = k)"

text \<open>
  C20. The providers of data tracks meet the interface the pipelines rely on. When the sender's and
  the receiver's managers hold keys that match, what the provider of the one encrypts the
  provider of the other decrypts, whatever index the sender's latest key has.
\<close>

theorem data_track_providers_pair:
  assumes "em_data_packet_cryptor m = Some h" and "em_data_packet_cryptor m' = Some h'"
    and "cryptor_inverts dc h h'"
  shows "e2ee_pair (data_track_encrypt dc m identity) (data_track_decrypt dc m') identity"
proof
  fix payload e
  assume enc: "data_track_encrypt dc m identity payload = Inr e"
  then obtain c where c: "dc_encrypt dc h identity (latest_key_index m) payload = Some c"
      "unat (ci_key_index c) < 256" "e = \<lparr>ep_payload = ci_data c, encrypted_payload.ep_iv = ci_iv c, encrypted_payload.ep_key_index = ucast (ci_key_index c)\<rparr>"
    using assms(1) by (auto simp: data_track_encrypt_def encrypt_data_def not_le split: option.splits if_splits)
  have "ucast (ucast (ci_key_index c) :: 8 word) = ci_key_index c"
    using c(2) by (simp add: word_unat_eq_iff unsigned_ucast_eq unsigned_take_bit_eq take_bit_nat_eq_self)
  then show "data_track_decrypt dc m' e identity = Inr payload"
    using c assms(2,3) by (cases c) (auto simp: data_track_decrypt_def decrypt_data_def cryptor_inverts_def)
  show "length (encrypted_payload.ep_iv e) = 12" using c(1,3) assms(3) by (auto simp: cryptor_inverts_def)
qed

text \<open>A key with an index over a byte cannot be used for data tracks.\<close>

lemma large_key_index_refused:
  assumes "cryptor_inverts dc h h'" and "em_data_packet_cryptor m = Some h"
    and "256 \<le> unat (latest_key_index m)"
  shows "data_track_encrypt dc m identity payload = Inl EncryptionError"
  using assms
  by (auto simp: data_track_encrypt_def encrypt_data_def cryptor_inverts_def split: option.split)

definition example_cryptor :: data_cryptor where
  "example_cryptor =
     \<lparr>dc_encrypt = (\<lambda>h identity k data. Some \<lparr>ci_data = 99 # data, ci_iv = replicate 12 0, ci_key_index = k\<rparr>),
      dc_decrypt = (\<lambda>h identity c. Some (tl (ci_data c)))\<rparr>"

definition example_options :: e2ee_options where
  "example_options = \<lparr>eo_encryption_type = E2ee_Gcm, eo_key_provider = key_provider_new 4\<rparr>"

text \<open>Two tracks begin at the same time, encryption is switched off, and one of the tracks ends.\<close>

theorem cryptors_follow_manager_witness:
  "let es = [Track_Begins ''bob'' ''TR_1'' 7 E2ee_Gcm, Track_Begins ''bob'' ''TR_2'' 8 E2ee_Gcm,
         Track_Enters 1, Track_Enters 0, Encryption_Set False, Track_Ends ''bob'' ''TR_1''];
       start = e2ee_start (Some example_options) True;
       cryptors = map_of (em_frame_cryptors (er_manager (foldl e2ee_step start es)))
   in run_ok e2ee_step no_switch_between start es \<and> cryptors (''bob'', ''TR_1'') = None
    \<and> cryptors (''bob'', ''TR_2'') = Some \<lparr>fc_participant = ''bob'', fc_endpoint = 8, fc_key_handle = 4, fc_enabled = False\<rparr>"
proof -
  let ?es = "[Track_Begins ''bob'' ''TR_1'' 7 E2ee_Gcm, Track_Begins ''bob'' ''TR_2'' 8 E2ee_Gcm,
         Track_Enters 1, Track_Enters 0, Encryption_Set False, Track_Ends ''bob'' ''TR_1'']"
  have "run_ok e2ee_step no_switch_between (e2ee_start (Some example_options) True) ?es"
    by (simp add: e2ee_start_def e2ee_new_def begin_track_def initialized_def setup_rtp_def example_options_def
      on_manager_def remove_nth_def)
  with cryptors_follow_manager [where es = ?es and opts = example_options and dc = True and k = "(''bob'', ''TR_1'')"]
    cryptors_follow_manager [where es = ?es and opts = example_options and dc = True and k = "(''bob'', ''TR_2'')"]
  show ?thesis
    by (simp add: Let_def remove_nth_def cryptor_for_def example_options_def key_provider_new_def)
qed

theorem data_track_providers_pair_witness:
  "e2ee_pair (data_track_encrypt example_cryptor (e2ee_new (Some example_options) True) ''bob'')
     (data_track_decrypt example_cryptor (e2ee_new (Some example_options) False)) ''bob''"
  by (rule data_track_providers_pair [where h = 4 and h' = 4])
    (simp_all add: e2ee_new_def example_options_def key_provider_new_def cryptor_inverts_def example_cryptor_def)

theorem switch_missed_witness:
  "let m = e2ee_new (Some example_options) True;
       c = \<lparr>fc_participant = ''bob'', fc_endpoint = 7, fc_key_handle = 4, fc_enabled = True\<rparr>;
       m' = insert_cryptor ''bob'' ''TR_1'' c (set_enabled False m)
   in begin_track ''bob'' 7 E2ee_Gcm m = Some c \<and> \<not> em_enabled m'
    \<and> map_option fc_enabled (map_of (em_frame_cryptors m') (''bob'', ''TR_1'')) = Some True"
proof -
  let ?m = "e2ee_new (Some example_options) True"
  let ?c = "\<lparr>fc_participant = ''bob'', fc_endpoint = 7, fc_key_handle = 4, fc_enabled = True\<rparr>"
  have c: "begin_track ''bob'' 7 E2ee_Gcm ?m = Some ?c"
    by (simp add: begin_track_def initialized_def setup_rtp_def e2ee_new_def example_options_def key_provider_new_def)
  have "em_enabled ?m \<noteq> False" by (simp add: e2ee_new_def)
  from switch_missed [OF c this, of "''TR_1''"] c show ?thesis by (simp add: Let_def)
qed

end
