(* ===== verification/Participants.thy ===== *)
theory Participants
  imports Room_Streams Session_Data Engine
begin

text \<open>
  Remote participants and their publications: \<^verbatim>\<open>room/participant/mod.rs\<close>,
  \<^verbatim>\<open>room/participant/remote_participant.rs\<close>, \<^verbatim>\<open>room/publication/mod.rs\<close>,
  \<^verbatim>\<open>room/publication/remote.rs\<close> and \<^verbatim>\<open>room/track\<close>. The objects are values; an operation gives the
  new value and the calls of the handlers that the room has installed, in order. \<open>None\<close> is a
  panic (of an \<^verbatim>\<open>unwrap\<close> or \<^verbatim>\<open>unreachable!\<close>); what the objects hold after it is not modelled.
\<close>

section \<open>Messages and enumerations\<close>

text \<open>
  Enumerations arrive as numbers; the generated getter reads an unknown number as the first
  constructor.
\<close>

datatype track_type = Type_Audio | Type_Video | Type_Data
datatype track_kind = Kind_Audio | Kind_Video
datatype track_source =
  Source_Unknown | Source_Camera | Source_Microphone | Source_Screenshare | Source_ScreenshareAudio
datatype participant_state = P_Joining | P_Joined | P_Active | P_Disconnected
datatype participant_kind =
  Standard | Ingress | Egress | Sip | Agent | Connector | Bridge
datatype connection_quality = Excellent | Good | Poor | Lost

fun track_type_of :: "int \<Rightarrow> track_type" where
  "track_type_of n = (if n = 1 then Type_Video else if n = 2 then Type_Data else Type_Audio)"

primrec track_kind_try_from :: "track_type \<Rightarrow> track_kind option" where
  "track_kind_try_from Type_Audio = Some Kind_Audio"
| "track_kind_try_from Type_Video = Some Kind_Video"
| "track_kind_try_from Type_Data = None"

primrec track_type_from :: "track_kind \<Rightarrow> track_type" where
  "track_type_from Kind_Audio = Type_Audio"
| "track_type_from Kind_Video = Type_Video"

fun track_source_of :: "int \<Rightarrow> track_source" where
  "track_source_of n = (if n = 1 then Source_Camera else if n = 2 then Source_Microphone
     else if n = 3 then Source_Screenshare else if n = 4 then Source_ScreenshareAudio else Source_Unknown)"

fun encryption_kind_of :: "int \<Rightarrow> e2ee_type" where
  "encryption_kind_of n = (if n = 1 then E2ee_Gcm else if n = 2 then E2ee_Custom else E2ee_None)"

fun participant_state_of :: "int \<Rightarrow> participant_state" where
  "participant_state_of n = (if n = 1 then P_Joined else if n = 2 then P_Active
     else if n = 3 then P_Disconnected else P_Joining)"

definition DISCONNECTED_STATE :: int where "DISCONNECTED_STATE = 3"

fun participant_kind_of :: "int \<Rightarrow> participant_kind" where
  "participant_kind_of n = (if n = 1 then Ingress else if n = 2 then Egress else if n = 3 then Sip
     else if n = 4 then Agent else if n = 7 then Connector else if n = 8 then Bridge else Standard)"

fun connection_quality_of :: "int \<Rightarrow> connection_quality" where
  "connection_quality_of n = (if n = 1 then Good else if n = 2 then Excellent
     else if n = 3 then Lost else Poor)"

text \<open>\<^verbatim>\<open>proto::TrackInfo\<close>, the fields that are read, and \<^verbatim>\<open>proto::ParticipantPermission\<close>.\<close>

record media_info =
  mi_sid :: string
  mi_type :: int
  mi_name :: string
  mi_muted :: bool
  mi_width :: u32
  mi_height :: u32
  mi_simulcast :: bool
  mi_source :: int
  mi_mime_type :: string
  mi_encryption :: int
  mi_audio_features :: "int list"

record permission =
  pm_can_subscribe :: bool
  pm_can_publish :: bool
  pm_can_publish_data :: bool
  pm_can_publish_sources :: "int list"
  pm_hidden :: bool
  pm_recorder :: bool
  pm_can_update_metadata :: bool
  pm_agent :: bool
  pm_can_subscribe_metrics :: bool
  pm_can_manage_agent_session :: bool

text \<open>\<^verbatim>\<open>proto::ParticipantInfo\<close>; a hash map in a message is the list of its entries.\<close>

record participant_msg =
  pi_sid :: string
  pi_identity :: string
  pi_state :: int
  pi_tracks :: "media_info list"
  pi_metadata :: string
  pi_joined_at_ms :: int
  pi_name :: string
  pi_permission :: "permission option"
  pi_kind :: int
  pi_attributes :: "(string \<times> string) list"
  pi_disconnect_reason :: disconnect_reason
  pi_kind_details :: "int list"

definition TRACK_PREFIX :: string where "TRACK_PREFIX = ''TR_''"

definition track_sid_try_from :: "string \<Rightarrow> string option" where
  "track_sid_try_from s = (if starts_with s TRACK_PREFIX then Some s else None)"

text \<open>The valid ones of a list of numbers (the getter of a repeated enumeration drops the others).\<close>

definition audio_features_of :: "int list \<Rightarrow> int list" where
  "audio_features_of ns = filter (\<lambda>n. 0 \<le> n \<and> n \<le> 6) ns"

definition convert_kind_details :: "int list \<Rightarrow> int list" where
  "convert_kind_details ns = filter (\<lambda>n. 0 \<le> n \<and> n \<le> 4) ns"

section \<open>Remote tracks\<close>

text \<open>
  \<^verbatim>\<open>TrackInner\<close> of a remote track: \<open>tk_endpoint\<close> stands for the media library's track and
  transceiver; whether that track is enabled is \<open>tk_enabled\<close>.
\<close>

record remote_media =
  tk_sid :: string
  tk_name :: string
  tk_kind :: track_kind
  tk_source :: track_source
  tk_muted :: bool
  tk_enabled :: bool
  tk_endpoint :: nat

definition remote_media_new :: "string \<Rightarrow> string \<Rightarrow> track_kind \<Rightarrow> nat \<Rightarrow> bool \<Rightarrow> remote_media" where
  "remote_media_new sid name kind endpoint enabled =
     \<lparr>tk_sid = sid, tk_name = name, tk_kind = kind, tk_source = Source_Unknown, tk_muted = False,
      tk_enabled = enabled, tk_endpoint = endpoint\<rparr>"

text \<open>\<^verbatim>\<open>set_muted\<close>; the handlers of a remote track are never called with an effect.\<close>

definition track_set_muted :: "bool \<Rightarrow> remote_media \<Rightarrow> remote_media" where
  "track_set_muted muted t =
     (if tk_muted t = muted then t else t\<lparr>tk_enabled := \<not> muted, tk_muted := muted\<rparr>)"

definition track_update_info :: "media_info \<Rightarrow> remote_media \<Rightarrow> remote_media option" where
  "track_update_info info t =
     (case (track_kind_try_from (track_type_of (mi_type info)), track_sid_try_from (mi_sid info)) of
        (Some kind, Some sid) \<Rightarrow>
          Some (track_set_muted (mi_muted info)
            (t\<lparr>tk_kind := kind, tk_source := track_source_of (mi_source info), tk_name := mi_name info,
               tk_sid := sid\<rparr>))
      | _ \<Rightarrow> None)"

section \<open>Publications\<close>

record publication =
  pb_track :: "remote_media option"
  pb_name :: string
  pb_sid :: string
  pb_kind :: track_kind
  pb_source :: track_source
  pb_simulcasted :: bool
  pb_dimension :: "u32 \<times> u32"
  pb_mime_type :: string
  pb_muted :: bool
  pb_proto_info :: media_info
  pb_encryption_type :: e2ee_type
  pb_audio_features :: "int list"
  pb_subscribed :: bool
  pb_allowed :: bool

datatype sub_status = Status_Desired | Status_Subscribed | Status_Unsubscribed

datatype publication_event =
    On_Muted
  | On_Unmuted
  | On_Subscribed remote_media
  | On_Unsubscribed remote_media
  | On_Subscription_Status sub_status sub_status
  | On_Permission_Status bool bool
  | On_Subscription_Update_Needed bool
  | On_Enabled_Status bool
  | On_Video_Dimensions u32 u32

definition publication_new :: "media_info \<Rightarrow> bool \<Rightarrow> publication option" where
  "publication_new info auto_subscribe =
     (case (track_kind_try_from (track_type_of (mi_type info)), track_sid_try_from (mi_sid info)) of
        (Some kind, Some sid) \<Rightarrow>
          Some \<lparr>pb_track = None, pb_name = mi_name info, pb_sid = sid, pb_kind = kind,
            pb_source = track_source_of (mi_source info), pb_simulcasted = mi_simulcast info,
            pb_dimension = (mi_width info, mi_height info), pb_mime_type = mi_mime_type info,
            pb_muted = mi_muted info, pb_proto_info = info,
            pb_encryption_type = encryption_kind_of (mi_encryption info),
            pb_audio_features = audio_features_of (mi_audio_features info),
            pb_subscribed = auto_subscribe, pb_allowed = True\<rparr>
      | _ \<Rightarrow> None)"

definition subscription_status :: "publication \<Rightarrow> sub_status" where
  "subscription_status p =
     (if \<not> pb_subscribed p then Status_Unsubscribed
      else if pb_track p = None then Status_Desired
      else Status_Subscribed)"

definition emit_subscription_update :: "sub_status \<Rightarrow> publication \<Rightarrow> publication_event list" where
  "emit_subscription_update old p =
     (if old \<noteq> subscription_status p then [On_Subscription_Status old (subscription_status p)] else [])"

definition emit_permission_update :: "bool \<Rightarrow> publication \<Rightarrow> publication_event list" where
  "emit_permission_update old p =
     (if old \<noteq> pb_allowed p then [On_Permission_Status old (pb_allowed p)] else [])"

text \<open>\<^verbatim>\<open>set_track\<close> of a remote publication, with that of the common part.\<close>

definition set_track :: "remote_media option \<Rightarrow> publication \<Rightarrow> publication \<times> publication_event list" where
  "set_track track p =
     (let old_status = subscription_status p; old_permission = pb_allowed p;
          unsubscribed = (case pb_track p of None \<Rightarrow> [] | Some prev \<Rightarrow> [On_Unsubscribed prev]);
          p = p\<lparr>pb_track := track\<rparr>;
          p = (case track of None \<Rightarrow> p | Some t \<Rightarrow> p\<lparr>pb_sid := tk_sid t\<rparr>);
          subscribed = (case track of None \<Rightarrow> [] | Some t \<Rightarrow> [On_Subscribed t])
      in (p, unsubscribed @ subscribed @ emit_subscription_update old_status p
             @ emit_permission_update old_permission p))"

definition publication_update_info :: "media_info \<Rightarrow> publication \<Rightarrow> (publication \<times> publication_event list) option" where
  "publication_update_info info p =
     (case (track_kind_try_from (track_type_of (mi_type info)), track_sid_try_from (mi_sid info)) of
        (Some kind, Some sid) \<Rightarrow>
          let muted = pb_muted p
          in Some (p\<lparr>pb_kind := kind, pb_source := track_source_of (mi_source info),
                 pb_encryption_type := encryption_kind_of (mi_encryption info), pb_proto_info := info,
                 pb_name := mi_name info, pb_sid := sid, pb_dimension := (mi_width info, mi_height info),
                 pb_mime_type := mi_mime_type info, pb_simulcasted := mi_simulcast info,
                 pb_audio_features := audio_features_of (mi_audio_features info), pb_muted := mi_muted info\<rparr>,
               if muted \<noteq> mi_muted info then [if mi_muted info then On_Muted else On_Unmuted] else [])
      | _ \<Rightarrow> None)"

definition set_subscribed :: "bool \<Rightarrow> publication \<Rightarrow> publication \<times> publication_event list" where
  "set_subscribed b p =
     (let old_status = subscription_status p; old_permission = pb_allowed p;
          p = p\<lparr>pb_subscribed := b, pb_allowed := (if b then True else pb_allowed p)\<rparr>;
          (p, track_events) = (if \<not> b then set_track None p else (p, []))
      in (p, track_events @ [On_Subscription_Update_Needed b] @ emit_subscription_update old_status p
             @ emit_permission_update old_permission p))"

definition publication_enabled :: "publication \<Rightarrow> bool" where
  "publication_enabled p = (case pb_track p of None \<Rightarrow> False | Some t \<Rightarrow> tk_enabled t)"

definition set_track_enabled :: "bool \<Rightarrow> publication \<Rightarrow> publication \<times> publication_event list" where
  "set_track_enabled enabled p =
     (case pb_track p of
        None \<Rightarrow> (p, [])
      | Some t \<Rightarrow>
          if enabled = publication_enabled p then (p, [])
          else (p\<lparr>pb_track := Some (t\<lparr>tk_enabled := \<not> tk_enabled t\<rparr>)\<rparr>, [On_Enabled_Status enabled]))"

definition update_video_dimensions :: "u32 \<Rightarrow> u32 \<Rightarrow> publication \<Rightarrow> (publication \<times> publication_event list) option" where
  "update_video_dimensions width height p =
     (if pb_track p = None then Some (p, [])
      else
        let updated = (if (width, height) \<noteq> pb_dimension p
              then publication_update_info ((pb_proto_info p)\<lparr>mi_width := width, mi_height := height\<rparr>) p
              else Some (p, []))
        in map_option (\<lambda>(p, events). (p, events @ [On_Video_Dimensions width height])) updated)"

section \<open>Participants\<close>

text \<open>
  \<open>pa_publications\<close> is a hash map: the entries by their keys, in the order in which they were
  entered; the order of an iteration is that of an argument \<open>ord\<close>, applied to the keys.
\<close>

record participant =
  pa_sid :: string
  pa_identity :: string
  pa_name :: string
  pa_state :: participant_state
  pa_metadata :: string
  pa_attributes :: "(string \<times> string) list"
  pa_speaking :: bool
  pa_audio_level :: "int option"
  pa_connection_quality :: connection_quality
  pa_kind :: participant_kind
  pa_kind_details :: "int list"
  pa_disconnect_reason :: disconnect_reason
  pa_joined_at :: int
  pa_permission :: "permission option"
  pa_publications :: "(string \<times> publication) list"
  pa_is_encrypted :: bool
  pa_is_data_encrypted :: "bool option"
  pa_auto_subscribe :: bool

text \<open>
  The handlers of a participant. A request to the server names the participant by the SID that it
  had when the publication was added.
\<close>

datatype participant_event =
    Pe_NameChanged string string
  | Pe_MetadataChanged string string
  | Pe_AttributesChanged "string \<rightharpoonup> string"
  | Pe_PermissionChanged "permission option"
  | Pe_EncryptionStatusChanged bool
  | Pe_TrackPublished publication
  | Pe_TrackUnpublished publication
  | Pe_TrackSubscribed publication remote_media
  | Pe_TrackUnsubscribed publication remote_media
  | Pe_TrackSubscriptionFailed string
  | Pe_TrackMuted publication
  | Pe_TrackUnmuted publication
  | Pe_UpdateSubscription string string bool
  | Pe_UpdateTrackSettings string bool u32 u32

definition participant_new :: "participant_msg \<Rightarrow> bool \<Rightarrow> participant option" where
  "participant_new info auto_subscribe =
     (case participant_sid_try_from (pi_sid info) of
        None \<Rightarrow> None
      | Some sid \<Rightarrow>
          Some \<lparr>pa_sid = sid, pa_identity = pi_identity info, pa_name = pi_name info,
            pa_state = participant_state_of (pi_state info), pa_metadata = pi_metadata info,
            pa_attributes = pi_attributes info, pa_speaking = False, pa_audio_level = Some 0,
            pa_connection_quality = Excellent, pa_kind = participant_kind_of (pi_kind info),
            pa_kind_details = convert_kind_details (pi_kind_details info),
            pa_disconnect_reason = Unknown_Reason, pa_joined_at = pi_joined_at_ms info,
            pa_permission = pi_permission info, pa_publications = [], pa_is_encrypted = False,
            pa_is_data_encrypted = None, pa_auto_subscribe = auto_subscribe\<rparr>)"

text \<open>The encryption status is computed from the publications, see \<open>update_encryption_status\<close>.\<close>

definition status_of :: "participant \<Rightarrow> participant_status" where
  "status_of p =
     \<lparr>ps_track_publications = map (\<lambda>(sid, pb). pb_encryption_type pb) (pa_publications p),
      ps_is_encrypted = pa_is_encrypted p, ps_is_data_encrypted = pa_is_data_encrypted p,
      ps_encryption_status_changed = []\<rparr>"

definition refresh_encryption :: "participant \<Rightarrow> participant \<times> participant_event list" where
  "refresh_encryption p =
     (let st = update_encryption_status (status_of p)
      in (p\<lparr>pa_is_encrypted := ps_is_encrypted st\<rparr>,
          map Pe_EncryptionStatusChanged (ps_encryption_status_changed st)))"

text \<open>\<^verbatim>\<open>update_info\<close> of the common part; the callbacks run while the new values are entered.\<close>

definition participant_update_info :: "participant_msg \<Rightarrow> participant \<Rightarrow> (participant \<times> participant_event list) option" where
  "participant_update_info info p =
     (case participant_sid_try_from (pi_sid info) of
        None \<Rightarrow> None
      | Some sid \<Rightarrow>
          let changed = calculate_changed_attributes (map_of (pa_attributes p)) (map_of (pi_attributes info))
                (map fst (pa_attributes p)) (map fst (pi_attributes info));
              any_changed = list_ex (\<lambda>k. changed k \<noteq> None) (map fst (pa_attributes p) @ map fst (pi_attributes info))
          in Some (p\<lparr>pa_state := participant_state_of (pi_state info),
                 pa_disconnect_reason := pi_disconnect_reason info,
                 pa_kind := participant_kind_of (pi_kind info),
                 pa_kind_details := convert_kind_details (pi_kind_details info),
                 pa_sid := sid, pa_identity := pi_identity info, pa_joined_at := pi_joined_at_ms info,
                 pa_name := pi_name info, pa_metadata := pi_metadata info,
                 pa_attributes := pi_attributes info, pa_permission := pi_permission info\<rparr>,
               (if pa_name p \<noteq> pi_name info then [Pe_NameChanged (pa_name p) (pi_name info)] else [])
               @ (if pa_metadata p \<noteq> pi_metadata info then [Pe_MetadataChanged (pa_metadata p) (pi_metadata info)] else [])
               @ (if any_changed then [Pe_AttributesChanged changed] else [])
               @ (if pa_permission p \<noteq> pi_permission info then [Pe_PermissionChanged (pi_permission info)] else [])))"

text \<open>
  What the handlers that \<^verbatim>\<open>add_publication\<close> installs do with the events of a publication; nobody
  registers for the two kinds of status events.
\<close>

definition publication_callback :: "string \<Rightarrow> publication \<Rightarrow> publication_event \<Rightarrow> participant_event list" where
  "publication_callback psid pb ev =
     (case ev of
        On_Muted \<Rightarrow> [Pe_TrackMuted pb]
      | On_Unmuted \<Rightarrow> [Pe_TrackUnmuted pb]
      | On_Subscribed t \<Rightarrow> [Pe_TrackSubscribed pb t]
      | On_Unsubscribed t \<Rightarrow> [Pe_TrackUnsubscribed pb t]
      | On_Subscription_Update_Needed b \<Rightarrow> [Pe_UpdateSubscription psid (pb_sid pb) b]
      | On_Enabled_Status enabled \<Rightarrow>
          [Pe_UpdateTrackSettings (pb_sid pb) (\<not> enabled) (fst (pb_dimension pb)) (snd (pb_dimension pb))]
      | On_Video_Dimensions width height \<Rightarrow>
          [Pe_UpdateTrackSettings (pb_sid pb) (\<not> publication_enabled pb) width height]
      | _ \<Rightarrow> [])"

definition publication_callbacks :: "string \<Rightarrow> publication \<Rightarrow> publication_event list \<Rightarrow> participant_event list" where
  "publication_callbacks psid pb evs = concat (map (publication_callback psid pb) evs)"

definition get_track_publication :: "string \<Rightarrow> participant \<Rightarrow> publication option" where
  "get_track_publication sid p = map_of (pa_publications p) sid"

definition add_publication :: "publication \<Rightarrow> participant \<Rightarrow> participant \<times> participant_event list" where
  "add_publication pb p =
     refresh_encryption (p\<lparr>pa_publications := AList.update (pb_sid pb) pb (pa_publications p)\<rparr>)"

definition remove_publication :: "string \<Rightarrow> participant \<Rightarrow> participant \<times> participant_event list" where
  "remove_publication sid p =
     refresh_encryption (p\<lparr>pa_publications := AList.delete sid (pa_publications p)\<rparr>)"

text \<open>An operation on a publication that a participant has, through the shared object.\<close>

definition put_publication :: "string \<Rightarrow> publication \<Rightarrow> participant \<Rightarrow> participant" where
  "put_publication sid pb p = p\<lparr>pa_publications := AList.update sid pb (pa_publications p)\<rparr>"

definition unpublish_track :: "string \<Rightarrow> participant \<Rightarrow> participant \<times> participant_event list" where
  "unpublish_track sid p =
     (case get_track_publication sid p of
        None \<Rightarrow> (p, [])
      | Some pb \<Rightarrow>
          let (pb, unsubscribed) = (case pb_track pb of
                None \<Rightarrow> (pb, [])
              | Some t \<Rightarrow> set_track None (pb\<lparr>pb_track := Some (t\<lparr>tk_enabled := False\<rparr>)\<rparr>));
              (p, status) = remove_publication sid p
          in (p, publication_callbacks (pa_sid p) pb unsubscribed @ status @ [Pe_TrackUnpublished pb]))"

text \<open>The loop over the listed tracks, with the valid SIDs collected.\<close>

definition publish_listed :: "media_info \<Rightarrow> participant \<Rightarrow> (participant \<times> participant_event list) option" where
  "publish_listed track p =
     (case track_sid_try_from (mi_sid track) of
        None \<Rightarrow> None
      | Some sid \<Rightarrow>
          (case get_track_publication sid p of
             Some pb \<Rightarrow>
               (case publication_update_info track pb of
                  None \<Rightarrow> None
                | Some (pb, evs) \<Rightarrow>
                    Some (put_publication sid pb p, publication_callbacks (pa_sid p) pb evs))
           | None \<Rightarrow>
               (case publication_new track (pa_auto_subscribe p) of
                  None \<Rightarrow> None
                | Some pb \<Rightarrow>
                    let (p, status) = add_publication pb p
                    in Some (p, status @ [Pe_TrackPublished pb]))))"

fun publish_all :: "media_info list \<Rightarrow> participant \<Rightarrow> (participant \<times> participant_event list) option" where
  "publish_all [] p = Some (p, [])"
| "publish_all (track # tracks) p =
     (case publish_listed track p of
        None \<Rightarrow> None
      | Some (p, evs) \<Rightarrow> map_option (\<lambda>(p, evs'). (p, evs @ evs')) (publish_all tracks p))"

fun unpublish_all :: "string list \<Rightarrow> participant \<Rightarrow> participant \<times> participant_event list" where
  "unpublish_all [] p = (p, [])"
| "unpublish_all (sid # sids) p =
     (let (p, evs) = unpublish_track sid p; (p, evs') = unpublish_all sids p in (p, evs @ evs'))"

definition remote_update_info ::
    "(string list \<Rightarrow> string list) \<Rightarrow> participant_msg \<Rightarrow> participant \<Rightarrow> (participant \<times> participant_event list) option" where
  "remote_update_info ord info p =
     (case participant_update_info info p of
        None \<Rightarrow> None
      | Some (p, evs1) \<Rightarrow>
          (case publish_all (pi_tracks info) p of
             None \<Rightarrow> None
           | Some (p, evs2) \<Rightarrow>
               let valid = map mi_sid (pi_tracks info);
                   (p, evs3) = unpublish_all
                     (filter (\<lambda>sid. sid \<notin> set valid) (ord (map fst (pa_publications p)))) p
               in Some (p, evs1 @ evs2 @ evs3)))"

text \<open>The information that a new track is given from its publication.\<close>

primrec track_source_number :: "track_source \<Rightarrow> int" where
  "track_source_number Source_Unknown = 0"
| "track_source_number Source_Camera = 1"
| "track_source_number Source_Microphone = 2"
| "track_source_number Source_Screenshare = 3"
| "track_source_number Source_ScreenshareAudio = 4"

primrec track_type_number :: "track_type \<Rightarrow> int" where
  "track_type_number Type_Audio = 0"
| "track_type_number Type_Video = 1"
| "track_type_number Type_Data = 2"

definition subscribed_info :: "publication \<Rightarrow> media_info" where
  "subscribed_info pb =
     \<lparr>mi_sid = pb_sid pb, mi_type = track_type_number (track_type_from (pb_kind pb)), mi_name = pb_name pb,
      mi_muted = pb_muted pb, mi_width = 0, mi_height = 0, mi_simulcast = False,
      mi_source = track_source_number (pb_source pb), mi_mime_type = [], mi_encryption = 0,
      mi_audio_features = []\<rparr>"

text \<open>
  \<^verbatim>\<open>add_subscribed_media_track\<close> when the wait for the publication ends: the media library's track
  with its kind, or none when the time is over without a publication.
\<close>

definition add_subscribed_media_track ::
    "string \<Rightarrow> track_kind \<Rightarrow> nat \<Rightarrow> bool \<Rightarrow> participant \<Rightarrow> (participant \<times> participant_event list) option" where
  "add_subscribed_media_track sid media_kind endpoint enabled p =
     (case get_track_publication sid p of
        None \<Rightarrow> Some (p, [Pe_TrackSubscriptionFailed sid])
      | Some pb \<Rightarrow>
          if pb_kind pb \<noteq> media_kind then None
          else
            (case track_update_info (subscribed_info pb)
                (remote_media_new (pb_sid pb) (pb_name pb) (pb_kind pb) endpoint enabled) of
               None \<Rightarrow> None
             | Some t \<Rightarrow>
                 let (p, status) = add_publication pb p;
                     t = t\<lparr>tk_enabled := True\<rparr>;
                     (pb, evs) = set_track (Some t) pb
                 in Some (put_publication (pb_sid pb) pb p, status @ publication_callbacks (pa_sid p) pb evs)))"

text \<open>A user's call on a publication that the participant has.\<close>

datatype user_request = Set_Subscribed bool | Set_Enabled bool | Set_Dimensions u32 u32

definition publication_call :: "user_request \<Rightarrow> publication \<Rightarrow> (publication \<times> publication_event list) option" where
  "publication_call call pb =
     (case call of
        Set_Subscribed b \<Rightarrow> Some (set_subscribed b pb)
      | Set_Enabled b \<Rightarrow> Some (set_track_enabled b pb)
      | Set_Dimensions width height \<Rightarrow> update_video_dimensions width height pb)"

definition participant_call ::
    "string \<Rightarrow> user_request \<Rightarrow> participant \<Rightarrow> (participant \<times> participant_event list) option" where
  "participant_call sid call p =
     (case get_track_publication sid p of
        None \<Rightarrow> Some (p, [])
      | Some pb \<Rightarrow>
          (case publication_call call pb of
             None \<Rightarrow> None
           | Some (pb', evs) \<Rightarrow>
               Some (put_publication sid pb' p, publication_callbacks (pa_sid p) pb' evs)))"

section \<open>What an operation keeps\<close>

text \<open>A hash map is iterated in some order that visits every key once.\<close>

definition reorders :: "(string list \<Rightarrow> string list) \<Rightarrow> bool" where
  "reorders ord \<longleftrightarrow> (\<forall>ks. distinct ks \<longrightarrow> distinct (ord ks) \<and> set (ord ks) = set ks)"

definition publications_ok :: "participant \<Rightarrow> bool" where
  "publications_ok p \<longleftrightarrow> distinct (map fst (pa_publications p))
     \<and> (\<forall>sid pb. map_of (pa_publications p) sid = Some pb \<longrightarrow>
          pb_sid pb = sid \<and> mi_sid (pb_proto_info pb) = sid \<and> track_sid_try_from sid = Some sid
          \<and> (\<forall>t. pb_track pb = Some t \<longrightarrow> tk_sid t = sid))"

lemma track_sid_try_from_Some: "track_sid_try_from s = Some sid \<Longrightarrow> sid = s"
  by (simp add: track_sid_try_from_def split: if_splits)

lemma refresh_encryption_frame:
  assumes "refresh_encryption p = (p', evs)"
  shows "p' = p\<lparr>pa_is_encrypted := pa_is_encrypted p'\<rparr> \<and> (\<forall>e \<in> set evs. \<exists>b. e = Pe_EncryptionStatusChanged b)"
  using assms by (auto simp: refresh_encryption_def Let_def)

text \<open>What of a publication does not depend on the bookkeeping of the library.\<close>

type_synonym track_view = "media_info \<times> remote_media option \<times> bool"

definition publication_view :: "publication \<Rightarrow> track_view" where
  "publication_view pb = (pb_proto_info pb, pb_track pb, pb_subscribed pb)"

definition track_views :: "participant \<Rightarrow> string \<rightharpoonup> track_view" where
  "track_views p sid = map_option publication_view (map_of (pa_publications p) sid)"

fun published_sid :: "participant_event \<Rightarrow> string option" where
  "published_sid (Pe_TrackPublished pb) = Some (pb_sid pb)"
| "published_sid _ = None"

fun unpublished_sid :: "participant_event \<Rightarrow> string option" where
  "unpublished_sid (Pe_TrackUnpublished pb) = Some (pb_sid pb)"
| "unpublished_sid _ = None"

abbreviation published_in :: "participant_event list \<Rightarrow> string list" where
  "published_in evs \<equiv> List.map_filter published_sid evs"

abbreviation unpublished_in :: "participant_event list \<Rightarrow> string list" where
  "unpublished_in evs \<equiv> List.map_filter unpublished_sid evs"

declare map_filter_append [simp]

lemma map_filter_none: "(\<And>x. x \<in> set xs \<Longrightarrow> f x = None) \<Longrightarrow> List.map_filter f xs = []"
  by (induction xs) (auto simp: map_filter_simps)

lemma status_events_silent:
  assumes "refresh_encryption p = (p', evs)"
  shows "published_in evs = []" and "unpublished_in evs = []"
  using refresh_encryption_frame [OF assms] by (auto intro!: map_filter_none)

lemma publication_callback_silent:
  "e \<in> set (publication_callback psid pb ev) \<Longrightarrow> published_sid e = None \<and> unpublished_sid e = None"
  by (cases ev) (simp_all add: publication_callback_def)

lemma publication_callbacks_silent [simp]:
  "published_in (publication_callbacks psid pb evs) = []"
  "unpublished_in (publication_callbacks psid pb evs) = []"
  by (auto simp: publication_callbacks_def dest: publication_callback_silent intro!: map_filter_none)

lemma add_publication_frame:
  assumes "add_publication pb p = (p', evs)"
  shows "p' = p\<lparr>pa_publications := AList.update (pb_sid pb) pb (pa_publications p), pa_is_encrypted := pa_is_encrypted p'\<rparr>"
    and "published_in evs = []" and "unpublished_in evs = []"
  using refresh_encryption_frame [OF assms [unfolded add_publication_def]]
    status_events_silent [OF assms [unfolded add_publication_def]] by auto

lemma remove_publication_frame:
  assumes "remove_publication sid p = (p', evs)"
  shows "p' = p\<lparr>pa_publications := AList.delete sid (pa_publications p), pa_is_encrypted := pa_is_encrypted p'\<rparr>"
    and "published_in evs = []" and "unpublished_in evs = []"
  using refresh_encryption_frame [OF assms [unfolded remove_publication_def]]
    status_events_silent [OF assms [unfolded remove_publication_def]] by auto

lemma publication_new_view:
  assumes "publication_new info b = Some pb"
  shows "pb_sid pb = mi_sid info" and "pb_track pb = None" and "publication_view pb = (info, None, b)"
    and "track_sid_try_from (mi_sid info) = Some (mi_sid info)" and "mi_sid (pb_proto_info pb) = mi_sid info"
  using assms
  by (auto simp: publication_new_def publication_view_def dest: track_sid_try_from_Some split: option.splits)

lemma publication_update_info_view:
  assumes "publication_update_info info pb = Some (pb', evs)"
  shows "pb_sid pb' = mi_sid info" and "pb_track pb' = pb_track pb"
    and "publication_view pb' = (info, pb_track pb, pb_subscribed pb)"
    and "track_sid_try_from (mi_sid info) = Some (mi_sid info)" and "mi_sid (pb_proto_info pb') = mi_sid info"
  using assms
  by (auto simp: publication_update_info_def publication_view_def Let_def dest: track_sid_try_from_Some
    split: option.splits)

lemma publications_ok_update:
  assumes "publications_ok p" and "pb_sid pb = sid" and "mi_sid (pb_proto_info pb) = sid"
    and "track_sid_try_from sid = Some sid"
    and "\<forall>t. pb_track pb = Some t \<longrightarrow> tk_sid t = sid"
    and "pa_publications p' = AList.update sid pb (pa_publications p)"
  shows "publications_ok p'"
  using assms by (auto simp: publications_ok_def update_conv' distinct_update)

lemma publications_ok_delete:
  assumes "publications_ok p" and "pa_publications p' = AList.delete sid (pa_publications p)"
  shows "publications_ok p'"
  using assms by (auto simp: publications_ok_def delete_conv' distinct_delete split: if_splits)

section \<open>Publishing what is listed\<close>

definition bad_track :: "media_info \<Rightarrow> bool" where
  "bad_track t \<longleftrightarrow> track_kind_try_from (track_type_of (mi_type t)) = None \<or> track_sid_try_from (mi_sid t) = None"

text \<open>What becomes of a listed track.\<close>

definition listed_view :: "bool \<Rightarrow> media_info \<Rightarrow> track_view option \<Rightarrow> track_view" where
  "listed_view auto info v = (case v of None \<Rightarrow> (info, None, auto) | Some (_, track, b) \<Rightarrow> (info, track, b))"

lemma publish_listed_None: "publish_listed t p = None \<longleftrightarrow> bad_track t"
  by (auto simp: publish_listed_def bad_track_def publication_update_info_def publication_new_def Let_def
    split: option.splits prod.splits)

lemma publish_listed_spec:
  assumes "publications_ok p" and "publish_listed t p = Some (p', evs)"
  shows "publications_ok p' \<and> pa_auto_subscribe p' = pa_auto_subscribe p
    \<and> track_views p' = (track_views p)(mi_sid t \<mapsto> listed_view (pa_auto_subscribe p) t (track_views p (mi_sid t)))
    \<and> published_in evs = (if track_views p (mi_sid t) = None then [mi_sid t] else []) \<and> unpublished_in evs = []"
proof -
  have sid: "track_sid_try_from (mi_sid t) = Some (mi_sid t)"
    using assms(2) by (auto simp: publish_listed_def dest: track_sid_try_from_Some split: option.splits)
  show ?thesis
  proof (cases "map_of (pa_publications p) (mi_sid t)")
    case (Some pb)
    with assms(2) sid obtain pb' es where u: "publication_update_info t pb = Some (pb', es)"
      and p': "p' = put_publication (mi_sid t) pb' p" and evs: "evs = publication_callbacks (pa_sid p) pb' es"
      by (auto simp: publish_listed_def get_track_publication_def split: option.splits)
    note view = publication_update_info_view [OF u]
    have "publications_ok p'"
      by (rule publications_ok_update [OF assms(1) view(1,5) sid])
        (use assms(1) Some view(2) p' in \<open>auto simp: publications_ok_def put_publication_def\<close>)
    moreover have "track_views p' = (track_views p)(mi_sid t \<mapsto> (t, pb_track pb, pb_subscribed pb))"
      by (rule ext) (simp add: track_views_def p' put_publication_def update_conv' view(3))
    ultimately show ?thesis
      by (simp add: p' evs put_publication_def track_views_def Some listed_view_def publication_view_def)
  next
    case None
    with assms(2) sid obtain pb q status where n: "publication_new t (pa_auto_subscribe p) = Some pb"
      and q: "add_publication pb p = (p', status)" and evs: "evs = status @ [Pe_TrackPublished pb]"
      by (auto simp: publish_listed_def get_track_publication_def split: option.splits prod.splits)
    note view = publication_new_view [OF n] and frame = add_publication_frame [OF q]
    have pubs: "pa_publications p' = AList.update (mi_sid t) pb (pa_publications p)"
      "pa_auto_subscribe p' = pa_auto_subscribe p"
      using view(1) by (subst frame(1), simp)+
    have "publications_ok p'"
      by (rule publications_ok_update [OF assms(1) view(1,5) sid _ pubs(1)]) (simp add: view(2))
    moreover have "track_views p' = (track_views p)(mi_sid t \<mapsto> (t, None, pa_auto_subscribe p))"
      by (rule ext) (simp add: track_views_def pubs update_conv' view(3))
    ultimately show ?thesis
      by (simp add: evs pubs frame(2,3) track_views_def None listed_view_def map_filter_simps view(1))
  qed
qed

text \<open>The last information listed under a SID.\<close>

definition listed_as :: "media_info list \<Rightarrow> string \<rightharpoonup> media_info" where
  "listed_as tracks = map_of (map (\<lambda>t. (mi_sid t, t)) (rev tracks))"

lemma listed_as_Nil [simp]: "listed_as [] = Map.empty"
  by (simp add: listed_as_def)

lemma listed_as_Cons:
  "listed_as (t # ts) sid = (case listed_as ts sid of None \<Rightarrow> if sid = mi_sid t then Some t else None | x \<Rightarrow> x)"
  by (simp add: listed_as_def map_add_def split: option.split)

lemma listed_as_None: "listed_as ts sid = None \<longleftrightarrow> sid \<notin> mi_sid ` set ts"
  by (auto simp: listed_as_def map_of_eq_None_iff image_image)

lemma publish_all_None: "publish_all ts p = None \<longleftrightarrow> (\<exists>t \<in> set ts. bad_track t)"
proof (induction ts arbitrary: p)
  case (Cons t ts)
  show ?case
  proof (cases "publish_listed t p")
    case None
    then have "bad_track t" by (simp add: publish_listed_None)
    with None show ?thesis by simp
  next
    case (Some r)
    then have "\<not> bad_track t" using publish_listed_None [of t p] by simp
    with Some show ?thesis by (cases r) (simp add: Cons.IH)
  qed
qed simp

lemma listed_view_twice: "listed_view a t (Some (listed_view a t' v)) = listed_view a t v"
  by (auto simp: listed_view_def split: option.split prod.split)

lemma publish_all_spec:
  assumes "publications_ok p" and "publish_all ts p = Some (p', evs)"
  shows "publications_ok p'
    \<and> (\<forall>sid. track_views p' sid = (case listed_as ts sid of None \<Rightarrow> track_views p sid
          | Some t \<Rightarrow> Some (listed_view (pa_auto_subscribe p) t (track_views p sid))))
    \<and> distinct (published_in evs) \<and> set (published_in evs) = mi_sid ` set ts - dom (track_views p)
    \<and> unpublished_in evs = []"
  using assms
proof (induction ts arbitrary: p p' evs)
  case Nil
  then show ?case by (simp add: map_filter_simps)
next
  case (Cons t ts)
  from Cons.prems(2) obtain q e1 e2 where q: "publish_listed t p = Some (q, e1)"
    and rest: "publish_all ts q = Some (p', e2)" and evs: "evs = e1 @ e2"
    by (auto split: option.splits)
  note s = publish_listed_spec [OF Cons.prems(1) q]
  then have "publications_ok q" by simp
  note IH = Cons.IH [OF this rest]
  have view: "track_views p' sid = (case listed_as (t # ts) sid of None \<Rightarrow> track_views p sid
      | Some t \<Rightarrow> Some (listed_view (pa_auto_subscribe p) t (track_views p sid)))" for sid
    using IH s by (auto simp: listed_as_Cons listed_view_twice split: option.split)
  have d: "dom (track_views q) = insert (mi_sid t) (dom (track_views p))" using s by simp
  have p2: "distinct (published_in e2)" "set (published_in e2) = mi_sid ` set ts - dom (track_views q)"
    "unpublished_in e2 = []" "publications_ok p'" using IH by blast+
  have p1: "published_in e1 = (if track_views p (mi_sid t) = None then [mi_sid t] else [])" "unpublished_in e1 = []"
    using s by blast+
  have "distinct (published_in evs) \<and> set (published_in evs) = mi_sid ` set (t # ts) - dom (track_views p)"
  proof (cases "track_views p (mi_sid t) = None")
    case True
    then have "published_in e1 = [mi_sid t]" using p1(1) by simp
    with True show ?thesis by (auto simp: evs p2 d)
  next
    case False
    then have "published_in e1 = []" using p1(1) by (simp only: if_False)
    moreover have "mi_sid t \<in> dom (track_views p)" using False by blast
    ultimately show ?thesis by (auto simp: evs p2 d)
  qed
  then show ?case using view p1(2) p2(3,4) by (simp add: evs)
qed

section \<open>Unpublishing\<close>

text \<open>Two states of a participant that differ in the publications alone.\<close>

definition same_person :: "participant \<Rightarrow> participant \<Rightarrow> bool" where
  "same_person p p' \<longleftrightarrow> p'\<lparr>pa_publications := [], pa_is_encrypted := False\<rparr> = p\<lparr>pa_publications := [], pa_is_encrypted := False\<rparr>"

lemma same_person_refl [simp]: "same_person p p"
  by (simp add: same_person_def)

lemma same_person_trans: "same_person p q \<Longrightarrow> same_person q r \<Longrightarrow> same_person p r"
  by (simp add: same_person_def)

lemma same_person_update [simp]: "same_person p (p\<lparr>pa_publications := x, pa_is_encrypted := b\<rparr>)"
  by (simp add: same_person_def)

lemma same_personD:
  assumes "same_person p p'"
  shows "pa_sid p' = pa_sid p" and "pa_identity p' = pa_identity p" and "pa_state p' = pa_state p"
    and "pa_auto_subscribe p' = pa_auto_subscribe p"
  using assms [unfolded same_person_def, THEN arg_cong, of pa_sid]
    assms [unfolded same_person_def, THEN arg_cong, of pa_identity]
    assms [unfolded same_person_def, THEN arg_cong, of pa_state]
    assms [unfolded same_person_def, THEN arg_cong, of pa_auto_subscribe] by simp_all

lemma unpublish_track_absent: "map_of (pa_publications p) sid = None \<Longrightarrow> unpublish_track sid p = (p, [])"
  by (simp add: unpublish_track_def get_track_publication_def)

lemma unpublish_track_spec:
  assumes "publications_ok p" and "unpublish_track sid p = (p', evs)"
  shows "publications_ok p' \<and> track_views p' = (track_views p)(sid := None) \<and> published_in evs = []
    \<and> unpublished_in evs = (if track_views p sid = None then [] else [sid])
    \<and> pa_publications p' = AList.delete sid (pa_publications p)
    \<and> same_person p p'"
proof (cases "map_of (pa_publications p) sid")
  case None
  with assms(2) have "p' = p" "evs = []" by (simp_all add: unpublish_track_absent)
  with assms(1) None show ?thesis
    by (auto simp: track_views_def map_filter_simps fun_upd_idem_iff map_of_eq_None_iff delete_id)
next
  case (Some pb)
  define r where "r = (case pb_track pb of None \<Rightarrow> (pb, [])
      | Some t \<Rightarrow> set_track None (pb\<lparr>pb_track := Some (t\<lparr>tk_enabled := False\<rparr>)\<rparr>))"
  obtain pb' unsubscribed where r: "r = (pb', unsubscribed)" by (cases r)
  have "pb_sid pb' = pb_sid pb"
    using r by (auto simp: r_def set_track_def Let_def split: option.splits)
  then have sid: "pb_sid pb' = sid" using assms(1) Some by (simp add: publications_ok_def)
  obtain status where q: "remove_publication sid p = (p', status)"
    and evs: "evs = publication_callbacks (pa_sid p') pb' unsubscribed @ status @ [Pe_TrackUnpublished pb']"
    using assms(2) r by (auto simp: unpublish_track_def get_track_publication_def Some r_def[symmetric]
      Let_def split: prod.splits)
  note frame = remove_publication_frame [OF q]
  have pubs: "pa_publications p' = AList.delete sid (pa_publications p)"
    by (subst frame(1)) simp
  have same: "same_person p p'" by (subst frame(1)) simp
  show ?thesis
    using publications_ok_delete [OF assms(1) pubs] Some same
    by (auto simp: track_views_def pubs delete_conv' evs frame(2,3) sid map_filter_simps)
qed

lemma unpublish_all_spec:
  assumes "publications_ok p" and "distinct sids" and "unpublish_all sids p = (p', evs)"
  shows "publications_ok p' \<and> (\<forall>sid. track_views p' sid = (if sid \<in> set sids then None else track_views p sid))
    \<and> published_in evs = [] \<and> unpublished_in evs = filter (\<lambda>sid. track_views p sid \<noteq> None) sids
    \<and> same_person p p'"
  using assms
proof (induction sids arbitrary: p p' evs)
  case Nil
  then show ?case by (simp add: map_filter_simps)
next
  case (Cons sid sids)
  from Cons.prems(3) obtain q e1 e2 where q: "unpublish_track sid p = (q, e1)"
    and rest: "unpublish_all sids q = (p', e2)" and evs: "evs = e1 @ e2"
    by (auto split: prod.splits)
  note s = unpublish_track_spec [OF Cons.prems(1) q]
  then have "publications_ok q" by simp
  have "distinct sids" using Cons.prems(2) by simp
  note IH = Cons.IH [OF \<open>publications_ok q\<close> this rest]
  have "filter (\<lambda>sid. track_views q sid \<noteq> None) sids = filter (\<lambda>sid. track_views p sid \<noteq> None) sids"
    using s Cons.prems(2) by (intro filter_cong) auto
  then have u: "unpublished_in evs = filter (\<lambda>sid. track_views p sid \<noteq> None) (sid # sids)"
    using s IH by (simp add: evs)
  have f: "same_person p p'" using s IH same_person_trans by blast
  show ?case using s IH u f by (simp add: evs)
qed

section \<open>An update of a participant\<close>

lemma participant_update_info_frame:
  assumes "participant_update_info info p = Some (p', evs)"
  shows "pa_publications p' = pa_publications p" and "pa_auto_subscribe p' = pa_auto_subscribe p"
    and "pa_sid p' = pi_sid info" and "pa_identity p' = pi_identity info"
    and "pa_state p' = participant_state_of (pi_state info)"
    and "published_in evs = []" and "unpublished_in evs = []"
proof -
  obtain sid where sid: "participant_sid_try_from (pi_sid info) = Some sid"
    using assms by (cases "participant_sid_try_from (pi_sid info)") (simp_all add: participant_update_info_def)
  then have "sid = pi_sid info" by (simp add: participant_sid_try_from_def split: if_splits)
  note r = assms [unfolded participant_update_info_def sid this Let_def, simplified, THEN conjunct1, symmetric]
  show "pa_publications p' = pa_publications p" "pa_auto_subscribe p' = pa_auto_subscribe p"
    "pa_sid p' = pi_sid info" "pa_identity p' = pi_identity info"
    "pa_state p' = participant_state_of (pi_state info)" by (simp_all add: r)
  note e = assms [unfolded participant_update_info_def sid Let_def, simplified, THEN conjunct2, symmetric]
  show "published_in evs = []" "unpublished_in evs = []"
    by (subst e, intro map_filter_none, auto split: if_splits)+
qed

lemma track_views_cong: "pa_publications p' = pa_publications p \<Longrightarrow> track_views p' = track_views p"
  by (rule ext) (simp add: track_views_def)

lemma publications_ok_cong: "pa_publications p' = pa_publications p \<Longrightarrow> publications_ok p' = publications_ok p"
  by (simp add: publications_ok_def)

lemma keys_views: "set (map fst (pa_publications p)) = dom (track_views p)"
  by (simp add: track_views_def dom_def dom_map_of_conv_image_fst [symmetric])

lemma publish_listed_person:
  assumes "publish_listed t p = Some (p', evs)"
  shows "same_person p p'"
proof -
  obtain sid where sid: "track_sid_try_from (mi_sid t) = Some sid"
    using assms by (auto simp: publish_listed_def split: option.splits)
  show ?thesis
  proof (cases "get_track_publication sid p")
    case (Some pb)
    with assms sid show ?thesis
      by (auto simp: publish_listed_def put_publication_def same_person_def split: option.splits)
  next
    case None
    then obtain pb status where "add_publication pb p = (p', status)"
      using assms sid by (auto simp: publish_listed_def split: option.splits prod.splits)
    from add_publication_frame(1) [OF this] show ?thesis by (metis same_person_update)
  qed
qed

lemma publish_all_person: "publish_all ts p = Some (p', evs) \<Longrightarrow> same_person p p'"
proof (induction ts arbitrary: p p' evs)
  case (Cons t ts)
  from Cons.prems obtain q e1 e2 where "publish_listed t p = Some (q, e1)" "publish_all ts q = Some (p', e2)"
    by (auto split: option.splits)
  with Cons.IH publish_listed_person show ?case by (blast intro: same_person_trans)
qed simp

lemma remote_update_info_spec:
  assumes "publications_ok p" and "reorders ord" and "remote_update_info ord info p = Some (p', evs)"
  shows "publications_ok p'
    \<and> track_views p' sid = map_option (\<lambda>t. listed_view (pa_auto_subscribe p) t (track_views p sid))
        (listed_as (pi_tracks info) sid)
    \<and> distinct (published_in evs) \<and> set (published_in evs) = mi_sid ` set (pi_tracks info) - dom (track_views p)
    \<and> distinct (unpublished_in evs) \<and> set (unpublished_in evs) = dom (track_views p) - mi_sid ` set (pi_tracks info)"
    and "pa_sid p' = pi_sid info" and "pa_identity p' = pi_identity info"
    and "pa_state p' = participant_state_of (pi_state info)" and "pa_auto_subscribe p' = pa_auto_subscribe p"
proof -
  obtain q e1 where q: "participant_update_info info p = Some (q, e1)"
    using assms(3) by (cases "participant_update_info info p") (auto simp: remote_update_info_def)
  obtain r e2 where r: "publish_all (pi_tracks info) q = Some (r, e2)"
    using assms(3) q by (cases "publish_all (pi_tracks info) q") (auto simp: remote_update_info_def)
  let ?gone = "filter (\<lambda>sid. sid \<notin> mi_sid ` set (pi_tracks info)) (ord (map fst (pa_publications r)))"
  obtain e3 where u: "unpublish_all ?gone r = (p', e3)" and evs: "evs = e1 @ e2 @ e3"
    using assms(3) q r by (auto simp: remote_update_info_def split: prod.splits)
  note fq = participant_update_info_frame [OF q]
  have okq: "publications_ok q" using assms(1) publications_ok_cong [OF fq(1)] by simp
  have vq: "track_views q = track_views p" by (rule track_views_cong [OF fq(1)])
  note sr = publish_all_spec [OF okq r, unfolded vq fq(2)]
  then have okr: "publications_ok r" by simp
  have keys: "distinct (ord (map fst (pa_publications r))) \<and> set (ord (map fst (pa_publications r))) = dom (track_views r)"
    using assms(2) okr by (simp add: reorders_def publications_ok_def keys_views [symmetric])
  then have gone: "distinct ?gone" "set ?gone = dom (track_views r) - mi_sid ` set (pi_tracks info)" by auto
  note su = unpublish_all_spec [OF okr gone(1) u]
  have dr: "dom (track_views r) = dom (track_views p) \<union> mi_sid ` set (pi_tracks info)"
  proof (rule set_eqI)
    fix s
    have at_s: "track_views r s = (case listed_as (pi_tracks info) s of None \<Rightarrow> track_views p s
        | Some t \<Rightarrow> Some (listed_view (pa_auto_subscribe p) t (track_views p s)))" using sr by blast
    show "s \<in> dom (track_views r) \<longleftrightarrow> s \<in> dom (track_views p) \<union> mi_sid ` set (pi_tracks info)"
    proof (cases "listed_as (pi_tracks info) s")
      case None
      with at_s listed_as_None [of "pi_tracks info" s] show ?thesis by (simp add: domIff)
    next
      case (Some t)
      then have "s \<in> mi_sid ` set (pi_tracks info)" using listed_as_None [of "pi_tracks info" s] by simp
      with at_s Some show ?thesis by (simp add: domIff)
    qed
  qed
  have v: "track_views p' sid = map_option (\<lambda>t. listed_view (pa_auto_subscribe p) t (track_views p sid))
      (listed_as (pi_tracks info) sid)"
  proof (cases "sid \<in> mi_sid ` set (pi_tracks info)")
    case True
    then obtain t where t: "listed_as (pi_tracks info) sid = Some t"
      using listed_as_None [of "pi_tracks info" sid] by blast
    have "sid \<notin> set ?gone" using True by auto
    then have "track_views p' sid = track_views r sid" using su by (simp only: if_False)
    also have "\<dots> = Some (listed_view (pa_auto_subscribe p) t (track_views p sid))"
      using sr t by simp
    finally show ?thesis using t by simp
  next
    case False
    then have n: "listed_as (pi_tracks info) sid = None" by (simp add: listed_as_None)
    then have "track_views r sid = track_views p sid" using sr by simp
    moreover have "sid \<in> set ?gone \<or> track_views r sid = None" using False unfolding gone(2) by blast
    ultimately show ?thesis using su n by auto
  qed
  have "filter (\<lambda>sid. track_views r sid \<noteq> None) ?gone = ?gone"
    using gone(2) by (intro filter_True) auto
  then have un: "unpublished_in evs = ?gone" "published_in evs = published_in e2"
    using su sr fq(6,7) by (simp_all add: evs)
  have "dom (track_views r) - mi_sid ` set (pi_tracks info) = dom (track_views p) - mi_sid ` set (pi_tracks info)"
    using dr by blast
  then show "publications_ok p'
    \<and> track_views p' sid = map_option (\<lambda>t. listed_view (pa_auto_subscribe p) t (track_views p sid))
        (listed_as (pi_tracks info) sid)
    \<and> distinct (published_in evs) \<and> set (published_in evs) = mi_sid ` set (pi_tracks info) - dom (track_views p)
    \<and> distinct (unpublished_in evs) \<and> set (unpublished_in evs) = dom (track_views p) - mi_sid ` set (pi_tracks info)"
    using su sr v gone un by simp
  have "same_person q r" by (rule publish_all_person [OF r])
  then have "same_person q p'" using su same_person_trans by blast
  from same_personD [OF this] show "pa_sid p' = pi_sid info" "pa_identity p' = pi_identity info"
    "pa_state p' = participant_state_of (pi_state info)" "pa_auto_subscribe p' = pa_auto_subscribe p"
    by (simp_all add: fq)
qed

text \<open>
  C17. An update brings the publications of a participant into line with the server. Whatever the
  order in which the map is iterated, afterwards the participant has exactly the listed tracks,
  each with the last information listed for it; a track it had keeps its media and its
  subscription, a new one has none and is subscribed according to the options. Exactly the new
  ones are announced as published and exactly the ones no longer listed as unpublished, each once.
\<close>

theorem update_synchronizes_publications:
  assumes "publications_ok p" and "reorders ord" and "remote_update_info ord info p = Some (p', evs)"
  shows "publications_ok p'
    \<and> track_views p' sid = map_option (\<lambda>t. listed_view (pa_auto_subscribe p) t (track_views p sid))
        (listed_as (pi_tracks info) sid)
    \<and> distinct (published_in evs) \<and> set (published_in evs) = mi_sid ` set (pi_tracks info) - dom (track_views p)
    \<and> distinct (unpublished_in evs) \<and> set (unpublished_in evs) = dom (track_views p) - mi_sid ` set (pi_tracks info)"
  by (rule remote_update_info_spec(1) [OF assms])

lemma participant_update_info_None:
  "participant_update_info info p = None \<longleftrightarrow> participant_sid_try_from (pi_sid info) = None"
  by (simp add: participant_update_info_def Let_def split: option.split)

text \<open>An update panics exactly when one of its identifiers or types is malformed.\<close>

lemma update_panics_iff:
  "remote_update_info ord info p = None \<longleftrightarrow>
     participant_sid_try_from (pi_sid info) = None \<or> list_ex bad_track (pi_tracks info)"
proof (cases "participant_update_info info p")
  case None
  with participant_update_info_None [of info p] show ?thesis by (simp add: remote_update_info_def)
next
  case (Some r)
  obtain q e where r: "r = (q, e)" by (cases r)
  have "participant_sid_try_from (pi_sid info) \<noteq> None"
    using Some participant_update_info_None [of info p] by auto
  moreover have "remote_update_info ord info p = None \<longleftrightarrow> publish_all (pi_tracks info) q = None"
    using Some r by (auto simp: remote_update_info_def Let_def split: option.splits prod.splits)
  ultimately show ?thesis using publish_all_None [of "pi_tracks info" q] by (auto simp: list_ex_iff)
qed

section \<open>The encryption status\<close>

fun status_sent :: "participant_event \<Rightarrow> bool option" where
  "status_sent (Pe_EncryptionStatusChanged b) = Some b"
| "status_sent _ = None"

definition shown_encrypted :: "participant \<Rightarrow> bool" where
  "shown_encrypted p = (pa_publications p \<noteq> [] \<and> list_all (\<lambda>(sid, pb). pb_encryption_type pb \<noteq> E2ee_None) (pa_publications p)
     \<and> pa_is_data_encrypted p \<noteq> Some False)"

lemma refresh_encryption_shown:
  assumes "refresh_encryption p = (p', evs)"
  shows "pa_is_encrypted p' = shown_encrypted p'"
proof -
  have "pa_is_encrypted p' = (pa_publications p \<noteq> [] \<and> list_all (\<lambda>(sid, pb). pb_encryption_type pb \<noteq> E2ee_None) (pa_publications p)
     \<and> pa_is_data_encrypted p \<noteq> Some False)"
    using assms by (cases "pa_is_data_encrypted p")
      (auto simp: refresh_encryption_def update_encryption_status_def status_of_def Let_def list_all_iff
        split: if_splits)
  moreover have "pa_publications p' = pa_publications p" "pa_is_data_encrypted p' = pa_is_data_encrypted p"
    using refresh_encryption_frame [OF assms] by (metis participant.select_convs(15,17) participant.surjective participant.update_convs(16))+
  ultimately show ?thesis by (simp add: shown_encrypted_def)
qed

lemma publish_listed_known:
  assumes "publish_listed t p = Some (p', evs)" and "track_views p (mi_sid t) \<noteq> None"
  shows "pa_is_encrypted p' = pa_is_encrypted p \<and> List.map_filter status_sent evs = []"
proof -
  have silent: "e \<in> set (publication_callback psid pb ev) \<Longrightarrow> status_sent e = None" for e psid pb ev
    by (cases ev) (simp_all add: publication_callback_def)
  show ?thesis
    using assms
    by (auto simp: publish_listed_def get_track_publication_def track_views_def put_publication_def
      publication_callbacks_def dest: track_sid_try_from_Some silent intro!: map_filter_none split: option.splits)
qed

lemma publish_all_known:
  assumes "publications_ok p" and "publish_all ts p = Some (p', evs)"
    and "mi_sid ` set ts \<subseteq> dom (track_views p)"
  shows "pa_is_encrypted p' = pa_is_encrypted p \<and> List.map_filter status_sent evs = []"
  using assms
proof (induction ts arbitrary: p p' evs)
  case Nil
  then show ?case by (simp add: map_filter_simps)
next
  case (Cons t ts)
  from Cons.prems(2) obtain q e1 e2 where q: "publish_listed t p = Some (q, e1)"
    and rest: "publish_all ts q = Some (p', e2)" and evs: "evs = e1 @ e2"
    by (auto split: option.splits)
  note s = publish_listed_spec [OF Cons.prems(1) q]
  then have "publications_ok q" by simp
  moreover have "mi_sid ` set ts \<subseteq> dom (track_views q)" using s Cons.prems(3) by auto
  ultimately have "pa_is_encrypted p' = pa_is_encrypted q \<and> List.map_filter status_sent e2 = []"
    using Cons.IH rest by blast
  moreover have "track_views p (mi_sid t) \<noteq> None" using Cons.prems(3) by auto
  note publish_listed_known [OF q this]
  ultimately show ?case by (simp add: evs)
qed

text \<open>
  C25. The encryption status of a participant is not kept up to date. The status is computed when a
  track is added or removed. An update that changes how the tracks it has are encrypted changes
  neither the status nor announces anything: a participant whose tracks are all reported as
  unencrypted is still shown as encrypted.
\<close>

theorem encryption_status_stale:
  assumes "publications_ok p" and "reorders ord" and "remote_update_info ord info p = Some (p', evs)"
    and "mi_sid ` set (pi_tracks info) = dom (track_views p)"
  shows "pa_is_encrypted p' = pa_is_encrypted p \<and> List.map_filter status_sent evs = []"
proof -
  obtain q e1 where q: "participant_update_info info p = Some (q, e1)"
    using assms(3) by (cases "participant_update_info info p") (auto simp: remote_update_info_def)
  obtain r e2 where r: "publish_all (pi_tracks info) q = Some (r, e2)"
    using assms(3) q by (cases "publish_all (pi_tracks info) q") (auto simp: remote_update_info_def)
  let ?gone = "filter (\<lambda>sid. sid \<notin> mi_sid ` set (pi_tracks info)) (ord (map fst (pa_publications r)))"
  obtain e3 where u: "unpublish_all ?gone r = (p', e3)" and evs: "evs = e1 @ e2 @ e3"
    using assms(3) q r by (auto simp: remote_update_info_def split: prod.splits)
  note fq = participant_update_info_frame [OF q]
  have okq: "publications_ok q" using assms(1) publications_ok_cong [OF fq(1)] by simp
  have vq: "track_views q = track_views p" by (rule track_views_cong [OF fq(1)])
  note sr = publish_all_spec [OF okq r, unfolded vq fq(2)]
  have dr: "dom (track_views r) \<subseteq> mi_sid ` set (pi_tracks info)"
  proof
    fix s assume s: "s \<in> dom (track_views r)"
    have at_s: "track_views r s = (case listed_as (pi_tracks info) s of None \<Rightarrow> track_views p s
        | Some t \<Rightarrow> Some (listed_view (pa_auto_subscribe p) t (track_views p s)))" using sr by blast
    show "s \<in> mi_sid ` set (pi_tracks info)"
    proof (rule ccontr)
      assume n: "s \<notin> mi_sid ` set (pi_tracks info)"
      then have "track_views r s = track_views p s" using at_s by (simp add: listed_as_None [THEN iffD2])
      with s n assms(4) show False by (simp add: domIff)
    qed
  qed
  have "set (ord (map fst (pa_publications r))) = dom (track_views r)"
    using assms(2) sr by (simp add: reorders_def publications_ok_def keys_views [symmetric])
  with dr have "?gone = []" by (auto simp: filter_empty_conv)
  then have same: "p' = r" "e3 = []" using u by simp_all
  have "pa_is_encrypted q = pa_is_encrypted p \<and> List.map_filter status_sent e1 = []"
    using q by (auto simp: participant_update_info_def Let_def map_filter_simps split: option.splits)
  moreover have "pa_is_encrypted r = pa_is_encrypted q \<and> List.map_filter status_sent e2 = []"
    using publish_all_known [OF okq r] assms(4) vq by simp
  ultimately show ?thesis by (simp add: same evs map_filter_simps)
qed

section \<open>Calls on a publication\<close>

text \<open>The media of a publication, and what its events say of it.\<close>

lemma set_track_keeps:
  assumes "set_track track pb = (pb', evs)" and "\<forall>t. track = Some t \<longrightarrow> tk_sid t = pb_sid pb"
  shows "pb_sid pb' = pb_sid pb" and "pb_track pb' = track" and "pb_proto_info pb' = pb_proto_info pb"
  using assms by (auto simp: set_track_def Let_def split: option.splits)

lemma publication_call_keeps:
  assumes "publication_call call pb = Some (pb', evs)" and "mi_sid (pb_proto_info pb) = pb_sid pb"
    and "\<forall>t. pb_track pb = Some t \<longrightarrow> tk_sid t = pb_sid pb"
  shows "pb_sid pb' = pb_sid pb \<and> mi_sid (pb_proto_info pb') = pb_sid pb \<and> (\<forall>t. pb_track pb' = Some t \<longrightarrow> tk_sid t = pb_sid pb)"
proof (cases call)
  case (Set_Subscribed b)
  define q where "q = pb\<lparr>pb_subscribed := b, pb_allowed := (if b then True else pb_allowed pb)\<rparr>"
  have q: "pb_sid q = pb_sid pb" "pb_proto_info q = pb_proto_info pb" "pb_track q = pb_track pb" by (simp_all add: q_def)
  obtain r es where r: "set_track None q = (r, es)" by fastforce
  have "pb' = (if b then q else r)"
    using assms(1) r by (auto simp: Set_Subscribed publication_call_def set_subscribed_def Let_def q_def split: prod.splits if_splits)
  with set_track_keeps [OF r] assms(2,3) q show ?thesis by simp
next
  case (Set_Enabled b)
  with assms show ?thesis
    by (auto simp: publication_call_def set_track_enabled_def split: option.splits if_splits)
next
  case (Set_Dimensions width height)
  show ?thesis
  proof (cases "pb_track pb = None \<or> (width, height) = pb_dimension pb")
    case True
    with assms Set_Dimensions show ?thesis
      by (auto simp: publication_call_def update_video_dimensions_def Let_def split: if_splits)
  next
    case False
    then obtain es where u: "publication_update_info ((pb_proto_info pb)\<lparr>mi_width := width, mi_height := height\<rparr>) pb = Some (pb', es)"
      using assms(1) by (auto simp: Set_Dimensions publication_call_def update_video_dimensions_def Let_def)
    from publication_update_info_view(1,2,5) [OF u] assms(2,3) show ?thesis by simp
  qed
qed

lemma put_publication_ok:
  assumes "publications_ok p" and "map_of (pa_publications p) sid = Some pb" and "pb_sid pb' = sid"
    and "mi_sid (pb_proto_info pb') = sid" and "\<forall>t. pb_track pb' = Some t \<longrightarrow> tk_sid t = sid"
  shows "publications_ok (put_publication sid pb' p)"
proof -
  have "track_sid_try_from sid = Some sid" using assms(1,2) by (simp add: publications_ok_def)
  then show ?thesis
    by (rule publications_ok_update [OF assms(1,3,4) _ assms(5)]) (simp add: put_publication_def)
qed

lemma put_publication_person [simp]: "same_person p (put_publication sid pb p)"
  by (simp add: same_person_def put_publication_def)

lemma participant_call_keeps:
  assumes "publications_ok p" and "participant_call sid call p = Some (p', evs)"
  shows "publications_ok p' \<and> same_person p p'"
proof (cases "map_of (pa_publications p) sid")
  case None
  with assms show ?thesis by (simp add: participant_call_def get_track_publication_def)
next
  case (Some pb)
  then obtain pb' es where c: "publication_call call pb = Some (pb', es)" and p': "p' = put_publication sid pb' p"
    using assms(2) by (auto simp: participant_call_def get_track_publication_def split: option.splits)
  have pb: "pb_sid pb = sid" "mi_sid (pb_proto_info pb) = sid" "\<forall>t. pb_track pb = Some t \<longrightarrow> tk_sid t = sid"
    using assms(1) Some by (simp_all add: publications_ok_def)
  with publication_call_keeps [OF c] put_publication_ok [OF assms(1) Some] show ?thesis by (simp add: p')
qed

text \<open>The track that is made for a publication takes its kind and source, and never panics.\<close>

lemma subscribed_info_kind [simp]:
  "track_kind_try_from (track_type_of (mi_type (subscribed_info pb))) = Some (pb_kind pb)"
  "track_source_of (mi_source (subscribed_info pb)) = pb_source pb"
  by (cases "pb_kind pb"; simp add: subscribed_info_def) (cases "pb_source pb"; simp add: subscribed_info_def)

lemma subscribed_track:
  assumes "track_sid_try_from (pb_sid pb) = Some (pb_sid pb)"
  shows "track_update_info (subscribed_info pb) (remote_media_new (pb_sid pb) (pb_name pb) (pb_kind pb) endpoint b)
     = Some \<lparr>tk_sid = pb_sid pb, tk_name = pb_name pb, tk_kind = pb_kind pb, tk_source = pb_source pb,
         tk_muted = pb_muted pb, tk_enabled = (if pb_muted pb then False else b), tk_endpoint = endpoint\<rparr>"
proof -
  have i: "mi_sid (subscribed_info pb) = pb_sid pb" "mi_name (subscribed_info pb) = pb_name pb"
    "mi_muted (subscribed_info pb) = pb_muted pb" by (simp_all add: subscribed_info_def)
  show ?thesis
    using assms by (cases "pb_muted pb")
      (simp_all add: track_update_info_def i track_set_muted_def remote_media_new_def del: track_type_of.simps track_source_of.simps)
qed

lemma add_subscribed_media_track_keeps:
  assumes "publications_ok p" and "add_subscribed_media_track sid kind endpoint b p = Some (p', evs)"
  shows "publications_ok p' \<and> same_person p p'"
proof (cases "map_of (pa_publications p) sid")
  case None
  with assms show ?thesis by (simp add: add_subscribed_media_track_def get_track_publication_def)
next
  case (Some pb)
  have pb: "pb_sid pb = sid" "mi_sid (pb_proto_info pb) = sid" "track_sid_try_from sid = Some sid"
    using assms(1) Some by (simp_all add: publications_ok_def)
  obtain t where t: "track_update_info (subscribed_info pb) (remote_media_new (pb_sid pb) (pb_name pb) (pb_kind pb) endpoint b) = Some t"
      "tk_sid t = sid"
    using subscribed_track [of pb endpoint b] pb(1,3) by simp
  obtain q status where q: "add_publication pb p = (q, status)" by fastforce
  obtain pb' es where s: "set_track (Some (t\<lparr>tk_enabled := True\<rparr>)) pb = (pb', es)" by fastforce
  have p': "p' = put_publication (pb_sid pb') pb' q"
    using assms(2) Some pb(1) t(1) q s
    by (auto simp: add_subscribed_media_track_def get_track_publication_def Let_def split: if_splits)
  note k = set_track_keeps [OF s, unfolded pb(1)]
  have k': "pb_sid pb' = sid" "pb_track pb' = Some (t\<lparr>tk_enabled := True\<rparr>)" "pb_proto_info pb' = pb_proto_info pb"
    using k t(2) by simp_all
  note frame = add_publication_frame(1) [OF q]
  have pq: "pa_publications q = AList.update sid pb (pa_publications p)"
    by (subst frame) (simp add: pb(1))
  have "publications_ok q"
    by (rule publications_ok_update [OF assms(1) pb _ pq]) (use assms(1) Some in \<open>simp add: publications_ok_def\<close>)
  moreover have "map_of (pa_publications q) sid = Some pb" by (simp add: pq update_conv')
  ultimately have "publications_ok (put_publication sid pb' q)"
    by (rule put_publication_ok) (simp_all add: k' pb(2) t(2))
  moreover have "same_person p q" by (subst frame) simp
  then have "same_person p (put_publication sid pb' q)" by (rule same_person_trans) simp
  ultimately show ?thesis by (simp add: p' k'(1))
qed

section \<open>Muting a local publication\<close>

text \<open>
  \<^verbatim>\<open>publication/local.rs\<close> with \<^verbatim>\<open>set_muted\<close> of the track, whose handler \<^verbatim>\<open>set_track\<close> has tied to
  the publication's own. Each call of the publication's handler sends a request to the server
  (and dispatches an event); the requests sent are the result.
\<close>

record local_media =
  lm_muted :: bool
  lm_rtc_enabled :: bool

definition local_track_set_muted :: "bool \<Rightarrow> local_media \<Rightarrow> local_media \<times> bool list" where
  "local_track_set_muted muted t =
     (if lm_muted t = muted then (t, [])
      else (t\<lparr>lm_rtc_enabled := \<not> muted, lm_muted := muted\<rparr>, [muted]))"

definition local_publication_mute :: "bool \<Rightarrow> local_media option \<Rightarrow> local_media option \<times> bool list" where
  "local_publication_mute muted track =
     (case track of
        None \<Rightarrow> (None, [muted])
      | Some t \<Rightarrow> let (t, requests) = local_track_set_muted muted t in (Some t, requests @ [muted]))"

text \<open>
  Muting a published track that is not muted asks the server twice.
\<close>

lemma mute_requested_twice:
  "lm_muted t \<noteq> muted \<Longrightarrow>
     local_publication_mute muted (Some t) = (Some \<lparr>lm_muted = muted, lm_rtc_enabled = \<not> muted\<rparr>, [muted, muted])"
  by (cases t) (simp add: local_publication_mute_def local_track_set_muted_def)

section \<open>An example\<close>

definition example_track :: "string \<Rightarrow> int \<Rightarrow> media_info" where
  "example_track sid encryption =
     \<lparr>mi_sid = sid, mi_type = 0, mi_name = ''mic'', mi_muted = False, mi_width = 0, mi_height = 0,
      mi_simulcast = False, mi_source = 2, mi_mime_type = [], mi_encryption = encryption, mi_audio_features = []\<rparr>"

definition example_participant :: "string \<Rightarrow> string \<Rightarrow> int \<Rightarrow> media_info list \<Rightarrow> participant_msg" where
  "example_participant sid identity state tracks =
     \<lparr>pi_sid = sid, pi_identity = identity, pi_state = state, pi_tracks = tracks, pi_metadata = [],
      pi_joined_at_ms = 0, pi_name = [], pi_permission = None, pi_kind = 0, pi_attributes = [],
      pi_disconnect_reason = Unknown_Reason, pi_kind_details = []\<rparr>"

definition example_published :: participant where
  "example_published = fst (add_publication (the (publication_new (example_track ''TR_a'' 1) True))
     (the (participant_new (example_participant ''PA_1'' ''bob'' 2 []) True)))"

lemma example_publication_state:
  "map fst (pa_publications example_published) = [''TR_a'']" "pa_is_encrypted example_published"
  "publications_ok example_published"
  by (simp_all add: example_published_def add_publication_def refresh_encryption_def update_encryption_status_def
    status_of_def Let_def participant_new_def example_participant_def publication_new_def example_track_def
    participant_sid_try_from_def track_sid_try_from_def starts_with_def PARTICIPANT_PREFIX_def TRACK_PREFIX_def
    publications_ok_def)

lemma reorders_id: "reorders id" and reorders_rev: "reorders rev"
  by (simp_all add: reorders_def)

lemma example_update:
  "\<exists>p' evs. remote_update_info rev (example_participant ''PA_1'' ''bob'' 2 [example_track sid t]) p = Some (p', evs)"
  if "sid = ''TR_a'' \<or> sid = ''TR_b''"
proof -
  have "remote_update_info rev (example_participant ''PA_1'' ''bob'' 2 [example_track sid t]) p \<noteq> None"
    unfolding update_panics_iff using that
    by (auto simp: example_participant_def example_track_def bad_track_def participant_sid_try_from_def
      track_sid_try_from_def starts_with_def PARTICIPANT_PREFIX_def TRACK_PREFIX_def)
  then show ?thesis by auto
qed

theorem update_synchronizes_publications_witness:
  "\<exists>p' evs. remote_update_info rev (example_participant ''PA_1'' ''bob'' 2 [example_track ''TR_b'' 0]) example_published
      = Some (p', evs)
    \<and> track_views p' ''TR_a'' = None \<and> track_views p' ''TR_b'' = Some (example_track ''TR_b'' 0, None, True)
    \<and> set (published_in evs) = {''TR_b''} \<and> set (unpublished_in evs) = {''TR_a''}"
proof -
  let ?info = "example_participant ''PA_1'' ''bob'' 2 [example_track ''TR_b'' 0]"
  obtain p' evs where r: "remote_update_info rev ?info example_published = Some (p', evs)"
    using example_update [of "''TR_b''"] by blast
  have auto: "pa_auto_subscribe example_published"
    by (simp add: example_published_def add_publication_def refresh_encryption_def Let_def
      participant_new_def example_participant_def participant_sid_try_from_def starts_with_def PARTICIPANT_PREFIX_def)
  have d: "dom (track_views example_published) = {''TR_a''}"
    using example_publication_state(1) keys_views [of example_published] by simp
  then have "''TR_b'' \<notin> dom (track_views example_published)" by simp
  then have n: "track_views example_published ''TR_b'' = None" unfolding domIff by blast
  have l: "listed_as (pi_tracks ?info) ''TR_a'' = None" "listed_as (pi_tracks ?info) ''TR_b'' = Some (example_track ''TR_b'' 0)"
    by (simp_all add: listed_as_def example_participant_def example_track_def)
  have sids: "mi_sid ` set (pi_tracks ?info) = {''TR_b''}"
    by (simp add: example_participant_def example_track_def)
  note u = update_synchronizes_publications [OF example_publication_state(3) reorders_rev r]
  from u [of "''TR_a''"] u [of "''TR_b''"] show ?thesis
    by (intro exI [of _ p'] exI [of _ evs]) (simp add: r l n d auto listed_view_def sids)
qed

theorem encryption_status_stale_witness:
  "\<exists>p' evs. remote_update_info rev (example_participant ''PA_1'' ''bob'' 2 [example_track ''TR_a'' 0]) example_published
      = Some (p', evs)
    \<and> pa_is_encrypted p' \<and> List.map_filter status_sent evs = []"
proof -
  let ?info = "example_participant ''PA_1'' ''bob'' 2 [example_track ''TR_a'' 0]"
  obtain p' evs where r: "remote_update_info rev ?info example_published = Some (p', evs)"
    using example_update [of "''TR_a''"] by blast
  have "mi_sid ` set (pi_tracks ?info) = dom (track_views example_published)"
    using example_publication_state(1) keys_views [of example_published]
    by (simp add: example_participant_def example_track_def)
  from encryption_status_stale [OF example_publication_state(3) reorders_rev r this] example_publication_state(2) r
  show ?thesis by blast
qed

end
