(* ===== verification/Room_Session.thy ===== *)
theory Room_Session
  imports Participants E2ee_Manager
begin

text \<open>
  The room, \<^verbatim>\<open>room/mod.rs\<close>: the handlers of the engine's events, the participants they create,
  update and remove, the state of the connection, and the events that the room dispatches.
  Participants are shared objects: events and maps hold references into \<open>rs_objects\<close>, and an
  object stays when its participant has left. A handler gives \<open>None\<close> when it panics.
\<close>

section \<open>State\<close>

datatype connection_state = Conn_Disconnected | Conn_Connected | Conn_Reconnecting

record room_info =
  ri_sid :: "string option"
  ri_name :: string
  ri_metadata :: string
  ri_state :: connection_state
  ri_lossy_threshold :: nat
  ri_reliable_threshold :: nat
  ri_empty_timeout :: u32
  ri_departure_timeout :: u32
  ri_max_participants :: u32
  ri_creation_time :: int
  ri_num_publishers :: u32
  ri_num_participants :: u32
  ri_active_recording :: bool

text \<open>\<^verbatim>\<open>proto::Room\<close>, the fields that are read.\<close>

record room_msg =
  rg_sid :: string
  rg_name :: string
  rg_empty_timeout :: u32
  rg_departure_timeout :: u32
  rg_max_participants :: u32
  rg_creation_time_ms :: int
  rg_metadata :: string
  rg_num_participants :: u32
  rg_num_publishers :: u32
  rg_active_recording :: bool

datatype who = Local_Participant | Remote_Participant nat

datatype room_event =
    Re_ParticipantConnected nat
  | Re_ParticipantActive nat
  | Re_ParticipantDisconnected nat
  | Re_TrackSubscribed nat string
  | Re_TrackUnsubscribed nat string
  | Re_TrackSubscriptionFailed nat string
  | Re_TrackPublished nat string
  | Re_TrackUnpublished nat string
  | Re_TrackMuted who string
  | Re_TrackUnmuted who string
  | Re_RoomMetadataChanged string string
  | Re_MetadataChanged who string string
  | Re_NameChanged who string string
  | Re_AttributesChanged who "string \<rightharpoonup> string"
  | Re_EncryptionStatusChanged who bool
  | Re_PermissionChanged who "permission option"
  | Re_ActiveSpeakersChanged "who list"
  | Re_ConnectionQualityChanged who connection_quality
  | Re_DataReceived bytes "string option" data_packet_kind "nat option"
  | Re_TranscriptionReceived "who option" bool "transcription_segment list"
  | Re_SipDTMFReceived u32 "string option" "nat option"
  | Re_ChatMessage room_chat_message nat
  | Re_ConnectionStateChanged connection_state
  | Re_Disconnected disconnect_reason
  | Re_Reconnecting
  | Re_Reconnected
  | Re_ThresholdChanged data_packet_kind nat
  | Re_RoomUpdated room_info
  | Re_Moved room_info
  | Re_ParticipantsUpdated "who list"
  | Re_TokenRefreshed string

text \<open>
  \<open>rs_waiting\<close> holds the tasks that wait for the publication of a track whose media has arrived,
  \<open>rs_closing\<close> the reasons of the spawned calls of \<^verbatim>\<open>close\<close>, \<open>rs_restarted\<close> counts the
  tasks of \<^verbatim>\<open>handle_restarted\<close> that still republish, \<open>rs_requests\<close> the requests to the server.
\<close>

record media_wait =
  mw_participant :: nat
  mw_sid :: string
  mw_kind :: track_kind
  mw_endpoint :: nat
  mw_enabled :: bool

record room_session =
  rs_info :: room_info
  rs_local :: participant
  rs_objects :: "participant list"
  rs_remote :: "(string \<times> nat) list"
  rs_active_speakers :: "who list"
  rs_e2ee :: e2ee_manager
  rs_auto_subscribe :: bool
  rs_events :: "room_event list"
  rs_requests :: "participant_event list"
  rs_waiting :: "media_wait list"
  rs_closing :: "disconnect_reason list"
  rs_restarted :: nat

definition room_dispatch :: "room_event \<Rightarrow> room_session \<Rightarrow> room_session" where
  "room_dispatch ev s = s\<lparr>rs_events := rs_events s @ [ev]\<rparr>"

text \<open>
  What the closures of \<^verbatim>\<open>create_participant\<close> (and, for the local participant, of \<^verbatim>\<open>connect\<close>) do with
  the events of a participant.
\<close>

definition participant_callback :: "nat \<Rightarrow> room_session \<Rightarrow> participant_event \<Rightarrow> room_session" where
  "participant_callback r s ev =
     (let identity = pa_identity (rs_objects s ! r); w = Remote_Participant r
      in case ev of
        Pe_NameChanged old new \<Rightarrow> room_dispatch (Re_NameChanged w old new) s
      | Pe_MetadataChanged old new \<Rightarrow> room_dispatch (Re_MetadataChanged w old new) s
      | Pe_AttributesChanged changed \<Rightarrow> room_dispatch (Re_AttributesChanged w changed) s
      | Pe_PermissionChanged p \<Rightarrow> room_dispatch (Re_PermissionChanged w p) s
      | Pe_EncryptionStatusChanged b \<Rightarrow> room_dispatch (Re_EncryptionStatusChanged w b) s
      | Pe_TrackPublished pb \<Rightarrow> room_dispatch (Re_TrackPublished r (pb_sid pb)) s
      | Pe_TrackUnpublished pb \<Rightarrow> room_dispatch (Re_TrackUnpublished r (pb_sid pb)) s
      | Pe_TrackSubscribed pb t \<Rightarrow>
          room_dispatch (Re_TrackSubscribed r (pb_sid pb))
            (s\<lparr>rs_e2ee := on_track_subscribed identity (pb_sid pb) (tk_endpoint t) (pb_encryption_type pb) (rs_e2ee s)\<rparr>)
      | Pe_TrackUnsubscribed pb t \<Rightarrow>
          room_dispatch (Re_TrackUnsubscribed r (pb_sid pb))
            (s\<lparr>rs_e2ee := on_track_unsubscribed identity (pb_sid pb) (rs_e2ee s)\<rparr>)
      | Pe_TrackSubscriptionFailed sid \<Rightarrow> room_dispatch (Re_TrackSubscriptionFailed r sid) s
      | Pe_TrackMuted pb \<Rightarrow> room_dispatch (Re_TrackMuted w (pb_sid pb)) s
      | Pe_TrackUnmuted pb \<Rightarrow> room_dispatch (Re_TrackUnmuted w (pb_sid pb)) s
      | request \<Rightarrow> s\<lparr>rs_requests := rs_requests s @ [request]\<rparr>)"

definition local_callback :: "room_session \<Rightarrow> participant_event \<Rightarrow> room_session" where
  "local_callback s ev =
     (case ev of
        Pe_NameChanged old new \<Rightarrow> room_dispatch (Re_NameChanged Local_Participant old new) s
      | Pe_MetadataChanged old new \<Rightarrow> room_dispatch (Re_MetadataChanged Local_Participant old new) s
      | Pe_AttributesChanged changed \<Rightarrow> room_dispatch (Re_AttributesChanged Local_Participant changed) s
      | Pe_PermissionChanged p \<Rightarrow> room_dispatch (Re_PermissionChanged Local_Participant p) s
      | _ \<Rightarrow> s)"

text \<open>An operation on an object, with the callbacks of its events.\<close>

definition with_object ::
    "nat \<Rightarrow> (participant \<times> participant_event list) \<Rightarrow> room_session \<Rightarrow> room_session" where
  "with_object r result s =
     foldl (participant_callback r) (s\<lparr>rs_objects := (rs_objects s)[r := fst result]\<rparr>) (snd result)"

definition update_local :: "participant_msg \<Rightarrow> room_session \<Rightarrow> room_session option" where
  "update_local info s =
     map_option (\<lambda>(p, evs). foldl local_callback (s\<lparr>rs_local := p\<rparr>) evs)
       (participant_update_info info (rs_local s))"

section \<open>Participants of the room\<close>

definition get_participant_by_identity :: "string \<Rightarrow> room_session \<Rightarrow> nat option" where
  "get_participant_by_identity identity s = map_of (rs_remote s) identity"

definition get_participant_by_sid ::
    "(string list \<Rightarrow> string list) \<Rightarrow> string \<Rightarrow> room_session \<Rightarrow> nat option" where
  "get_participant_by_sid ord sid s =
     List.find (\<lambda>r. pa_sid (rs_objects s ! r) = sid)
       (map (\<lambda>k. the (map_of (rs_remote s) k)) (ord (map fst (rs_remote s))))"

definition get_local_or_remote_participant :: "string \<Rightarrow> room_session \<Rightarrow> who option" where
  "get_local_or_remote_participant identity s =
     (if identity = pa_identity (rs_local s) then Some Local_Participant
      else map_option Remote_Participant (get_participant_by_identity identity s))"

text \<open>\<^verbatim>\<open>create_participant\<close>; the information is that of the message.\<close>

definition create_participant :: "participant_msg \<Rightarrow> room_session \<Rightarrow> (nat \<times> room_session) option" where
  "create_participant info s =
     map_option (\<lambda>p. (length (rs_objects s),
         s\<lparr>rs_objects := rs_objects s @ [p],
           rs_remote := AList.update (pi_identity info) (length (rs_objects s)) (rs_remote s)\<rparr>))
       (participant_new info (rs_auto_subscribe s))"

definition handle_participant_disconnect ::
    "(string list \<Rightarrow> string list) \<Rightarrow> nat \<Rightarrow> room_session \<Rightarrow> room_session" where
  "handle_participant_disconnect ord r s =
     (let p = rs_objects s ! r;
          s = with_object r (unpublish_all (ord (map fst (pa_publications p))) p) s;
          s = s\<lparr>rs_remote := AList.delete (pa_identity (rs_objects s ! r)) (rs_remote s)\<rparr>
      in room_dispatch (Re_ParticipantDisconnected r) s)"

text \<open>\<^verbatim>\<open>RemoteParticipant::update_info\<close> on an object of the room.\<close>

definition update_remote ::
    "(string list \<Rightarrow> string list) \<Rightarrow> participant_msg \<Rightarrow> nat \<Rightarrow> room_session \<Rightarrow> room_session option" where
  "update_remote ord info r s =
     map_option (\<lambda>result. with_object r result s) (remote_update_info ord info (rs_objects s ! r))"

text \<open>One update, with the participants to be reported as updated.\<close>

definition participant_update_one ::
    "(string list \<Rightarrow> string list) \<Rightarrow> participant_msg \<Rightarrow> room_session \<Rightarrow> (who list \<times> room_session) option" where
  "participant_update_one ord info s =
     (case participant_sid_try_from (pi_sid info) of
        None \<Rightarrow> None
      | Some sid \<Rightarrow>
          if sid = pa_sid (rs_local s) \<or> pi_identity info = pa_identity (rs_local s)
          then map_option (\<lambda>s. ([Local_Participant], s)) (update_local info s)
          else
            let s = (case get_participant_by_identity (pi_identity info) s of
                  None \<Rightarrow> s
                | Some r \<Rightarrow>
                    if pa_sid (rs_objects s ! r) \<noteq> sid then handle_participant_disconnect ord r s else s)
            in case get_participant_by_sid ord sid s of
                 Some r \<Rightarrow>
                   if pi_state info = DISCONNECTED_STATE
                   then map_option (\<lambda>s. ([], handle_participant_disconnect ord r s)) (update_remote ord info r s)
                   else
                     let already_active = (pa_state (rs_objects s ! r) = P_Active)
                     in map_option (\<lambda>s. ([Remote_Participant r],
                            if \<not> already_active \<and> pa_state (rs_objects s ! r) = P_Active
                            then room_dispatch (Re_ParticipantActive r) s else s))
                          (update_remote ord info r s)
               | None \<Rightarrow>
                   if pi_state info = DISCONNECTED_STATE then Some ([], s)
                   else
                     (case create_participant info s of
                        None \<Rightarrow> None
                      | Some (r, s) \<Rightarrow>
                          let s = room_dispatch (Re_ParticipantConnected r) s;
                              s = (if pa_state (rs_objects s ! r) = P_Active
                                   then room_dispatch (Re_ParticipantActive r) s else s)
                          in map_option (\<lambda>s. ([], s)) (update_remote ord info r s)))"

fun participant_update_loop ::
    "(string list \<Rightarrow> string list) \<Rightarrow> participant_msg list \<Rightarrow> room_session \<Rightarrow> (who list \<times> room_session) option" where
  "participant_update_loop ord [] s = Some ([], s)"
| "participant_update_loop ord (info # infos) s =
     (case participant_update_one ord info s of
        None \<Rightarrow> None
      | Some (ws, s) \<Rightarrow> map_option (\<lambda>(ws', s). (ws @ ws', s)) (participant_update_loop ord infos s))"

definition handle_participant_update ::
    "(string list \<Rightarrow> string list) \<Rightarrow> participant_msg list \<Rightarrow> room_session \<Rightarrow> room_session option" where
  "handle_participant_update ord updates s =
     map_option (\<lambda>(participants, s).
         if participants \<noteq> [] then room_dispatch (Re_ParticipantsUpdated participants) s else s)
       (participant_update_loop ord updates s)"

text \<open>
  The identifier of a stream is \<^verbatim>\<open>participant|stream\<close>. In the mode of a single peer connection the
  SID of the track is that of the session's map, if it has one for the transceiver; otherwise it is
  the stream's, if that looks like a SID.
\<close>

fun split_bar :: "string \<Rightarrow> string list" where
  "split_bar [] = [[]]"
| "split_bar (c # cs) = (if c = CHR ''|'' then [] # split_bar cs
     else (case split_bar cs of [] \<Rightarrow> [[c]] | w # ws \<Rightarrow> (c # w) # ws))"

definition unpack_stream_id :: "string \<Rightarrow> (string \<times> string) option" where
  "unpack_stream_id stream_id = (case split_bar stream_id of [a, b] \<Rightarrow> Some (a, b) | _ \<Rightarrow> None)"

definition resolve_track_id :: "bool \<Rightarrow> string option \<Rightarrow> string \<Rightarrow> string \<Rightarrow> string" where
  "resolve_track_id single_pc mapped stream_id track_id =
     (if single_pc then (case mapped of None \<Rightarrow> track_id | Some resolved \<Rightarrow> resolved)
      else if starts_with stream_id ''TR'' then stream_id else track_id)"

definition handle_media_track ::
    "(string list \<Rightarrow> string list) \<Rightarrow> bool \<Rightarrow> string option \<Rightarrow> string \<Rightarrow> string \<Rightarrow> track_kind \<Rightarrow> nat \<Rightarrow> bool \<Rightarrow>
     room_session \<Rightarrow> room_session option" where
  "handle_media_track ord single_pc mapped lk_stream_id track_id kind endpoint enabled s =
     (case unpack_stream_id lk_stream_id of
        None \<Rightarrow> Some s
      | Some (participant_sid, stream_id) \<Rightarrow>
          (case participant_sid_try_from participant_sid of
             None \<Rightarrow> None
           | Some participant_sid \<Rightarrow>
               (case track_sid_try_from (resolve_track_id single_pc mapped stream_id track_id) of
                  None \<Rightarrow> Some s
                | Some track_sid \<Rightarrow>
                    (case get_participant_by_sid ord participant_sid s of
                       None \<Rightarrow> Some s
                     | Some r \<Rightarrow>
                         Some (s\<lparr>rs_waiting := rs_waiting s @
                           [\<lparr>mw_participant = r, mw_sid = track_sid, mw_kind = kind, mw_endpoint = endpoint,
                             mw_enabled = enabled\<rparr>]\<rparr>)))))"

text \<open>
  A task that waits looks for the publication again, or its time is over (also when the publication
  has come after it last looked). The participant may have left the room; a panic ends only the task.
\<close>

definition media_track_wait :: "nat \<Rightarrow> bool \<Rightarrow> room_session \<Rightarrow> room_session" where
  "media_track_wait i expired s =
     (if i \<ge> length (rs_waiting s) then s
      else
        let w = rs_waiting s ! i; r = mw_participant w; p = rs_objects s ! r;
            done = s\<lparr>rs_waiting := take i (rs_waiting s) @ drop (Suc i) (rs_waiting s)\<rparr>
        in if expired then with_object r (p, [Pe_TrackSubscriptionFailed (mw_sid w)]) done
           else if get_track_publication (mw_sid w) p = None then s
           else (case add_subscribed_media_track (mw_sid w) (mw_kind w) (mw_endpoint w) (mw_enabled w) p of
                   None \<Rightarrow> done
                 | Some result \<Rightarrow> with_object r result done))"

text \<open>A user's call on a publication of a remote participant.\<close>

definition user_call :: "string \<Rightarrow> string \<Rightarrow> user_request \<Rightarrow> room_session \<Rightarrow> room_session option" where
  "user_call identity sid call s =
     (case get_participant_by_identity identity s of
        None \<Rightarrow> Some s
      | Some r \<Rightarrow>
          map_option (\<lambda>result. with_object r result s) (participant_call sid call (rs_objects s ! r)))"

section \<open>Speakers and quality\<close>

record speaker_info =
  sk_sid :: string
  sk_level :: "int option"
  sk_active :: bool

text \<open>
  An audio level is an \<^verbatim>\<open>f32\<close>, of which the code uses only the order: a number by its rank, or
  \<open>None\<close> for NaN. Sorting two or more speakers compares every level, and panics on NaN.
\<close>

definition set_level :: "int option \<Rightarrow> bool \<Rightarrow> participant \<Rightarrow> participant" where
  "set_level level active p = p\<lparr>pa_speaking := active, pa_audio_level := level\<rparr>"

definition update_who :: "(participant \<Rightarrow> participant) \<Rightarrow> who \<Rightarrow> room_session \<Rightarrow> room_session" where
  "update_who f w s =
     (case w of
        Local_Participant \<Rightarrow> s\<lparr>rs_local := f (rs_local s)\<rparr>
      | Remote_Participant r \<Rightarrow> s\<lparr>rs_objects := (rs_objects s)[r := f (rs_objects s ! r)]\<rparr>)"

definition who_object :: "room_session \<Rightarrow> who \<Rightarrow> participant" where
  "who_object s w = (case w of Local_Participant \<Rightarrow> rs_local s | Remote_Participant r \<Rightarrow> rs_objects s ! r)"

definition find_who :: "(string list \<Rightarrow> string list) \<Rightarrow> string \<Rightarrow> room_session \<Rightarrow> who option" where
  "find_who ord sid s =
     (if sid = pa_sid (rs_local s) then Some Local_Participant
      else map_option Remote_Participant (get_participant_by_sid ord sid s))"

fun speakers_loop ::
    "(string list \<Rightarrow> string list) \<Rightarrow> speaker_info list \<Rightarrow> room_session \<Rightarrow> (who list \<times> room_session) option" where
  "speakers_loop ord [] s = Some ([], s)"
| "speakers_loop ord (speaker # rest) s =
     (case participant_sid_try_from (sk_sid speaker) of
        None \<Rightarrow> None
      | Some sid \<Rightarrow>
          (case find_who ord sid s of
             None \<Rightarrow> speakers_loop ord rest s
           | Some w \<Rightarrow>
               map_option (\<lambda>(ws, s). (if sk_active speaker then w # ws else ws, s))
                 (speakers_loop ord rest (update_who (set_level (sk_level speaker) (sk_active speaker)) w s))))"

definition sort_speakers :: "room_session \<Rightarrow> who list \<Rightarrow> who list option" where
  "sort_speakers s ws =
     (if length ws \<ge> 2 \<and> list_ex (\<lambda>w. pa_audio_level (who_object s w) = None) ws then None
      else Some (sort_key (\<lambda>w. case pa_audio_level (who_object s w) of None \<Rightarrow> 0 | Some l \<Rightarrow> l) ws))"

definition handle_speakers_changed ::
    "(string list \<Rightarrow> string list) \<Rightarrow> speaker_info list \<Rightarrow> room_session \<Rightarrow> room_session option" where
  "handle_speakers_changed ord speakers s =
     (case speakers_loop ord speakers s of
        None \<Rightarrow> None
      | Some (ws, s) \<Rightarrow>
          map_option (\<lambda>ws. room_dispatch (Re_ActiveSpeakersChanged ws) (s\<lparr>rs_active_speakers := ws\<rparr>))
            (sort_speakers s ws))"

fun handle_connection_quality_update ::
    "(string list \<Rightarrow> string list) \<Rightarrow> (string \<times> int) list \<Rightarrow> room_session \<Rightarrow> room_session option" where
  "handle_connection_quality_update ord [] s = Some s"
| "handle_connection_quality_update ord ((sid, quality) # updates) s =
     (case participant_sid_try_from sid of
        None \<Rightarrow> None
      | Some sid \<Rightarrow>
          (case find_who ord sid s of
             None \<Rightarrow> handle_connection_quality_update ord updates s
           | Some w \<Rightarrow>
               let quality = connection_quality_of quality;
                   s = update_who (\<lambda>p. p\<lparr>pa_connection_quality := quality\<rparr>) w s
               in handle_connection_quality_update ord updates
                    (room_dispatch (Re_ConnectionQualityChanged w quality) s)))"

section \<open>Data\<close>

text \<open>\<^verbatim>\<open>update_data_encryption_status\<close> of a participant, through the status of \<open>Room_Streams\<close>.\<close>

definition participant_data_encryption :: "bool \<Rightarrow> participant \<Rightarrow> participant \<times> participant_event list" where
  "participant_data_encryption is_encrypted p =
     (let st = update_data_encryption_status is_encrypted (status_of p)
      in (p\<lparr>pa_is_encrypted := ps_is_encrypted st, pa_is_data_encrypted := ps_is_data_encrypted st\<rparr>,
          map Pe_EncryptionStatusChanged (ps_encryption_status_changed st)))"

definition handle_data ::
    "(string list \<Rightarrow> string list) \<Rightarrow> bytes \<Rightarrow> string option \<Rightarrow> data_packet_kind \<Rightarrow> string option \<Rightarrow> string option \<Rightarrow>
     encryption_type \<Rightarrow> room_session \<Rightarrow> room_session" where
  "handle_data ord payload topic kind sid identity encryption_type s =
     (let participant = Option.bind identity (\<lambda>i. get_participant_by_identity i s);
          participant = (if participant = None then Option.bind sid (\<lambda>i. get_participant_by_sid ord i s) else participant);
          s = (case participant of
                 None \<Rightarrow> s
               | Some r \<Rightarrow> with_object r
                   (participant_data_encryption (e2ee_type_from encryption_type \<noteq> E2ee_None) (rs_objects s ! r)) s)
      in room_dispatch (Re_DataReceived payload topic kind participant) s)"

definition handle_chat_message :: "string \<Rightarrow> room_chat_message \<Rightarrow> room_session \<Rightarrow> room_session" where
  "handle_chat_message identity message s =
     (case get_participant_by_identity identity s of
        None \<Rightarrow> s
      | Some r \<Rightarrow> room_dispatch (Re_ChatMessage message r) s)"

definition handle_dtmf :: "u32 \<Rightarrow> string option \<Rightarrow> string option \<Rightarrow> room_session \<Rightarrow> room_session" where
  "handle_dtmf code digit identity s =
     (let participant = Option.bind identity (\<lambda>i. get_participant_by_identity i s)
      in if participant = None \<and> identity \<noteq> None then s
         else room_dispatch (Re_SipDTMFReceived code digit participant) s)"

text \<open>Whether a publication is found is all that is kept of it. An empty track SID panics.\<close>

definition handle_transcription ::
    "string \<Rightarrow> string \<Rightarrow> transcription_segment list \<Rightarrow> room_session \<Rightarrow> room_session option" where
  "handle_transcription identity track_sid segments s =
     (case track_sid_try_from track_sid of
        None \<Rightarrow> None
      | Some sid \<Rightarrow>
          let participant = get_local_or_remote_participant identity s;
              publication = Option.bind participant (\<lambda>w. get_track_publication sid (who_object s w))
          in Some (room_dispatch (Re_TranscriptionReceived participant (publication \<noteq> None) segments) s))"

definition handle_threshold_change :: "data_packet_kind \<Rightarrow> nat \<Rightarrow> room_session \<Rightarrow> room_session" where
  "handle_threshold_change kind threshold s =
     room_dispatch (Re_ThresholdChanged kind threshold)
       (s\<lparr>rs_info := (case kind of
            Lossy \<Rightarrow> (rs_info s)\<lparr>ri_lossy_threshold := threshold\<rparr>
          | Reliable \<Rightarrow> (rs_info s)\<lparr>ri_reliable_threshold := threshold\<rparr>)\<rparr>)"

section \<open>The room and its connection\<close>

definition update_connection_state :: "connection_state \<Rightarrow> room_session \<Rightarrow> bool \<times> room_session" where
  "update_connection_state state s =
     (if ri_state (rs_info s) = state then (False, s)
      else (True, room_dispatch (Re_ConnectionStateChanged state) (s\<lparr>rs_info := (rs_info s)\<lparr>ri_state := state\<rparr>\<rparr>)))"

definition ROOM_PREFIX :: string where "ROOM_PREFIX = ''RM_''"

definition room_sid_try_from :: "string \<Rightarrow> string option" where
  "room_sid_try_from s = (if starts_with s ROOM_PREFIX then Some s else None)"

text \<open>The creation time does not count as an update; a malformed SID clears the one known.\<close>

definition handle_room_update :: "room_msg \<Rightarrow> room_session \<Rightarrow> room_session" where
  "handle_room_update room s =
     (let old = rs_info s;
          info = old\<lparr>ri_metadata := rg_metadata room,
            ri_sid := (if rg_sid room \<noteq> [] then room_sid_try_from (rg_sid room) else ri_sid old),
            ri_name := rg_name room, ri_empty_timeout := rg_empty_timeout room,
            ri_departure_timeout := rg_departure_timeout room, ri_max_participants := rg_max_participants room,
            ri_num_participants := rg_num_participants room, ri_num_publishers := rg_num_publishers room,
            ri_active_recording := rg_active_recording room, ri_creation_time := rg_creation_time_ms room\<rparr>;
          updated = (ri_metadata old \<noteq> rg_metadata room \<or> ri_name old \<noteq> rg_name room
            \<or> ri_empty_timeout old \<noteq> rg_empty_timeout room \<or> ri_departure_timeout old \<noteq> rg_departure_timeout room
            \<or> ri_max_participants old \<noteq> rg_max_participants room
            \<or> ri_num_participants old \<noteq> rg_num_participants room \<or> ri_num_publishers old \<noteq> rg_num_publishers room
            \<or> ri_active_recording old \<noteq> rg_active_recording room);
          s = s\<lparr>rs_info := info\<rparr>;
          s = (if ri_metadata old \<noteq> rg_metadata room
               then room_dispatch (Re_RoomMetadataChanged (ri_metadata old) (rg_metadata room)) s else s)
      in if updated then room_dispatch (Re_RoomUpdated info) s else s)"

definition handle_refresh_token :: "string \<Rightarrow> room_session \<Rightarrow> room_session" where
  "handle_refresh_token token s = room_dispatch (Re_TokenRefreshed token) s"

definition handle_room_moved ::
    "(string list \<Rightarrow> string list) \<Rightarrow> string \<Rightarrow> participant_msg option \<Rightarrow> participant_msg list \<Rightarrow> room_msg option \<Rightarrow>
     room_session \<Rightarrow> room_session option" where
  "handle_room_moved ord token participant other_participants room s =
     (let s = handle_refresh_token token s;
          s = (case participant of
                 None \<Rightarrow> Some s
               | Some info \<Rightarrow>
                   map_option (room_dispatch (Re_ParticipantsUpdated [Local_Participant])) (update_local info s))
      in case Option.bind s (handle_participant_update ord other_participants) of
           None \<Rightarrow> None
         | Some s \<Rightarrow>
             let s = (case room of None \<Rightarrow> s | Some room \<Rightarrow> handle_room_update room s)
             in Some (room_dispatch (Re_Moved (rs_info s)) s))"

definition reconnecting :: "room_session \<Rightarrow> room_session" where
  "reconnecting s =
     (let (changed, s) = update_connection_state Conn_Reconnecting s
      in if changed then room_dispatch Re_Reconnecting s else s)"

definition reconnected :: "room_session \<Rightarrow> room_session" where
  "reconnected s = room_dispatch Re_Reconnected (snd (update_connection_state Conn_Connected s))"

definition handle_resuming :: "room_session \<Rightarrow> room_session" where
  "handle_resuming s = reconnecting s"

definition handle_resumed :: "room_session \<Rightarrow> room_session" where
  "handle_resumed s = reconnected s"

text \<open>The map is copied first; the participants are then disconnected one by one.\<close>

definition handle_restarting :: "(string list \<Rightarrow> string list) \<Rightarrow> room_session \<Rightarrow> room_session" where
  "handle_restarting ord s =
     reconnecting (fold (handle_participant_disconnect ord)
       (map (\<lambda>k. the (map_of (rs_remote s) k)) (ord (map fst (rs_remote s)))) s)"

text \<open>
  \<^verbatim>\<open>handle_restarted\<close> spawns a task that republishes the local tracks and then announces the
  connection; the other handlers run while it does.
\<close>

definition handle_restarted :: "room_session \<Rightarrow> room_session" where
  "handle_restarted s = s\<lparr>rs_restarted := rs_restarted s + 1\<rparr>"

definition republished :: "room_session \<Rightarrow> room_session" where
  "republished s =
     (if rs_restarted s = 0 then s else reconnected (s\<lparr>rs_restarted := rs_restarted s - 1\<rparr>))"

text \<open>The join response's own participant and room are unwrapped.\<close>

definition handle_signal_restarted ::
    "(string list \<Rightarrow> string list) \<Rightarrow> participant_msg option \<Rightarrow> participant_msg list \<Rightarrow> room_msg option \<Rightarrow>
     room_session \<Rightarrow> room_session option" where
  "handle_signal_restarted ord participant other_participants room s =
     (case participant of
        None \<Rightarrow> None
      | Some info \<Rightarrow>
          (case Option.bind (update_local info s) (handle_participant_update ord other_participants) of
             None \<Rightarrow> None
           | Some s \<Rightarrow> map_option (\<lambda>room. handle_room_update room s) room))"

definition handle_disconnected :: "disconnect_reason \<Rightarrow> room_session \<Rightarrow> room_session" where
  "handle_disconnected reason s =
     (let (changed, s) = update_connection_state Conn_Disconnected s;
          s = (if changed then room_dispatch (Re_Disconnected reason) s else s)
      in if reason \<noteq> Client_Initiated then s\<lparr>rs_closing := rs_closing s @ [reason]\<rparr> else s)"

text \<open>The room as \<^verbatim>\<open>connect\<close> makes it from the join response; the events begin with its last step.\<close>

fun join_loop :: "(string list \<Rightarrow> string list) \<Rightarrow> participant_msg list \<Rightarrow> room_session \<Rightarrow> room_session option" where
  "join_loop ord [] s = Some s"
| "join_loop ord (info # infos) s =
     (case create_participant info s of
        None \<Rightarrow> None
      | Some (r, s) \<Rightarrow>
          (case update_remote ord info r s of
             None \<Rightarrow> None
           | Some s \<Rightarrow> join_loop ord infos s))"

definition room_connected ::
    "(string list \<Rightarrow> string list) \<Rightarrow> room_info \<Rightarrow> e2ee_manager \<Rightarrow> bool \<Rightarrow> participant_msg \<Rightarrow> participant_msg list \<Rightarrow>
     room_session option" where
  "room_connected ord info m auto_subscribe me other_participants =
     (case participant_new me auto_subscribe of
        None \<Rightarrow> None
      | Some p \<Rightarrow>
          map_option (\<lambda>s. snd (update_connection_state Conn_Connected (s\<lparr>rs_events := []\<rparr>)))
            (join_loop ord other_participants
              \<lparr>rs_info = info\<lparr>ri_state := Conn_Disconnected\<rparr>, rs_local = p, rs_objects = [], rs_remote = [],
               rs_active_speakers = [], rs_e2ee = m, rs_auto_subscribe = auto_subscribe, rs_events = [],
               rs_requests = [], rs_waiting = [], rs_closing = [], rs_restarted = 0\<rparr>))"

section \<open>What the room is given\<close>

text \<open>What reaches the room: the events of the engine, the user's calls, the tasks that wait or republish.\<close>

datatype room_input =
    In_ParticipantUpdate "participant_msg list"
  | In_MediaTrack bool "string option" string string track_kind nat bool
  | In_MediaTrackWait nat bool
  | In_RoomUpdate room_msg
  | In_RoomMoved string "participant_msg option" "participant_msg list" "room_msg option"
  | In_Resuming
  | In_Resumed
  | In_Restarting
  | In_Restarted
  | In_Republished
  | In_SignalRestarted "participant_msg option" "participant_msg list" "room_msg option"
  | In_Disconnected disconnect_reason
  | In_Data bytes "string option" data_packet_kind "string option" "string option" encryption_type
  | In_ChatMessage string room_chat_message
  | In_Transcription string string "transcription_segment list"
  | In_SipDTMF u32 "string option" "string option"
  | In_SpeakersChanged "speaker_info list"
  | In_ConnectionQuality "(string \<times> int) list"
  | In_ThresholdChanged data_packet_kind nat
  | In_RefreshToken string
  | In_UserCall string string user_request

definition on_engine_event ::
    "(string list \<Rightarrow> string list) \<Rightarrow> room_input \<Rightarrow> room_session \<Rightarrow> room_session option" where
  "on_engine_event ord event s =
     (case event of
        In_ParticipantUpdate updates \<Rightarrow> handle_participant_update ord updates s
      | In_MediaTrack single_pc mapped stream_id track_id kind endpoint enabled \<Rightarrow>
          handle_media_track ord single_pc mapped stream_id track_id kind endpoint enabled s
      | In_MediaTrackWait i expired \<Rightarrow> Some (media_track_wait i expired s)
      | In_RoomUpdate room \<Rightarrow> Some (handle_room_update room s)
      | In_RoomMoved token participant others room \<Rightarrow> handle_room_moved ord token participant others room s
      | In_Resuming \<Rightarrow> Some (handle_resuming s)
      | In_Resumed \<Rightarrow> Some (handle_resumed s)
      | In_Restarting \<Rightarrow> Some (handle_restarting ord s)
      | In_Restarted \<Rightarrow> Some (handle_restarted s)
      | In_Republished \<Rightarrow> Some (republished s)
      | In_SignalRestarted participant others room \<Rightarrow> handle_signal_restarted ord participant others room s
      | In_Disconnected reason \<Rightarrow> Some (handle_disconnected reason s)
      | In_Data payload topic kind sid identity e \<Rightarrow> Some (handle_data ord payload topic kind sid identity e s)
      | In_ChatMessage identity message \<Rightarrow> Some (handle_chat_message identity message s)
      | In_Transcription identity tsid segments \<Rightarrow> handle_transcription identity tsid segments s
      | In_SipDTMF code digit identity \<Rightarrow> Some (handle_dtmf code digit identity s)
      | In_SpeakersChanged speakers \<Rightarrow> handle_speakers_changed ord speakers s
      | In_ConnectionQuality updates \<Rightarrow> handle_connection_quality_update ord updates s
      | In_ThresholdChanged kind threshold \<Rightarrow> Some (handle_threshold_change kind threshold s)
      | In_RefreshToken token \<Rightarrow> Some (handle_refresh_token token s)
      | In_UserCall identity sid call \<Rightarrow> user_call identity sid call s)"

definition room_step ::
    "(string list \<Rightarrow> string list) \<Rightarrow> room_session option \<Rightarrow> room_input \<Rightarrow> room_session option" where
  "room_step ord s event = Option.bind s (on_engine_event ord event)"

text \<open>The input that an event of the engine is; the response to a new session's request is its argument.\<close>

fun room_input_of ::
    "(nat \<Rightarrow> participant_msg option \<times> participant_msg list \<times> room_msg option) \<Rightarrow> engine_event \<Rightarrow> room_input option" where
  "room_input_of join Engine_Resuming = Some In_Resuming"
| "room_input_of join Engine_Resumed = Some In_Resumed"
| "room_input_of join Engine_SignalResumed = None"
| "room_input_of join Engine_Restarting = Some In_Restarting"
| "room_input_of join Engine_Restarted = Some In_Restarted"
| "room_input_of join (Engine_SignalRestarted n) =
     Some (In_SignalRestarted (fst (join n)) (fst (snd (join n))) (snd (snd (join n))))"
| "room_input_of join (Engine_Disconnected reason) = Some (In_Disconnected reason)"

end
