(* ===== verification/Room_Roster.thy ===== *)
theory Room_Roster
  imports Room_Session
begin

text \<open>
  The participants of the room, abstractly. The invariant of the map of participants, the events
  as someone who follows them sees them, and the refinement: what the handler of a participant
  update does to objects, handlers and maps is an update of a roster from identities to sessions.
\<close>

section \<open>The participants that are present\<close>

text \<open>
  The map is consistent: its keys are the identities of the objects it refers to, and no two
  participants have the same SID.
\<close>

definition room_inv :: "room_session \<Rightarrow> bool" where
  "room_inv s \<longleftrightarrow> distinct (map fst (rs_remote s))
     \<and> (\<forall>k r. map_of (rs_remote s) k = Some r \<longrightarrow>
          r < length (rs_objects s) \<and> pa_identity (rs_objects s ! r) = k \<and> publications_ok (rs_objects s ! r)
          \<and> pa_auto_subscribe (rs_objects s ! r) = rs_auto_subscribe s)
     \<and> (\<forall>k r k' r'. map_of (rs_remote s) k = Some r \<and> map_of (rs_remote s) k' = Some r'
          \<and> pa_sid (rs_objects s ! r) = pa_sid (rs_objects s ! r') \<longrightarrow> k = k')"

definition present :: "room_session \<Rightarrow> nat set" where
  "present s = ran (map_of (rs_remote s))"

text \<open>Participants that have left have no publications; the tasks that wait refer to objects.\<close>

definition left_inv :: "room_session \<Rightarrow> bool" where
  "left_inv s \<longleftrightarrow> (\<forall>r < length (rs_objects s). r \<notin> present s \<longrightarrow> pa_publications (rs_objects s ! r) = [])
     \<and> (\<forall>w \<in> set (rs_waiting s). mw_participant w < length (rs_objects s))"

definition left_kept :: "room_session \<Rightarrow> room_session \<Rightarrow> bool" where
  "left_kept s s' \<longleftrightarrow> (left_inv s \<longrightarrow> left_inv s')"

lemma left_kept_refl: "left_kept s s"
  by (simp add: left_kept_def)

lemma left_kept_trans: "left_kept s s' \<Longrightarrow> left_kept s' s'' \<Longrightarrow> left_kept s s''"
  by (simp add: left_kept_def)

lemma left_kept_cong:
  "rs_remote s' = rs_remote s \<Longrightarrow> rs_objects s' = rs_objects s \<Longrightarrow> set (rs_waiting s') \<subseteq> set (rs_waiting s) \<Longrightarrow> left_kept s s'"
  by (auto simp: left_kept_def left_inv_def present_def)

text \<open>Objects of participants that are present may change.\<close>

lemma left_kept_objects:
  assumes "rs_remote s' = rs_remote s" and "rs_waiting s' = rs_waiting s" and "length (rs_objects s') = length (rs_objects s)"
    and "\<And>r. r \<notin> present s \<Longrightarrow> pa_publications (rs_objects s' ! r) = pa_publications (rs_objects s ! r)"
  shows "left_kept s s'"
  using assms by (simp add: left_kept_def left_inv_def present_def)

text \<open>
  The remote participant that an event is about. A failed subscription may be reported when the
  participant has left.
\<close>

fun subject :: "room_event \<Rightarrow> nat option" where
  "subject (Re_ParticipantActive r) = Some r"
| "subject (Re_TrackSubscribed r sid) = Some r"
| "subject (Re_TrackUnsubscribed r sid) = Some r"
| "subject (Re_TrackPublished r sid) = Some r"
| "subject (Re_TrackUnpublished r sid) = Some r"
| "subject (Re_TrackMuted (Remote_Participant r) sid) = Some r"
| "subject (Re_TrackUnmuted (Remote_Participant r) sid) = Some r"
| "subject (Re_MetadataChanged (Remote_Participant r) a b) = Some r"
| "subject (Re_NameChanged (Remote_Participant r) a b) = Some r"
| "subject (Re_AttributesChanged (Remote_Participant r) m) = Some r"
| "subject (Re_EncryptionStatusChanged (Remote_Participant r) b) = Some r"
| "subject (Re_PermissionChanged (Remote_Participant r) p) = Some r"
| "subject (Re_ConnectionQualityChanged (Remote_Participant r) q) = Some r"
| "subject (Re_DataReceived payload topic kind r) = r"
| "subject (Re_SipDTMFReceived code digit r) = r"
| "subject (Re_ChatMessage message r) = Some r"
| "subject _ = None"

text \<open>
  Someone who follows the events: a participant connects when it was not present, disconnects
  when it was, and is the subject of an event only while present; the state of the connection
  changes to another one. \<open>None\<close> is an event that does not fit.
\<close>

fun replay :: "room_event list \<Rightarrow> nat set \<times> connection_state \<Rightarrow> (nat set \<times> connection_state) option" where
  "replay [] v = Some v"
| "replay (Re_ParticipantConnected r # evs) v = (if r \<in> fst v then None else replay evs (insert r (fst v), snd v))"
| "replay (Re_ParticipantDisconnected r # evs) v = (if r \<in> fst v then replay evs (fst v - {r}, snd v) else None)"
| "replay (Re_ConnectionStateChanged c # evs) v = (if c = snd v then None else replay evs (fst v, c))"
| "replay (ev # evs) v = (case subject ev of
       None \<Rightarrow> replay evs v
     | Some r \<Rightarrow> if r \<in> fst v then replay evs v else None)"

definition presence_event :: "room_event \<Rightarrow> bool" where
  "presence_event ev \<longleftrightarrow> (\<exists>r. ev = Re_ParticipantConnected r \<or> ev = Re_ParticipantDisconnected r)
     \<or> (\<exists>c. ev = Re_ConnectionStateChanged c)"

lemma replay_other:
  "\<not> presence_event ev \<Longrightarrow> replay (ev # evs) v = (case subject ev of
       None \<Rightarrow> replay evs v | Some r \<Rightarrow> if r \<in> fst v then replay evs v else None)"
  by (cases ev) (simp_all add: presence_event_def)

lemma replay_append: "replay (evs @ evs') v = Option.bind (replay evs v) (replay evs')"
proof (induction evs arbitrary: v)
  case (Cons ev evs)
  show ?case
  proof (cases "presence_event ev")
    case True
    with Cons show ?thesis by (auto simp: presence_event_def)
  next
    case False
    with Cons show ?thesis by (simp add: replay_other split: option.split)
  qed
qed simp

lemma replay_about:
  "\<forall>ev \<in> set evs. \<not> presence_event ev \<and> (\<forall>r. subject ev = Some r \<longrightarrow> r \<in> fst v) \<Longrightarrow> replay evs v = Some v"
  by (induction evs) (auto simp: replay_other split: option.split)

definition seen :: "room_session \<Rightarrow> nat set \<times> connection_state" where
  "seen s = (present s, ri_state (rs_info s))"

definition follows :: "room_session \<Rightarrow> room_session \<Rightarrow> bool" where
  "follows s s' \<longleftrightarrow> (\<exists>evs. rs_events s' = rs_events s @ evs \<and> replay evs (seen s) = Some (seen s'))"

lemma follows_refl: "follows s s"
  by (simp add: follows_def)

lemma follows_trans: "follows s s' \<Longrightarrow> follows s' s'' \<Longrightarrow> follows s s''"
  by (auto simp: follows_def replay_append)

lemma follows_about:
  assumes "rs_events s' = rs_events s @ evs" and "present s' = present s"
    and "ri_state (rs_info s') = ri_state (rs_info s)"
    and "\<forall>ev \<in> set evs. \<not> presence_event ev \<and> (\<forall>r. subject ev = Some r \<longrightarrow> r \<in> present s)"
  shows "follows s s'"
proof -
  have "seen s' = seen s" by (simp add: seen_def assms(2,3))
  moreover have "replay evs (seen s) = Some (seen s)" using assms(4) by (intro replay_about) (simp add: seen_def)
  ultimately show ?thesis using assms(1) by (auto simp: follows_def)
qed

section \<open>What the callbacks leave alone\<close>

lemma room_dispatch_simps [simp]:
  "rs_info (room_dispatch ev s) = rs_info s" "rs_local (room_dispatch ev s) = rs_local s"
  "rs_objects (room_dispatch ev s) = rs_objects s" "rs_remote (room_dispatch ev s) = rs_remote s"
  "rs_e2ee (room_dispatch ev s) = rs_e2ee s" "rs_auto_subscribe (room_dispatch ev s) = rs_auto_subscribe s"
  "rs_events (room_dispatch ev s) = rs_events s @ [ev]" "rs_requests (room_dispatch ev s) = rs_requests s"
  "rs_closing (room_dispatch ev s) = rs_closing s" "rs_restarted (room_dispatch ev s) = rs_restarted s"
  "rs_active_speakers (room_dispatch ev s) = rs_active_speakers s" "rs_waiting (room_dispatch ev s) = rs_waiting s"
  by (simp_all add: room_dispatch_def)

text \<open>Two states that differ in what the callbacks change.\<close>

definition same_room :: "room_session \<Rightarrow> room_session \<Rightarrow> bool" where
  "same_room s s' \<longleftrightarrow> rs_info s' = rs_info s \<and> rs_local s' = rs_local s \<and> rs_objects s' = rs_objects s
     \<and> rs_remote s' = rs_remote s \<and> rs_active_speakers s' = rs_active_speakers s
     \<and> rs_auto_subscribe s' = rs_auto_subscribe s \<and> rs_waiting s' = rs_waiting s
     \<and> rs_closing s' = rs_closing s \<and> rs_restarted s' = rs_restarted s"

lemma participant_callback_frame:
  "same_room s (participant_callback r s ev)
   \<and> (\<exists>evs. rs_events (participant_callback r s ev) = rs_events s @ evs
        \<and> (\<forall>ev \<in> set evs. \<not> presence_event ev \<and> (subject ev = Some r \<or> subject ev = None)))"
  by (cases ev) (simp_all add: participant_callback_def same_room_def presence_event_def Let_def)

lemma participant_callbacks_frame:
  "same_room s (foldl (participant_callback r) s evs)
   \<and> (\<exists>res. rs_events (foldl (participant_callback r) s evs) = rs_events s @ res
        \<and> (\<forall>ev \<in> set res. \<not> presence_event ev \<and> (subject ev = Some r \<or> subject ev = None)))"
proof (induction evs arbitrary: s)
  case Nil
  then show ?case by (simp add: same_room_def)
next
  case (Cons ev evs)
  obtain es where es: "rs_events (participant_callback r s ev) = rs_events s @ es"
      "\<forall>ev \<in> set es. \<not> presence_event ev \<and> (subject ev = Some r \<or> subject ev = None)"
    using participant_callback_frame [of s r ev] by blast
  obtain res where res: "rs_events (foldl (participant_callback r) (participant_callback r s ev) evs) =
        rs_events (participant_callback r s ev) @ res" "\<forall>ev \<in> set res. \<not> presence_event ev \<and> (subject ev = Some r \<or> subject ev = None)"
    using Cons.IH by blast
  have "same_room s (foldl (participant_callback r) (participant_callback r s ev) evs)"
    using participant_callback_frame [of s r ev] Cons.IH [of "participant_callback r s ev"]
    by (simp add: same_room_def)
  moreover have "rs_events (foldl (participant_callback r) s (ev # evs)) = rs_events s @ (es @ res)"
    using es(1) res(1) by simp
  ultimately show ?case using es(2) res(2) by (metis foldl_Cons Un_iff set_append)
qed

lemma with_object_frame:
  "rs_objects (with_object r (p, evs) s) = (rs_objects s)[r := p]"
  "rs_remote (with_object r (p, evs) s) = rs_remote s"
  "rs_local (with_object r (p, evs) s) = rs_local s"
  "rs_auto_subscribe (with_object r (p, evs) s) = rs_auto_subscribe s"
  "rs_info (with_object r (p, evs) s) = rs_info s"
  "rs_closing (with_object r (p, evs) s) = rs_closing s"
  "rs_restarted (with_object r (p, evs) s) = rs_restarted s"
  "rs_active_speakers (with_object r (p, evs) s) = rs_active_speakers s"
  "rs_waiting (with_object r (p, evs) s) = rs_waiting s"
  using participant_callbacks_frame [of "s\<lparr>rs_objects := (rs_objects s)[r := p]\<rparr>" r evs]
  by (simp_all add: with_object_def same_room_def)

lemma with_object_follows:
  assumes "r \<in> present s"
  shows "follows s (with_object r (p, evs) s)"
proof -
  obtain res where res: "rs_events (with_object r (p, evs) s) = rs_events s @ res"
      "\<forall>ev \<in> set res. \<not> presence_event ev \<and> (subject ev = Some r \<or> subject ev = None)"
    using participant_callbacks_frame [of "s\<lparr>rs_objects := (rs_objects s)[r := p]\<rparr>" r evs]
    by (auto simp: with_object_def)
  show ?thesis
    by (rule follows_about [OF res(1)]) (use res(2) assms in \<open>auto simp: present_def with_object_frame\<close>)
qed

lemma with_object_left:
  assumes "r \<in> present s"
  shows "left_kept s (with_object r (p, evs) s)"
proof (rule left_kept_objects)
  fix r' assume "r' \<notin> present s"
  with assms have "r' \<noteq> r" by blast
  then show "pa_publications (rs_objects (with_object r (p, evs) s) ! r') = pa_publications (rs_objects s ! r')"
    by (simp add: with_object_frame)
qed (simp_all add: with_object_frame)

section \<open>The roster\<close>

text \<open>
  The abstract state: under each identity the SID of the session and the tracks.
\<close>

type_synonym roster = "string \<rightharpoonup> string \<times> (string \<rightharpoonup> track_view)"

definition entry_of :: "participant \<Rightarrow> string \<times> (string \<rightharpoonup> track_view)" where
  "entry_of p = (pa_sid p, track_views p)"

definition roster :: "room_session \<Rightarrow> roster" where
  "roster s k = map_option (\<lambda>r. entry_of (rs_objects s ! r)) (map_of (rs_remote s) k)"

lemma room_invD:
  assumes "room_inv s" and "map_of (rs_remote s) k = Some r"
  shows "r < length (rs_objects s)" and "pa_identity (rs_objects s ! r) = k" and "publications_ok (rs_objects s ! r)"
    and "pa_auto_subscribe (rs_objects s ! r) = rs_auto_subscribe s" and "r \<in> present s"
  using assms by (auto simp: room_inv_def present_def ran_def)

lemma room_inv_ref_unique:
  assumes "room_inv s" and "map_of (rs_remote s) k = Some r" and "map_of (rs_remote s) k' = Some r"
  shows "k = k'"
  using room_invD(2) [OF assms(1,2)] room_invD(2) [OF assms(1,3)] by simp

lemma get_participant_by_sid_None:
  assumes "room_inv s" and "reorders ord"
  shows "get_participant_by_sid ord sid s = None \<longleftrightarrow>
    (\<forall>k r. map_of (rs_remote s) k = Some r \<longrightarrow> pa_sid (rs_objects s ! r) \<noteq> sid)"
proof -
  have "set (ord (map fst (rs_remote s))) = dom (map_of (rs_remote s))"
    using assms by (simp add: reorders_def room_inv_def dom_map_of_conv_image_fst)
  then show ?thesis
    by (auto simp: get_participant_by_sid_def find_None_iff) (metis domI option.sel)+
qed

lemma get_participant_by_sid_Some:
  assumes "room_inv s" and "reorders ord"
  shows "get_participant_by_sid ord sid s = Some r \<longleftrightarrow>
    (\<exists>k. map_of (rs_remote s) k = Some r \<and> pa_sid (rs_objects s ! r) = sid)"
proof
  have d: "set (ord (map fst (rs_remote s))) = dom (map_of (rs_remote s))"
    using assms by (simp add: reorders_def room_inv_def dom_map_of_conv_image_fst)
  show "\<exists>k. map_of (rs_remote s) k = Some r \<and> pa_sid (rs_objects s ! r) = sid"
    if "get_participant_by_sid ord sid s = Some r"
    using that d by (auto simp: get_participant_by_sid_def find_Some_iff) (metis domD nth_mem option.sel)
  assume "\<exists>k. map_of (rs_remote s) k = Some r \<and> pa_sid (rs_objects s ! r) = sid"
  then obtain k where k: "map_of (rs_remote s) k = Some r" "pa_sid (rs_objects s ! r) = sid" by blast
  then have "get_participant_by_sid ord sid s \<noteq> None"
    using get_participant_by_sid_None [OF assms, of sid] by blast
  then obtain r' where r': "get_participant_by_sid ord sid s = Some r'" by blast
  then obtain k' where "map_of (rs_remote s) k' = Some r'" "pa_sid (rs_objects s ! r') = sid"
    using d by (auto simp: get_participant_by_sid_def find_Some_iff) (metis domD nth_mem option.sel)
  moreover have "k' = k" using assms(1) k calculation unfolding room_inv_def by metis
  ultimately show "get_participant_by_sid ord sid s = Some r" using k r' by simp
qed

section \<open>Steps on the participants\<close>

lemma room_inv_cong:
  "rs_remote s' = rs_remote s \<Longrightarrow> rs_objects s' = rs_objects s \<Longrightarrow>
     rs_auto_subscribe s' = rs_auto_subscribe s \<Longrightarrow> room_inv s' = room_inv s"
  by (simp add: room_inv_def)

lemma roster_cong:
  "rs_remote s' = rs_remote s \<Longrightarrow> rs_objects s' = rs_objects s \<Longrightarrow> roster s' = roster s"
  by (rule ext) (simp add: roster_def)

lemma room_inv_delete:
  assumes "room_inv s" and "rs_remote s' = AList.delete k (rs_remote s)" and "rs_objects s' = rs_objects s"
    and "rs_auto_subscribe s' = rs_auto_subscribe s"
  shows "room_inv s'"
proof -
  have sub: "map_of (rs_remote s) k' = Some r'" if "map_of (rs_remote s') k' = Some r'" for k' r'
    using that by (auto simp: assms(2) delete_conv' split: if_splits)
  have "distinct (map fst (rs_remote s'))" using assms(1,2) by (simp add: room_inv_def distinct_delete)
  moreover have "r < length (rs_objects s') \<and> pa_identity (rs_objects s' ! r) = k \<and> publications_ok (rs_objects s' ! r)
      \<and> pa_auto_subscribe (rs_objects s' ! r) = rs_auto_subscribe s'"
    if "map_of (rs_remote s') k = Some r" for k r
    using assms(1,3,4) sub [OF that] by (simp add: room_inv_def)
  moreover have "k1 = k2" if "map_of (rs_remote s') k1 = Some r1" "map_of (rs_remote s') k2 = Some r2"
      "pa_sid (rs_objects s' ! r1) = pa_sid (rs_objects s' ! r2)" for k1 r1 k2 r2
    using assms(1) sub [OF that(1)] sub [OF that(2)] that(3) unfolding room_inv_def assms(3) by blast
  ultimately show ?thesis unfolding room_inv_def by blast
qed

text \<open>An object is replaced by one with the same identity and a SID that no other has.\<close>

lemma with_object_inv:
  assumes "room_inv s" and "map_of (rs_remote s) k = Some r" and "pa_identity p = k" and "publications_ok p"
    and "pa_auto_subscribe p = rs_auto_subscribe s"
    and "\<forall>k' r'. map_of (rs_remote s) k' = Some r' \<and> pa_sid (rs_objects s ! r') = pa_sid p \<longrightarrow> k' = k"
  shows "room_inv (with_object r (p, evs) s)" and "roster (with_object r (p, evs) s) = (roster s)(k \<mapsto> entry_of p)"
proof -
  have r: "r < length (rs_objects s)" by (rule room_invD(1) [OF assms(1,2)])
  have other: "map_of (rs_remote s) k' = Some r' \<Longrightarrow> k' \<noteq> k \<Longrightarrow> r' \<noteq> r" for k' r'
    using room_inv_ref_unique [OF assms(1,2)] by blast
  have at: "map_of (rs_remote s) k' = Some r' \<Longrightarrow> (rs_objects s)[r := p] ! r' = (if k' = k then p else rs_objects s ! r')" for k' r'
    using other [of k' r'] r assms(2) by (cases "k' = k") simp_all
  show "room_inv (with_object r (p, evs) s)"
    unfolding room_inv_def with_object_frame
  proof (intro conjI allI impI)
    show "distinct (map fst (rs_remote s))" using assms(1) by (simp add: room_inv_def)
    fix k' r' assume m: "map_of (rs_remote s) k' = Some r'"
    show "r' < length ((rs_objects s)[r := p])" using room_invD(1) [OF assms(1) m] by simp
    show "pa_identity ((rs_objects s)[r := p] ! r') = k'"
      using room_invD(2) [OF assms(1) m] assms(3) at [OF m] by simp
    show "publications_ok ((rs_objects s)[r := p] ! r')"
      using room_invD(3) [OF assms(1) m] assms(4) at [OF m] by simp
    show "pa_auto_subscribe ((rs_objects s)[r := p] ! r') = rs_auto_subscribe s"
      using room_invD(4) [OF assms(1) m] assms(5) at [OF m] by simp
  next
    fix k1 r1 k2 r2
    assume a: "map_of (rs_remote s) k1 = Some r1 \<and> map_of (rs_remote s) k2 = Some r2
      \<and> pa_sid ((rs_objects s)[r := p] ! r1) = pa_sid ((rs_objects s)[r := p] ! r2)"
    then have m: "map_of (rs_remote s) k1 = Some r1" "map_of (rs_remote s) k2 = Some r2" by simp_all
    have e: "pa_sid (if k1 = k then p else rs_objects s ! r1) = pa_sid (if k2 = k then p else rs_objects s ! r2)"
      using a at [OF m(1)] at [OF m(2)] by simp
    consider "k1 = k" "k2 = k" | "k1 = k" "k2 \<noteq> k" | "k1 \<noteq> k" "k2 = k" | "k1 \<noteq> k" "k2 \<noteq> k" by blast
    then show "k1 = k2"
    proof cases
      case 2
      then have "pa_sid (rs_objects s ! r2) = pa_sid p" using e by simp
      with assms(6) m(2) 2 show ?thesis by blast
    next
      case 3
      then have "pa_sid (rs_objects s ! r1) = pa_sid p" using e by simp
      with assms(6) m(1) 3 show ?thesis by blast
    next
      case 4
      then have "pa_sid (rs_objects s ! r1) = pa_sid (rs_objects s ! r2)" using e by simp
      with assms(1) m show ?thesis unfolding room_inv_def by blast
    qed simp
  qed
  show "roster (with_object r (p, evs) s) = (roster s)(k \<mapsto> entry_of p)"
  proof
    fix k' show "roster (with_object r (p, evs) s) k' = ((roster s)(k \<mapsto> entry_of p)) k'"
    proof (cases "map_of (rs_remote s) k'")
      case None
      with assms(2) have "k' \<noteq> k" by auto
      with None show ?thesis by (simp add: roster_def with_object_frame)
    next
      case (Some r')
      then show ?thesis by (simp add: roster_def with_object_frame at [OF Some])
    qed
  qed
qed

lemma disconnect_spec:
  assumes "room_inv s" and "reorders ord" and "map_of (rs_remote s) k = Some r"
  shows "let s' = handle_participant_disconnect ord r s
    in room_inv s' \<and> roster s' = (roster s)(k := None) \<and> follows s s'
     \<and> rs_local s' = rs_local s \<and> rs_auto_subscribe s' = rs_auto_subscribe s
     \<and> rs_remote s' = AList.delete k (rs_remote s)
     \<and> (\<forall>k' r'. map_of (rs_remote s') k' = Some r' \<longrightarrow> rs_objects s' ! r' = rs_objects s ! r') \<and> left_kept s s'"
proof -
  let ?p = "rs_objects s ! r"
  let ?keys = "ord (map fst (pa_publications ?p))"
  note ok = room_invD [OF assms(1,3)]
  obtain p' evs where u: "unpublish_all ?keys ?p = (p', evs)" by fastforce
  have "distinct ?keys" using assms(2) ok(3) by (simp add: reorders_def publications_ok_def)
  note up = unpublish_all_spec [OF ok(3) this u]
  note person = same_personD [of ?p p']
  have id: "pa_identity p' = k" "pa_sid p' = pa_sid ?p" "pa_auto_subscribe p' = rs_auto_subscribe s"
    using up person(1,2,4) ok(2,4) by auto
  let ?t = "with_object r (p', evs) s"
  have none: "pa_publications p' = []"
  proof -
    have "dom (track_views p') = {}" using up assms(2) ok(3) keys_views by (auto simp: reorders_def publications_ok_def)
    then show ?thesis using keys_views [of p'] by simp
  qed
  have sids: "\<forall>k' r'. map_of (rs_remote s) k' = Some r' \<and> pa_sid (rs_objects s ! r') = pa_sid p' \<longrightarrow> k' = k"
    using assms(1,3) id(2) unfolding room_inv_def by metis
  have "publications_ok p'" using up by blast
  note t = with_object_inv [OF assms(1,3) id(1) this id(3) sids, of evs]
  have s': "handle_participant_disconnect ord r s =
      room_dispatch (Re_ParticipantDisconnected r) (?t\<lparr>rs_remote := AList.delete k (rs_remote s)\<rparr>)"
    using ok(1) by (simp add: handle_participant_disconnect_def Let_def u id(1) with_object_frame)
  let ?s' = "handle_participant_disconnect ord r s"
  have remote: "rs_remote ?s' = AList.delete k (rs_remote s)" and objects: "rs_objects ?s' = (rs_objects s)[r := p']"
    by (simp_all add: s' with_object_frame)
  have sub: "map_of (AList.delete k (rs_remote s)) k' = Some r' \<Longrightarrow> map_of (rs_remote s) k' = Some r' \<and> k' \<noteq> k" for k' r'
    by (auto simp: delete_conv' split: if_splits)
  have "room_inv ?s'"
    by (rule room_inv_delete [OF t(1), of _ k]) (simp_all add: remote objects with_object_frame, simp add: s' with_object_frame)
  moreover have "roster ?s' = (roster s)(k := None)"
  proof
    fix k'
    have "roster ?s' k' = (if k' = k then None else roster ?t k')"
      by (simp add: roster_def remote objects with_object_frame delete_conv')
    then show "roster ?s' k' = ((roster s)(k := None)) k'" by (simp add: t(2))
  qed
  moreover have "follows s ?s' \<and> left_kept s ?s'"
  proof -
    have f: "follows s ?t" using with_object_follows [OF ok(5)] .
    have pt: "present ?t = present s" by (simp add: present_def with_object_frame)
    have ps: "present ?s' = present s - {r}"
    proof (rule set_eqI)
      fix r'
      have "r' \<in> present ?s' \<longleftrightarrow> (\<exists>k'. k' \<noteq> k \<and> map_of (rs_remote s) k' = Some r')"
        unfolding present_def remote by (auto simp: ran_def delete_conv')
      also have "\<dots> \<longleftrightarrow> r' \<in> present s \<and> r' \<noteq> r"
      proof
        assume "\<exists>k'. k' \<noteq> k \<and> map_of (rs_remote s) k' = Some r'"
        then obtain k' where k': "k' \<noteq> k" "map_of (rs_remote s) k' = Some r'" by blast
        then have "r' \<noteq> r" using room_inv_ref_unique [OF assms(1,3)] by blast
        with k'(2) show "r' \<in> present s \<and> r' \<noteq> r" unfolding present_def ran_def by blast
      next
        assume "r' \<in> present s \<and> r' \<noteq> r"
        then obtain k' where k': "map_of (rs_remote s) k' = Some r'" "r' \<noteq> r" unfolding present_def ran_def by blast
        then have "k' \<noteq> k" using assms(3) by (metis option.inject)
        with k'(1) show "\<exists>k'. k' \<noteq> k \<and> map_of (rs_remote s) k' = Some r'" by blast
      qed
      finally show "r' \<in> present ?s' \<longleftrightarrow> r' \<in> present s - {r}" by simp
    qed
    have "rs_events ?s' = rs_events ?t @ [Re_ParticipantDisconnected r]" "rs_info ?s' = rs_info ?t"
      by (simp_all add: s')
    then have "follows ?t ?s'" using ok(5) pt ps by (simp add: follows_def seen_def)
    with f have "follows s ?s'" by (rule follows_trans)
    moreover have "left_kept s ?s'"
    proof -
      have "rs_waiting ?s' = rs_waiting s" by (simp add: s' with_object_frame)
      moreover have "pa_publications (rs_objects ?s' ! r') = []"
        if "left_inv s" "r' < length (rs_objects s)" "r' \<notin> present ?s'" for r'
        using that none ok(1) by (cases "r' = r") (simp_all add: objects ps left_inv_def)
      ultimately show ?thesis by (simp add: left_kept_def left_inv_def objects)
    qed
    ultimately show ?thesis by blast
  qed
  moreover have "rs_objects ?s' ! r' = rs_objects s ! r'" if "map_of (rs_remote ?s') k' = Some r'" for k' r'
  proof -
    have "map_of (rs_remote s) k' = Some r'" "k' \<noteq> k" using sub that by (auto simp: remote)
    then have "r' \<noteq> r" using room_inv_ref_unique [OF assms(1,3)] by blast
    then show ?thesis by (simp add: objects)
  qed
  ultimately show ?thesis by (simp add: Let_def remote) (simp add: s' with_object_frame)
qed

text \<open>What becomes of the tracks of a participant under an update.\<close>

definition listed_tracks :: "bool \<Rightarrow> media_info list \<Rightarrow> (string \<rightharpoonup> track_view) \<Rightarrow> string \<rightharpoonup> track_view" where
  "listed_tracks auto tracks v sid = map_option (\<lambda>t. listed_view auto t (v sid)) (listed_as tracks sid)"

lemma update_remote_spec:
  assumes "room_inv s" and "reorders ord" and "map_of (rs_remote s) k = Some r" and "pi_identity info = k"
    and "\<forall>k' r'. map_of (rs_remote s) k' = Some r' \<and> pa_sid (rs_objects s ! r') = pi_sid info \<longrightarrow> k' = k"
    and "update_remote ord info r s = Some s'"
  shows "room_inv s'"
    and "roster s' = (roster s)(k \<mapsto> (pi_sid info,
          listed_tracks (rs_auto_subscribe s) (pi_tracks info) (track_views (rs_objects s ! r))))"
    and "follows s s'" and "rs_local s' = rs_local s" and "rs_auto_subscribe s' = rs_auto_subscribe s"
    and "rs_remote s' = rs_remote s" and "left_kept s s'"
proof -
  note ok = room_invD [OF assms(1,3)]
  obtain p' evs where u: "remote_update_info ord info (rs_objects s ! r) = Some (p', evs)"
    and s': "s' = with_object r (p', evs) s"
    using assms(6) by (auto simp: update_remote_def)
  note spec = remote_update_info_spec [OF ok(3) assms(2) u]
  have id: "pa_identity p' = k" "publications_ok p'" "pa_auto_subscribe p' = rs_auto_subscribe s"
    using spec assms(4) ok(4) by auto
  have sids: "\<forall>k' r'. map_of (rs_remote s) k' = Some r' \<and> pa_sid (rs_objects s ! r') = pa_sid p' \<longrightarrow> k' = k"
    using assms(5) spec(2) by simp
  note t = with_object_inv [OF assms(1,3) id sids, of evs]
  show "room_inv s'" by (simp add: s' t)
  have "entry_of p' = (pi_sid info, listed_tracks (rs_auto_subscribe s) (pi_tracks info) (track_views (rs_objects s ! r)))"
    using spec(1,2) ok(4) by (auto simp: entry_of_def listed_tracks_def)
  then show "roster s' = (roster s)(k \<mapsto> (pi_sid info,
      listed_tracks (rs_auto_subscribe s) (pi_tracks info) (track_views (rs_objects s ! r))))"
    by (simp add: s' t)
  show "follows s s'" unfolding s' by (rule with_object_follows [OF ok(5)])
  show "left_kept s s'" unfolding s' by (rule with_object_left [OF ok(5)])
  show "rs_local s' = rs_local s" "rs_auto_subscribe s' = rs_auto_subscribe s" "rs_remote s' = rs_remote s"
    by (simp_all add: s' with_object_frame)
qed

lemma create_spec:
  assumes "room_inv s" and "map_of (rs_remote s) (pi_identity info) = None"
    and "\<forall>k r. map_of (rs_remote s) k = Some r \<longrightarrow> pa_sid (rs_objects s ! r) \<noteq> pi_sid info"
    and "create_participant info s = Some (r, s')"
  shows "room_inv s'" and "roster s' = (roster s)(pi_identity info \<mapsto> (pi_sid info, Map.empty))"
    and "r = length (rs_objects s)" and "rs_local s' = rs_local s" and "rs_auto_subscribe s' = rs_auto_subscribe s"
    and "map_of (rs_remote s') = (map_of (rs_remote s))(pi_identity info \<mapsto> r)"
    and "rs_events s' = rs_events s \<and> rs_info s' = rs_info s" and "present s' = insert r (present s)" and "r \<notin> present s"
    and "track_views (rs_objects s' ! r) = Map.empty"
    and "\<And>r'. r' < r \<Longrightarrow> rs_objects s' ! r' = rs_objects s ! r'" and "length (rs_objects s') = Suc r"
    and "pa_sid (rs_objects s' ! r) = pi_sid info" and "left_kept s s'"
proof -
  let ?i = "pi_identity info" and ?n = "length (rs_objects s)"
  obtain p where p: "participant_new info (rs_auto_subscribe s) = Some p" and r: "r = ?n"
    and s': "s' = s\<lparr>rs_objects := rs_objects s @ [p], rs_remote := AList.update ?i ?n (rs_remote s)\<rparr>"
    using assms(4) by (auto simp: create_participant_def)
  have pf: "pa_sid p = pi_sid info" "pa_identity p = ?i" "pa_publications p = []" "pa_auto_subscribe p = rs_auto_subscribe s"
    using p by (auto simp: participant_new_def participant_sid_try_from_def split: option.splits if_splits)
  then have po: "publications_ok p" "track_views p = Map.empty"
    by (auto simp: publications_ok_def track_views_def)
  have m: "map_of (rs_remote s') = (map_of (rs_remote s))(?i \<mapsto> ?n)" by (simp add: s' update_conv')
  have old: "r' < ?n" if "map_of (rs_remote s) k = Some r'" for k r' using room_invD(1) [OF assms(1) that] .
  have obj: "rs_objects s' ! r' = (if r' = ?n then p else rs_objects s ! r')" if "r' \<le> ?n" for r'
    using that by (simp add: s' nth_append)
  show "room_inv s'"
    unfolding room_inv_def
  proof (intro conjI allI impI)
    show "distinct (map fst (rs_remote s'))" using assms(1) by (simp add: s' room_inv_def distinct_update)
    fix k r' assume k: "map_of (rs_remote s') k = Some r'"
    then have c: "k = ?i \<and> r' = ?n \<or> k \<noteq> ?i \<and> map_of (rs_remote s) k = Some r'" by (auto simp: m split: if_splits)
    show "r' < length (rs_objects s')" using c old [of k r'] by (auto simp: s')
    show "pa_identity (rs_objects s' ! r') = k"
      using c old [of k r'] room_invD(2) [OF assms(1), of k r'] obj [of r'] pf(2) by auto
    show "publications_ok (rs_objects s' ! r')"
      using c old [of k r'] room_invD(3) [OF assms(1), of k r'] obj [of r'] po(1) by auto
    show "pa_auto_subscribe (rs_objects s' ! r') = rs_auto_subscribe s'"
      using c old [of k r'] room_invD(4) [OF assms(1), of k r'] obj [of r'] pf(4) by (auto simp: s')
  next
    fix k1 r1 k2 r2
    assume a: "map_of (rs_remote s') k1 = Some r1 \<and> map_of (rs_remote s') k2 = Some r2
      \<and> pa_sid (rs_objects s' ! r1) = pa_sid (rs_objects s' ! r2)"
    have c: "k = ?i \<and> pa_sid (rs_objects s' ! r') = pi_sid info
        \<or> k \<noteq> ?i \<and> map_of (rs_remote s) k = Some r' \<and> rs_objects s' ! r' = rs_objects s ! r'"
      if "map_of (rs_remote s') k = Some r'" for k r'
      using that old [of k r'] obj [of r'] pf(1) by (auto simp: m split: if_splits)
    have u: "\<And>k1 r1 k2 r2. map_of (rs_remote s) k1 = Some r1 \<Longrightarrow> map_of (rs_remote s) k2 = Some r2
      \<Longrightarrow> pa_sid (rs_objects s ! r1) = pa_sid (rs_objects s ! r2) \<Longrightarrow> k1 = k2"
      using assms(1) unfolding room_inv_def by blast
    from a c [of k1 r1] c [of k2 r2] u [of k1 r1 k2 r2] assms(3) show "k1 = k2" by metis
  qed
  show "roster s' = (roster s)(?i \<mapsto> (pi_sid info, Map.empty))"
  proof
    fix k show "roster s' k = ((roster s)(?i \<mapsto> (pi_sid info, Map.empty))) k"
    proof (cases "k = ?i")
      case True
      then show ?thesis by (simp add: roster_def m obj entry_of_def pf(1) po(2))
    next
      case False
      then show ?thesis
        using old [of k] obj by (cases "map_of (rs_remote s) k") (auto simp: roster_def m)
    qed
  qed
  show "r = ?n" "rs_local s' = rs_local s" "rs_auto_subscribe s' = rs_auto_subscribe s"
    "rs_events s' = rs_events s \<and> rs_info s' = rs_info s"
    by (simp_all add: r s')
  show "map_of (rs_remote s') = (map_of (rs_remote s))(?i \<mapsto> r)" by (simp add: m r)
  show "present s' = insert r (present s)" unfolding present_def m r using assms(2) by (rule ran_map_upd)
  show "left_kept s s'"
  proof -
    have "present s' = insert ?n (present s)" unfolding present_def m using assms(2) by (rule ran_map_upd)
    then show ?thesis by (auto simp: left_kept_def left_inv_def s' nth_append less_Suc_eq)
  qed
  show "r \<notin> present s" using old by (auto simp: present_def ran_def r)
  show "track_views (rs_objects s' ! r) = Map.empty" using obj [of r] by (simp add: r po(2))
  show "\<And>r'. r' < r \<Longrightarrow> rs_objects s' ! r' = rs_objects s ! r'" using obj by (simp add: r)
  show "length (rs_objects s') = Suc r" by (simp add: s' r)
  show "pa_sid (rs_objects s' ! r) = pi_sid info" using obj [of r] by (simp add: r pf(1))
qed

section \<open>An update, abstractly\<close>

text \<open>
  The local participant's SID and identity, and the roster. An update of the local participant
  changes the former; any other makes or replaces the entry of its identity, or removes it,
  whatever SID it had.
\<close>

type_synonym room_view = "(string \<times> string) \<times> roster"

definition room_view :: "room_session \<Rightarrow> room_view" where
  "room_view s = ((pa_sid (rs_local s), pa_identity (rs_local s)), roster s)"

definition known_tracks :: "participant_msg \<Rightarrow> roster \<Rightarrow> string \<rightharpoonup> track_view" where
  "known_tracks info m = (case m (pi_identity info) of
       None \<Rightarrow> Map.empty | Some (sid, v) \<Rightarrow> if sid = pi_sid info then v else Map.empty)"

definition view_update :: "bool \<Rightarrow> participant_msg \<Rightarrow> room_view \<Rightarrow> room_view" where
  "view_update auto info v =
     (if pi_sid info = fst (fst v) \<or> pi_identity info = snd (fst v) then ((pi_sid info, pi_identity info), snd v)
      else if pi_state info = DISCONNECTED_STATE then (fst v, (snd v)(pi_identity info := None))
      else (fst v, (snd v)(pi_identity info \<mapsto>
        (pi_sid info, listed_tracks auto (pi_tracks info) (known_tracks info (snd v))))))"

text \<open>What is relied on of the server: the identity of a session does not change.\<close>

definition identity_kept :: "participant_msg \<Rightarrow> room_view \<Rightarrow> bool" where
  "identity_kept info v \<longleftrightarrow> (\<forall>k t. snd v k = Some (pi_sid info, t) \<longrightarrow> k = pi_identity info)"

lemma local_callbacks_frame:
  "same_room s (foldl local_callback s evs) \<and> rs_local (foldl local_callback s evs) = rs_local s
   \<and> (\<exists>res. rs_events (foldl local_callback s evs) = rs_events s @ res
        \<and> (\<forall>ev \<in> set res. \<not> presence_event ev \<and> subject ev = None))"
proof (induction evs arbitrary: s)
  case Nil
  then show ?case by (simp add: same_room_def)
next
  case (Cons ev evs)
  have step: "same_room s (local_callback s ev)
     \<and> (\<exists>es. rs_events (local_callback s ev) = rs_events s @ es \<and> (\<forall>ev \<in> set es. \<not> presence_event ev \<and> subject ev = None))"
    by (cases ev) (simp_all add: local_callback_def same_room_def presence_event_def)
  then obtain es where es: "rs_events (local_callback s ev) = rs_events s @ es"
      "\<forall>ev \<in> set es. \<not> presence_event ev \<and> subject ev = None" by blast
  obtain res where res: "rs_events (foldl local_callback (local_callback s ev) evs) = rs_events (local_callback s ev) @ res"
      "\<forall>ev \<in> set res. \<not> presence_event ev \<and> subject ev = None"
    using Cons.IH by blast
  have "same_room s (foldl local_callback (local_callback s ev) evs)"
    using step Cons.IH [of "local_callback s ev"] by (simp add: same_room_def)
  moreover have "rs_events (foldl local_callback s (ev # evs)) = rs_events s @ (es @ res)"
    using es(1) res(1) by simp
  ultimately show ?case using es(2) res(2)
    by (metis (no_types, lifting) Un_iff foldl_Cons same_room_def set_append)
qed

lemma update_local_spec:
  assumes "update_local info s = Some s'"
  shows "rs_remote s' = rs_remote s" and "rs_objects s' = rs_objects s" and "rs_auto_subscribe s' = rs_auto_subscribe s"
    and "pa_sid (rs_local s') = pi_sid info" and "pa_identity (rs_local s') = pi_identity info"
    and "rs_info s' = rs_info s" and "follows s s'" and "left_kept s s'"
proof -
  obtain p evs where p: "participant_update_info info (rs_local s) = Some (p, evs)"
    and s': "s' = foldl local_callback (s\<lparr>rs_local := p\<rparr>) evs"
    using assms by (auto simp: update_local_def)
  note frame = local_callbacks_frame [of "s\<lparr>rs_local := p\<rparr>" evs, folded s']
  show eqs: "rs_remote s' = rs_remote s" "rs_objects s' = rs_objects s" "rs_auto_subscribe s' = rs_auto_subscribe s"
    "rs_info s' = rs_info s"
    using frame by (simp_all add: same_room_def)
  show "left_kept s s'" by (rule left_kept_cong) (use frame in \<open>simp_all add: same_room_def\<close>)
  show "pa_sid (rs_local s') = pi_sid info" "pa_identity (rs_local s') = pi_identity info"
    using frame participant_update_info_frame(3,4) [OF p] by simp_all
  obtain res where res: "rs_events s' = rs_events s @ res" "\<forall>ev \<in> set res. \<not> presence_event ev \<and> subject ev = None"
    using frame by auto
  show "follows s s'"
    by (rule follows_about [OF res(1)]) (use res(2) eqs in \<open>auto simp: present_def\<close>)
qed

lemma left_kept_dispatch: "left_kept s (room_dispatch ev s)"
  by (rule left_kept_cong) simp_all

lemma follows_dispatch:
  assumes "\<not> presence_event ev" and "\<forall>r. subject ev = Some r \<longrightarrow> r \<in> present s"
  shows "follows s (room_dispatch ev s)"
  by (rule follows_about [where evs = "[ev]"]) (use assms in \<open>auto simp: present_def\<close>)

lemma room_inv_dispatch [simp]: "room_inv (room_dispatch ev s) = room_inv s"
  by (rule room_inv_cong) simp_all

lemma room_view_dispatch [simp]: "room_view (room_dispatch ev s) = room_view s"
  by (simp add: room_view_def roster_cong [of "room_dispatch ev s" s])

text \<open>What one update promises.\<close>

definition room_good :: "room_session \<Rightarrow> room_session \<Rightarrow> bool" where
  "room_good s s' \<longleftrightarrow> room_inv s' \<and> follows s s' \<and> left_kept s s' \<and> rs_auto_subscribe s' = rs_auto_subscribe s"

lemma room_good_trans: "room_good s s' \<Longrightarrow> room_good s' s'' \<Longrightarrow> room_good s s''"
  by (auto simp: room_good_def intro: follows_trans left_kept_trans)

lemma room_good_dispatch:
  "room_inv s \<Longrightarrow> \<not> presence_event ev \<Longrightarrow> \<forall>r. subject ev = Some r \<longrightarrow> r \<in> present s \<Longrightarrow> room_good s (room_dispatch ev s)"
  by (simp add: room_good_def follows_dispatch left_kept_dispatch)

text \<open>The participant of an identity leaves before its new session is looked at.\<close>

definition stale_removed :: "(string list \<Rightarrow> string list) \<Rightarrow> participant_msg \<Rightarrow> room_session \<Rightarrow> room_session" where
  "stale_removed ord info s = (case get_participant_by_identity (pi_identity info) s of
       None \<Rightarrow> s
     | Some r \<Rightarrow> if pa_sid (rs_objects s ! r) \<noteq> pi_sid info then handle_participant_disconnect ord r s else s)"

lemma stale_removed_spec:
  assumes "room_inv s" and "reorders ord" and "identity_kept info (room_view s)"
  shows "room_good s (stale_removed ord info s)" and "rs_local (stale_removed ord info s) = rs_local s"
    and "\<forall>k r. map_of (rs_remote (stale_removed ord info s)) k = Some r
        \<and> pa_sid (rs_objects (stale_removed ord info s) ! r) = pi_sid info \<longrightarrow> k = pi_identity info"
    and "map_of (rs_remote (stale_removed ord info s)) (pi_identity info) = Some r \<Longrightarrow>
        stale_removed ord info s = s \<and> pa_sid (rs_objects s ! r) = pi_sid info"
    and "roster (stale_removed ord info s) = (roster s)(pi_identity info := roster (stale_removed ord info s) (pi_identity info))"
    and "map_of (rs_remote (stale_removed ord info s)) (pi_identity info) = None \<Longrightarrow> known_tracks info (roster s) = Map.empty"
proof -
  let ?i = "pi_identity info" and ?s1 = "stale_removed ord info s"
  have kept: "k = ?i" if "map_of (rs_remote s) k = Some r" "pa_sid (rs_objects s ! r) = pi_sid info" for k r
    using assms(3) that by (auto simp: identity_kept_def room_view_def roster_def entry_of_def)
  consider (stale) r where "map_of (rs_remote s) ?i = Some r" "pa_sid (rs_objects s ! r) \<noteq> pi_sid info"
    | (same) "?s1 = s" "\<forall>r. map_of (rs_remote s) ?i = Some r \<longrightarrow> pa_sid (rs_objects s ! r) = pi_sid info"
    by (cases "map_of (rs_remote s) ?i") (auto simp: stale_removed_def get_participant_by_identity_def)
  then have "room_good s ?s1 \<and> rs_local ?s1 = rs_local s
    \<and> (\<forall>k r. map_of (rs_remote ?s1) k = Some r \<and> pa_sid (rs_objects ?s1 ! r) = pi_sid info \<longrightarrow> k = ?i)
    \<and> (\<forall>r. map_of (rs_remote ?s1) ?i = Some r \<longrightarrow> ?s1 = s \<and> pa_sid (rs_objects s ! r) = pi_sid info)
    \<and> roster ?s1 = (roster s)(?i := roster ?s1 ?i)
    \<and> (map_of (rs_remote ?s1) ?i = None \<longrightarrow> known_tracks info (roster s) = Map.empty)"
  proof cases
    case stale
    then have e: "?s1 = handle_participant_disconnect ord r s"
      by (simp add: stale_removed_def get_participant_by_identity_def)
    note d = disconnect_spec [OF assms(1,2) stale(1), folded e, unfolded Let_def]
    have sub: "map_of (rs_remote s) k = Some r' \<and> rs_objects ?s1 ! r' = rs_objects s ! r' \<and> k \<noteq> ?i"
      if "map_of (rs_remote ?s1) k = Some r'" for k r'
      using d that by (auto simp: delete_conv' split: if_splits)
    have d1: "roster ?s1 = (roster s)(?i := None)" using d by blast
    have c1: "roster ?s1 = (roster s)(?i := roster ?s1 ?i)" by (simp add: d1)
    have c2: "room_good s ?s1" "rs_local ?s1 = rs_local s" unfolding room_good_def using d by blast+
    have c3: "k = ?i" if "map_of (rs_remote ?s1) k = Some r'" "pa_sid (rs_objects ?s1 ! r') = pi_sid info" for k r'
    proof -
      from sub [OF that(1)] have "map_of (rs_remote s) k = Some r'" "rs_objects ?s1 ! r' = rs_objects s ! r'" by blast+
      with that(2) show ?thesis by (intro kept) simp_all
    qed
    have c4: "map_of (rs_remote ?s1) ?i \<noteq> Some r'" for r' using sub by blast
    have c5: "known_tracks info (roster s) = Map.empty"
      using stale by (simp add: known_tracks_def roster_def entry_of_def)
    show ?thesis
    proof (intro conjI allI impI)
      fix k r assume "map_of (rs_remote ?s1) k = Some r \<and> pa_sid (rs_objects ?s1 ! r) = pi_sid info"
      then show "k = ?i" by (blast intro: c3)
    next
      fix r assume "map_of (rs_remote ?s1) ?i = Some r"
      then have False using c4 [of r] by simp
      then show "?s1 = s" and "pa_sid (rs_objects s ! r) = pi_sid info" by simp_all
    qed (rule c2 c1 c5)+
  next
    case same
    have "known_tracks info (roster s) = Map.empty" if "map_of (rs_remote s) ?i = None"
      using that by (simp add: known_tracks_def roster_def)
    note empty = this
    show ?thesis
      unfolding same(1)
    proof (intro conjI allI impI)
      show "room_good s s" using assms(1) by (simp add: room_good_def follows_refl left_kept_refl)
      fix k r assume "map_of (rs_remote s) k = Some r \<and> pa_sid (rs_objects s ! r) = pi_sid info"
      then show "k = ?i" by (blast intro: kept)
    next
      fix r assume "map_of (rs_remote s) ?i = Some r"
      then show "pa_sid (rs_objects s ! r) = pi_sid info" using same(2) by blast
    next
      assume "map_of (rs_remote s) ?i = None"
      then show "known_tracks info (roster s) = Map.empty" by (rule empty)
    qed simp_all
  qed
  then show "room_good s ?s1" "rs_local ?s1 = rs_local s"
    "\<forall>k r. map_of (rs_remote ?s1) k = Some r \<and> pa_sid (rs_objects ?s1 ! r) = pi_sid info \<longrightarrow> k = ?i"
    "map_of (rs_remote ?s1) ?i = Some r \<Longrightarrow> ?s1 = s \<and> pa_sid (rs_objects s ! r) = pi_sid info"
    "roster ?s1 = (roster s)(?i := roster ?s1 ?i)"
    "map_of (rs_remote ?s1) ?i = None \<Longrightarrow> known_tracks info (roster s) = Map.empty"
    by blast+
qed

lemma participant_update_one_remote:
  assumes "participant_sid_try_from (pi_sid info) = Some sid"
    and "pi_sid info \<noteq> pa_sid (rs_local s)" and "pi_identity info \<noteq> pa_identity (rs_local s)"
  shows "participant_update_one ord info s =
    (let s = stale_removed ord info s
     in case get_participant_by_sid ord (pi_sid info) s of
          Some r \<Rightarrow>
            if pi_state info = DISCONNECTED_STATE
            then map_option (\<lambda>s. ([], handle_participant_disconnect ord r s)) (update_remote ord info r s)
            else map_option (\<lambda>s'. ([Remote_Participant r],
                   if pa_state (rs_objects s ! r) \<noteq> P_Active \<and> pa_state (rs_objects s' ! r) = P_Active
                   then room_dispatch (Re_ParticipantActive r) s' else s')) (update_remote ord info r s)
        | None \<Rightarrow>
            if pi_state info = DISCONNECTED_STATE then Some ([], s)
            else (case create_participant info s of
                    None \<Rightarrow> None
                  | Some (r, s) \<Rightarrow>
                      let s = room_dispatch (Re_ParticipantConnected r) s;
                          s = (if pa_state (rs_objects s ! r) = P_Active
                               then room_dispatch (Re_ParticipantActive r) s else s)
                      in map_option (\<lambda>s. ([], s)) (update_remote ord info r s)))"
proof -
  have "sid = pi_sid info" using assms(1) by (simp add: participant_sid_try_from_def split: if_splits)
  then show ?thesis
    using assms
    by (cases "get_participant_by_sid ord (pi_sid info) (stale_removed ord info s)")
      (simp_all add: participant_update_one_def stale_removed_def [symmetric] Let_def)
qed

text \<open>Every way through an update keeps the invariant, is followed by the events, and refines the view.\<close>

definition update_promise :: "participant_msg \<Rightarrow> room_session \<Rightarrow> room_session \<Rightarrow> bool" where
  "update_promise info s s' \<longleftrightarrow> room_good s s' \<and> room_view s' = view_update (rs_auto_subscribe s) info (room_view s)"

lemma update_promiseI:
  assumes "room_good s s'" and "rs_local s' = rs_local s"
    and "pi_sid info \<noteq> pa_sid (rs_local s)" and "pi_identity info \<noteq> pa_identity (rs_local s)"
    and "roster s' = (if pi_state info = DISCONNECTED_STATE then (roster s)(pi_identity info := None)
      else (roster s)(pi_identity info \<mapsto> (pi_sid info,
        listed_tracks (rs_auto_subscribe s) (pi_tracks info) (known_tracks info (roster s)))))"
  shows "update_promise info s s'"
  using assms by (simp add: update_promise_def room_view_def view_update_def)

lemma update_known_promise:
  assumes "room_inv s" and "reorders ord" and "identity_kept info (room_view s)"
    and "pi_sid info \<noteq> pa_sid (rs_local s)" and "pi_identity info \<noteq> pa_identity (rs_local s)"
    and "get_participant_by_sid ord (pi_sid info) (stale_removed ord info s) = Some r"
    and "update_remote ord info r (stale_removed ord info s) = Some s'"
  shows "pi_state info \<noteq> DISCONNECTED_STATE \<Longrightarrow> update_promise info s s' \<and> r \<in> present s'"
    and "pi_state info = DISCONNECTED_STATE \<Longrightarrow> update_promise info s (handle_participant_disconnect ord r s')"
proof -
  let ?i = "pi_identity info"
  note st = stale_removed_spec [OF assms(1-3)]
  have inv: "room_inv (stale_removed ord info s)" using st(1) by (simp add: room_good_def)
  obtain k where k: "map_of (rs_remote (stale_removed ord info s)) k = Some r"
      "pa_sid (rs_objects (stale_removed ord info s) ! r) = pi_sid info"
    using get_participant_by_sid_Some [OF inv assms(2)] assms(6) by blast
  then have "k = ?i" using st(3) by blast
  with k have m: "map_of (rs_remote (stale_removed ord info s)) ?i = Some r" by simp
  from st(4) [OF this] have same: "stale_removed ord info s = s" "pa_sid (rs_objects s ! r) = pi_sid info" by simp_all
  note m = m [unfolded same(1)]
  have sids: "\<forall>k' r'. map_of (rs_remote s) k' = Some r' \<and> pa_sid (rs_objects s ! r') = pi_sid info \<longrightarrow> k' = ?i"
    using st(3) unfolding same(1) .
  note u = update_remote_spec [OF assms(1,2) m refl sids assms(7) [unfolded same(1)]]
  have known: "known_tracks info (roster s) = track_views (rs_objects s ! r)"
    using m same(2) by (simp add: known_tracks_def roster_def entry_of_def)
  have good: "room_good s s'" using u by (simp add: room_good_def)
  have m': "map_of (rs_remote s') ?i = Some r" using m u(6) by simp
  show "update_promise info s s' \<and> r \<in> present s'" if "pi_state info \<noteq> DISCONNECTED_STATE"
    using that room_invD(5) [OF u(1) m']
    by (intro conjI update_promiseI [OF good u(4) assms(4,5)]) (simp_all add: u(2) known)
  show "update_promise info s (handle_participant_disconnect ord r s')" if "pi_state info = DISCONNECTED_STATE"
  proof -
    note d = disconnect_spec [OF u(1) assms(2) m', unfolded Let_def]
    have "room_good s' (handle_participant_disconnect ord r s')" using d by (simp add: room_good_def)
    with good have g: "room_good s (handle_participant_disconnect ord r s')" by (rule room_good_trans)
    have l: "rs_local (handle_participant_disconnect ord r s') = rs_local s" using d u(4) by simp
    have "roster (handle_participant_disconnect ord r s') = (roster s')(?i := None)" using d by blast
    then have r: "roster (handle_participant_disconnect ord r s') = (roster s)(?i := None)" by (simp add: u(2))
    show ?thesis by (rule update_promiseI [OF g l assms(4,5)]) (simp add: that r)
  qed
qed

lemma update_unknown_promise:
  assumes "room_inv s" and "reorders ord" and "identity_kept info (room_view s)"
    and "pi_sid info \<noteq> pa_sid (rs_local s)" and "pi_identity info \<noteq> pa_identity (rs_local s)"
    and "get_participant_by_sid ord (pi_sid info) (stale_removed ord info s) = None"
  shows "pi_state info = DISCONNECTED_STATE \<Longrightarrow> update_promise info s (stale_removed ord info s)"
    and "pi_state info \<noteq> DISCONNECTED_STATE \<Longrightarrow> create_participant info (stale_removed ord info s) = Some (r, s1) \<Longrightarrow>
      s2 = room_dispatch (Re_ParticipantConnected r) s1 \<Longrightarrow>
      s3 = (if pa_state (rs_objects s2 ! r) = P_Active then room_dispatch (Re_ParticipantActive r) s2 else s2) \<Longrightarrow>
      update_remote ord info r s3 = Some s' \<Longrightarrow> update_promise info s s'"
proof -
  let ?i = "pi_identity info" and ?t = "stale_removed ord info s"
  note st = stale_removed_spec [OF assms(1-3)]
  have inv: "room_inv ?t" and auto: "rs_auto_subscribe ?t = rs_auto_subscribe s" using st(1) by (simp_all add: room_good_def)
  have nosid: "\<forall>k r. map_of (rs_remote ?t) k = Some r \<longrightarrow> pa_sid (rs_objects ?t ! r) \<noteq> pi_sid info"
    using get_participant_by_sid_None [OF inv assms(2)] assms(6) by blast
  have absent: "map_of (rs_remote ?t) ?i = None"
  proof (rule ccontr)
    assume "map_of (rs_remote ?t) ?i \<noteq> None"
    then obtain r where r: "map_of (rs_remote ?t) ?i = Some r" by blast
    from st(4) [OF r] have "?t = s" "pa_sid (rs_objects s ! r) = pi_sid info" by simp_all
    then have "pa_sid (rs_objects ?t ! r) = pi_sid info" by simp
    with nosid r show False by blast
  qed
  have known: "known_tracks info (roster s) = Map.empty" by (rule st(6) [OF absent])
  have none: "roster ?t ?i = None" using absent by (simp add: roster_def)
  have ros: "roster ?t = (roster s)(?i := None)" using st(5) unfolding none .
  show "update_promise info s ?t" if "pi_state info = DISCONNECTED_STATE"
    by (rule update_promiseI [OF st(1,2) assms(4,5)]) (simp add: that ros)
  show "update_promise info s s'" if "pi_state info \<noteq> DISCONNECTED_STATE"
    and c: "create_participant info ?t = Some (r, s1)" and s2: "s2 = room_dispatch (Re_ParticipantConnected r) s1"
    and s3: "s3 = (if pa_state (rs_objects s2 ! r) = P_Active then room_dispatch (Re_ParticipantActive r) s2 else s2)"
    and u: "update_remote ord info r s3 = Some s'"
  proof -
    note cs = create_spec [OF inv absent nosid c]
    have p2: "present s2 = insert r (present ?t)" using cs(8) by (simp add: s2 present_def)
    have "follows ?t s2"
      unfolding follows_def
      by (rule exI [of _ "[Re_ParticipantConnected r]"]) (use cs(7,9) p2 in \<open>simp add: s2 seen_def\<close>)
    moreover have "left_kept ?t s2" unfolding s2 by (rule left_kept_trans [OF cs(14) left_kept_dispatch])
    ultimately have g2: "room_good ?t s2" using cs(1,5) by (simp add: room_good_def s2)
    have "room_good s2 s3"
    proof (cases "pa_state (rs_objects s2 ! r) = P_Active")
      case True
      have "room_good s2 (room_dispatch (Re_ParticipantActive r) s2)"
        by (rule room_good_dispatch) (use cs(1) p2 in \<open>simp_all add: s2 presence_event_def\<close>)
      with True show ?thesis by (simp add: s3)
    next
      case False
      with g2 show ?thesis by (simp add: s3 room_good_def follows_refl left_kept_refl)
    qed
    with g2 have g3: "room_good ?t s3" by (rule room_good_trans)
    have frame: "rs_remote s3 = rs_remote s1" "rs_objects s3 = rs_objects s1" "rs_local s3 = rs_local s1"
        "rs_auto_subscribe s3 = rs_auto_subscribe s1"
      by (simp_all add: s3 s2)
    have inv3: "room_inv s3" using g3 by (simp add: room_good_def)
    have m: "map_of (rs_remote s3) ?i = Some r" by (simp add: frame cs(6))
    have sids: "\<forall>k' r'. map_of (rs_remote s3) k' = Some r' \<and> pa_sid (rs_objects s3 ! r') = pi_sid info \<longrightarrow> k' = ?i"
    proof (intro allI impI)
      fix k' r' assume a: "map_of (rs_remote s3) k' = Some r' \<and> pa_sid (rs_objects s3 ! r') = pi_sid info"
      have "pa_sid (rs_objects s3 ! r) = pi_sid info" by (simp add: frame cs(13))
      with a m inv3 show "k' = ?i" unfolding room_inv_def by metis
    qed
    note us = update_remote_spec [OF inv3 assms(2) m refl sids u]
    have "room_good s3 s'" using us by (simp add: room_good_def)
    with g3 have "room_good ?t s'" by (rule room_good_trans)
    with st(1) have g: "room_good s s'" by (rule room_good_trans)
    have l: "rs_local s' = rs_local s" using us(4) frame(3) cs(4) st(2) by simp
    have "roster s3 = roster s1" by (rule roster_cong [OF frame(1,2)])
    then have "roster s' = (roster s)(?i \<mapsto> (pi_sid info,
        listed_tracks (rs_auto_subscribe s) (pi_tracks info) Map.empty))"
      using us(2) cs(2) by (simp add: ros frame cs(5,10) auto)
    then show ?thesis
      using that(1) by (intro update_promiseI [OF g l assms(4,5)]) (simp add: known)
  qed
qed

lemma participant_update_one_promise:
  assumes "room_inv s" and "reorders ord" and "identity_kept info (room_view s)"
    and "participant_update_one ord info s = Some (ws, s')"
  shows "update_promise info s s' \<and> (\<forall>r. Remote_Participant r \<in> set ws \<longrightarrow> r \<in> present s')"
proof (cases "pi_sid info = pa_sid (rs_local s) \<or> pi_identity info = pa_identity (rs_local s)")
  case True
  have sid: "participant_sid_try_from (pi_sid info) = Some (pi_sid info)"
    using assms(4) by (auto simp: participant_update_one_def participant_sid_try_from_def split: option.splits if_splits)
  with assms(4) True have u: "update_local info s = Some s'" and ws: "ws = [Local_Participant]"
    by (auto simp: participant_update_one_def)
  note us = update_local_spec [OF u]
  have "room_good s s'" using us(7,8) room_inv_cong [OF us(1-3)] assms(1) us(3) by (simp add: room_good_def)
  moreover have "room_view s' = view_update (rs_auto_subscribe s) info (room_view s)"
    using True by (simp add: room_view_def view_update_def us(4,5) roster_cong [OF us(1,2)])
  ultimately show ?thesis by (simp add: update_promise_def ws)
next
  case False
  then have nl: "pi_sid info \<noteq> pa_sid (rs_local s)" "pi_identity info \<noteq> pa_identity (rs_local s)" by simp_all
  obtain sid where sid: "participant_sid_try_from (pi_sid info) = Some sid"
    using assms(4) by (auto simp: participant_update_one_def split: option.splits)
  note run = assms(4) [unfolded participant_update_one_remote [OF sid nl] Let_def]
  let ?t = "stale_removed ord info s"
  show ?thesis
  proof (cases "get_participant_by_sid ord (pi_sid info) ?t")
    case None
    note un = update_unknown_promise [OF assms(1-3) nl None]
    show ?thesis
    proof (cases "pi_state info = DISCONNECTED_STATE")
      case True
      with run None un(1) show ?thesis by simp
    next
      case ns: False
      then obtain r s1 where c: "create_participant info ?t = Some (r, s1)"
        using run None by (auto split: option.splits)
      with run None ns un(2) [OF ns c refl refl] show ?thesis by auto
    qed
  next
    case (Some r)
    then obtain s1 where u: "update_remote ord info r ?t = Some s1"
      using run by (auto split: if_splits)
    note kn = update_known_promise [OF assms(1-3) nl Some u]
    show ?thesis
    proof (cases "pi_state info = DISCONNECTED_STATE")
      case True
      with run Some u kn(2) show ?thesis by auto
    next
      case ns: False
      note kn = kn(1) [OF ns]
      have inv: "room_inv s1" using kn by (simp add: update_promise_def room_good_def)
      have "room_good s1 (room_dispatch (Re_ParticipantActive r) s1)"
        by (rule room_good_dispatch [OF inv]) (use kn in \<open>simp_all add: presence_event_def\<close>)
      moreover have "room_good s s1" using kn by (simp add: update_promise_def)
      ultimately have "room_good s (room_dispatch (Re_ParticipantActive r) s1)" by (blast intro: room_good_trans)
      then have "update_promise info s (room_dispatch (Re_ParticipantActive r) s1)"
        using kn by (simp add: update_promise_def)
      with run Some u ns kn show ?thesis by (auto simp: present_def)
    qed
  qed
qed

end
