(* ===== verification/Room_Runs.thy ===== *)
theory Room_Runs
  imports Room_Roster
begin

text \<open>
  The runs of the room: every handler keeps the invariant of the participants and is followed by
  the events, so that whole runs do; and what follows for updates, reconnections and speakers.
\<close>

section \<open>All handlers\<close>

text \<open>A handler that leaves the participants alone.\<close>

lemma room_good_frame:
  assumes "room_inv s" and "rs_remote s' = rs_remote s" and "rs_objects s' = rs_objects s"
    and "rs_auto_subscribe s' = rs_auto_subscribe s" and "ri_state (rs_info s') = ri_state (rs_info s)"
    and "rs_events s' = rs_events s @ evs" and "set (rs_waiting s') \<subseteq> set (rs_waiting s)"
    and "\<forall>ev \<in> set evs. \<not> presence_event ev \<and> (\<forall>r. subject ev = Some r \<longrightarrow> r \<in> present s)"
  shows "room_good s s'"
proof -
  have "present s' = present s" by (simp add: present_def assms(2))
  from follows_about [OF assms(6) this assms(5,8)] room_inv_cong [OF assms(2-4)] assms(1,4)
    left_kept_cong [OF assms(2,3,7)]
  show ?thesis by (simp add: room_good_def)
qed

lemma room_good_refl: "room_inv s \<Longrightarrow> room_good s s"
  by (simp add: room_good_def follows_refl left_kept_refl)

lemma by_identity_present:
  "get_participant_by_identity k s = Some r \<Longrightarrow> r \<in> present s"
  by (auto simp: get_participant_by_identity_def present_def ran_def)

lemma by_sid_present:
  assumes "room_inv s" and "reorders ord" and "get_participant_by_sid ord sid s = Some r"
  shows "r \<in> present s"
  using get_participant_by_sid_Some [OF assms(1,2)] assms(3) by (auto simp: present_def ran_def)

text \<open>An operation on a participant that is present and stays the same person.\<close>

lemma with_object_good:
  assumes "room_inv s" and "r \<in> present s" and "pa_sid p = pa_sid (rs_objects s ! r)"
    and "pa_identity p = pa_identity (rs_objects s ! r)"
    and "pa_auto_subscribe p = pa_auto_subscribe (rs_objects s ! r)" and "publications_ok p"
  shows "room_good s (with_object r (p, evs) s)"
proof -
  obtain k where k: "map_of (rs_remote s) k = Some r" using assms(2) by (auto simp: present_def ran_def)
  note ok = room_invD [OF assms(1) k]
  have "\<forall>k' r'. map_of (rs_remote s) k' = Some r' \<and> pa_sid (rs_objects s ! r') = pa_sid p \<longrightarrow> k' = k"
    using assms(1) k unfolding room_inv_def assms(3) by blast
  from with_object_inv(1) [OF assms(1) k _ assms(6) _ this, of evs] with_object_follows [OF assms(2)]
    with_object_left [OF assms(2)]
  show ?thesis using ok(2,4) assms(4,5) by (simp add: room_good_def with_object_frame)
qed

lemma user_call_good:
  assumes "room_inv s" and "user_call identity sid call s = Some s'"
  shows "room_good s s'"
proof (cases "get_participant_by_identity identity s")
  case None
  with assms room_good_refl show ?thesis by (simp add: user_call_def)
next
  case (Some r)
  then have m: "map_of (rs_remote s) identity = Some r" by (simp add: get_participant_by_identity_def)
  obtain p evs where c: "participant_call sid call (rs_objects s ! r) = Some (p, evs)" and s': "s' = with_object r (p, evs) s"
    using assms(2) Some by (auto simp: user_call_def)
  from participant_call_keeps [OF room_invD(3) [OF assms(1) m] c] show ?thesis
    unfolding s' using same_personD [of "rs_objects s ! r" p]
    by (intro with_object_good [OF assms(1) by_identity_present [OF Some]]) simp_all
qed

text \<open>A task that waits for a track, whether its participant is still present or not.\<close>

lemma media_wait_done:
  assumes "room_inv s" and "t = s\<lparr>rs_waiting := take i (rs_waiting s) @ drop (Suc i) (rs_waiting s)\<rparr>"
  shows "room_good s t" and "room_good t (with_object r (rs_objects s ! r, [Pe_TrackSubscriptionFailed sid]) t)"
proof -
  have "set (rs_waiting t) \<subseteq> set (rs_waiting s)" by (auto simp: assms(2) dest: in_set_takeD in_set_dropD)
  then show g: "room_good s t" by (intro room_good_frame [OF assms(1), where evs = "[]"]) (simp_all add: assms(2))
  then have "room_inv t" by (simp add: room_good_def)
  then show "room_good t (with_object r (rs_objects s ! r, [Pe_TrackSubscriptionFailed sid]) t)"
    by (rule room_good_frame [where evs = "[Re_TrackSubscriptionFailed r sid]"])
      (simp_all add: with_object_def participant_callback_def room_dispatch_def assms(2) presence_event_def Let_def)
qed

lemma media_track_wait_good:
  assumes "room_inv s" and "left_inv s"
  shows "room_good s (media_track_wait i expired s)"
proof -
  define t where "t = s\<lparr>rs_waiting := take i (rs_waiting s) @ drop (Suc i) (rs_waiting s)\<rparr>"
  let ?w = "rs_waiting s ! i"
  let ?r = "mw_participant ?w"
  note d = media_wait_done [OF assms(1) t_def]
  have run: "media_track_wait i expired s = (if i \<ge> length (rs_waiting s) then s
      else if expired then with_object ?r (rs_objects s ! ?r, [Pe_TrackSubscriptionFailed (mw_sid ?w)]) t
      else if get_track_publication (mw_sid ?w) (rs_objects s ! ?r) = None then s
      else case add_subscribed_media_track (mw_sid ?w) (mw_kind ?w) (mw_endpoint ?w) (mw_enabled ?w) (rs_objects s ! ?r) of
        None \<Rightarrow> t | Some result \<Rightarrow> with_object ?r result t)"
    unfolding media_track_wait_def Let_def t_def [symmetric] ..
  consider "i \<ge> length (rs_waiting s)" | (expired) "i < length (rs_waiting s)" expired
    | (waits) "i < length (rs_waiting s)" "\<not> expired" "get_track_publication (mw_sid ?w) (rs_objects s ! ?r) = None"
    | (found) "i < length (rs_waiting s)" "\<not> expired" "get_track_publication (mw_sid ?w) (rs_objects s ! ?r) \<noteq> None"
    by linarith
  then show ?thesis
  proof cases
    case expired
    then show ?thesis unfolding run using room_good_trans [OF d(1) d(2)] by simp
  next
    case found
    then have "?r < length (rs_objects s)" using assms(2) by (simp add: left_inv_def)
    moreover have "pa_publications (rs_objects s ! ?r) \<noteq> []" using found(3) by (auto simp: get_track_publication_def)
    ultimately have r: "?r \<in> present s" using assms(2) by (auto simp: left_inv_def)
    then obtain k where m: "map_of (rs_remote s) k = Some ?r" by (auto simp: present_def ran_def)
    show ?thesis
    proof (cases "add_subscribed_media_track (mw_sid ?w) (mw_kind ?w) (mw_endpoint ?w) (mw_enabled ?w) (rs_objects s ! ?r)")
      case None
      have "media_track_wait i expired s = t" unfolding run using found None by auto
      with d(1) show ?thesis by simp
    next
      case (Some result)
      obtain p evs where res: "result = (p, evs)" by fastforce
      have it: "room_inv t" using d(1) by (simp add: room_good_def)
      have obj: "rs_objects t = rs_objects s" "?r \<in> present t" using r by (simp_all add: t_def present_def)
      from add_subscribed_media_track_keeps [OF room_invD(3) [OF assms(1) m]] Some res
      have "room_good t (with_object ?r (p, evs) t)"
        using same_personD [of "rs_objects s ! ?r" p]
        by (intro with_object_good [OF it obj(2)]) (simp_all add: obj(1))
      with d(1) have "room_good s (with_object ?r (p, evs) t)" by (rule room_good_trans)
      moreover have "media_track_wait i expired s = with_object ?r (p, evs) t"
        unfolding run using found Some res by auto
      ultimately show ?thesis by simp
    qed
  qed (unfold run, use room_good_refl [OF assms(1)] in simp_all)
qed

lemma handle_media_track_good:
  assumes "room_inv s" and "reorders ord"
    and "handle_media_track ord single_pc mapped stream_id track_id kind endpoint enabled s = Some s'"
  shows "room_good s s'"
proof -
  have "room_good s (s\<lparr>rs_waiting := rs_waiting s @ [w]\<rparr>)"
    if found: "get_participant_by_sid ord psid s = Some (mw_participant w)" for psid w
  proof -
    obtain k where "map_of (rs_remote s) k = Some (mw_participant w)"
      using get_participant_by_sid_Some [OF assms(1,2)] found by blast
    then have w: "mw_participant w < length (rs_objects s)" by (rule room_invD(1) [OF assms(1)])
    let ?t = "s\<lparr>rs_waiting := rs_waiting s @ [w]\<rparr>"
    have "left_kept s ?t" using w by (simp add: left_kept_def left_inv_def present_def)
    moreover have "follows s ?t" by (simp add: follows_def seen_def present_def)
    moreover have "room_inv ?t" using assms(1) room_inv_cong [of ?t s] by simp
    ultimately show ?thesis by (simp add: room_good_def)
  qed
  with assms(3) room_good_refl [OF assms(1)] show ?thesis
    by (auto simp: handle_media_track_def split: option.splits)
qed

text \<open>Fields of participants that no invariant speaks of.\<close>

lemma update_who_good:
  assumes "room_inv s" and "find_who ord sid s = Some w" and "reorders ord"
    and "\<And>p. pa_sid (f p) = pa_sid p \<and> pa_identity (f p) = pa_identity p \<and> pa_publications (f p) = pa_publications p
      \<and> pa_auto_subscribe (f p) = pa_auto_subscribe p"
  shows "room_inv (update_who f w s)" and "present (update_who f w s) = present s"
    and "rs_events (update_who f w s) = rs_events s" and "rs_info (update_who f w s) = rs_info s"
    and "rs_auto_subscribe (update_who f w s) = rs_auto_subscribe s" and "\<And>r. w = Remote_Participant r \<Longrightarrow> r \<in> present s"
    and "left_kept s (update_who f w s)"
proof -
  show "left_kept s (update_who f w s)"
  proof (rule left_kept_objects)
    fix r
    show "pa_publications (rs_objects (update_who f w s) ! r) = pa_publications (rs_objects s ! r)"
    proof (cases w)
      case (Remote_Participant r')
      then show ?thesis using assms(4) [of "rs_objects s ! r'"]
        by (cases "r' < length (rs_objects s)"; cases "r' = r") (simp_all add: update_who_def list_update_beyond)
    qed (simp add: update_who_def)
  qed (simp_all add: update_who_def split: who.split)
  show "present (update_who f w s) = present s" "rs_events (update_who f w s) = rs_events s"
    "rs_info (update_who f w s) = rs_info s" "rs_auto_subscribe (update_who f w s) = rs_auto_subscribe s"
    by (simp_all add: update_who_def present_def split: who.split)
  show "r \<in> present s" if "w = Remote_Participant r" for r
    using assms(2) that by_sid_present [OF assms(1,3)] by (auto simp: find_who_def split: if_splits)
  show "room_inv (update_who f w s)"
  proof (cases w)
    case Local_Participant
    then show ?thesis using assms(1) by (simp add: update_who_def room_inv_def)
  next
    case (Remote_Participant r)
    have at: "pa_sid ((rs_objects s)[r := f (rs_objects s ! r)] ! r') = pa_sid (rs_objects s ! r')
      \<and> pa_identity ((rs_objects s)[r := f (rs_objects s ! r)] ! r') = pa_identity (rs_objects s ! r')
      \<and> pa_publications ((rs_objects s)[r := f (rs_objects s ! r)] ! r') = pa_publications (rs_objects s ! r')
      \<and> pa_auto_subscribe ((rs_objects s)[r := f (rs_objects s ! r)] ! r') = pa_auto_subscribe (rs_objects s ! r')" for r'
      using assms(4) [of "rs_objects s ! r"]
      by (cases "r < length (rs_objects s)"; cases "r' = r") (simp_all add: list_update_beyond)
    have "publications_ok ((rs_objects s)[r := f (rs_objects s ! r)] ! r') = publications_ok (rs_objects s ! r')" for r'
      by (rule publications_ok_cong) (simp add: at)
    with at show ?thesis using assms(1) by (simp add: Remote_Participant update_who_def room_inv_def)
  qed
qed

lemma speakers_loop_good:
  assumes "room_inv s" and "reorders ord" and "speakers_loop ord speakers s = Some (ws, s')"
  shows "room_inv s' \<and> present s' = present s \<and> rs_events s' = rs_events s \<and> rs_info s' = rs_info s
    \<and> rs_auto_subscribe s' = rs_auto_subscribe s \<and> left_kept s s'"
  using assms(1,3)
proof (induction speakers arbitrary: s ws)
  case Nil
  then show ?case by (simp add: left_kept_refl)
next
  case (Cons speaker rest)
  from Cons.prems(2) obtain sid where sid: "participant_sid_try_from (sk_sid speaker) = Some sid"
    by (auto split: option.splits)
  show ?case
  proof (cases "find_who ord sid s")
    case None
    with Cons sid show ?thesis by simp
  next
    case (Some w)
    note u = update_who_good [OF Cons.prems(1) Some assms(2), of "set_level (sk_level speaker) (sk_active speaker)"]
    then have u: "room_inv (update_who (set_level (sk_level speaker) (sk_active speaker)) w s)"
      "present (update_who (set_level (sk_level speaker) (sk_active speaker)) w s) = present s"
      "rs_events (update_who (set_level (sk_level speaker) (sk_active speaker)) w s) = rs_events s"
      "rs_info (update_who (set_level (sk_level speaker) (sk_active speaker)) w s) = rs_info s"
      "rs_auto_subscribe (update_who (set_level (sk_level speaker) (sk_active speaker)) w s) = rs_auto_subscribe s"
      "left_kept s (update_who (set_level (sk_level speaker) (sk_active speaker)) w s)"
      by (simp_all add: set_level_def)
    from Cons.prems(2) Some sid obtain ws' where
      "speakers_loop ord rest (update_who (set_level (sk_level speaker) (sk_active speaker)) w s) = Some (ws', s')"
      by auto
    from Cons.IH [OF u(1) this] u show ?thesis by (auto intro: left_kept_trans)
  qed
qed

lemma handle_speakers_changed_good:
  assumes "room_inv s" and "reorders ord" and "handle_speakers_changed ord speakers s = Some s'"
  shows "room_good s s'"
proof -
  from assms(3) obtain ws t ws' where l: "speakers_loop ord speakers s = Some (ws, t)"
    and s': "s' = room_dispatch (Re_ActiveSpeakersChanged ws') (t\<lparr>rs_active_speakers := ws'\<rparr>)"
    by (auto simp: handle_speakers_changed_def split: option.splits)
  note g = speakers_loop_good [OF assms(1,2) l]
  have "follows s s'"
    by (rule follows_about [where evs = "[Re_ActiveSpeakersChanged ws']"])
      (use g in \<open>simp_all add: s' present_def presence_event_def\<close>)
  moreover have "room_inv s'" using g room_inv_cong [of s' t] by (simp add: s')
  moreover have "left_kept t s'" unfolding s' by (rule left_kept_cong) simp_all
  ultimately show ?thesis using g by (auto simp: room_good_def s' intro: left_kept_trans)
qed

lemma handle_connection_quality_update_good:
  assumes "room_inv s" and "reorders ord" and "handle_connection_quality_update ord updates s = Some s'"
  shows "room_good s s'"
  using assms(1,3)
proof (induction updates arbitrary: s)
  case Nil
  then show ?case by (simp add: room_good_refl)
next
  case (Cons u updates)
  obtain sid q where u: "u = (sid, q)" by fastforce
  with Cons.prems(2) have sid: "participant_sid_try_from sid = Some sid"
    by (auto simp: participant_sid_try_from_def split: if_splits)
  show ?case
  proof (cases "find_who ord sid s")
    case None
    with Cons u sid show ?thesis by simp
  next
    case (Some w)
    define t where "t = update_who (\<lambda>p. p\<lparr>pa_connection_quality := connection_quality_of q\<rparr>) w s"
    note g = update_who_good [OF Cons.prems(1) Some assms(2), of "\<lambda>p. p\<lparr>pa_connection_quality := connection_quality_of q\<rparr>",
        folded t_def, simplified]
    let ?t = "room_dispatch (Re_ConnectionQualityChanged w (connection_quality_of q)) t"
    have "follows s ?t"
      by (rule follows_about [where evs = "[Re_ConnectionQualityChanged w (connection_quality_of q)]"])
        (use g in \<open>cases w; simp add: present_def presence_event_def\<close>)+
    then have "room_good s ?t" using g left_kept_trans [OF g(7) left_kept_dispatch] by (simp add: room_good_def)
    moreover have "handle_connection_quality_update ord updates ?t = Some s'"
      using Cons.prems(2) u sid Some by (simp add: t_def Let_def)
    ultimately show ?thesis using Cons.IH [of ?t] by (meson room_good_def room_good_trans)
  qed
qed

fun updates_kept :: "bool \<Rightarrow> participant_msg list \<Rightarrow> room_view \<Rightarrow> bool" where
  "updates_kept auto [] v = True"
| "updates_kept auto (info # infos) v = (identity_kept info v \<and> updates_kept auto infos (view_update auto info v))"

lemma participant_update_loop_promise:
  assumes "room_inv s" and "reorders ord" and "updates_kept (rs_auto_subscribe s) updates (room_view s)"
    and "participant_update_loop ord updates s = Some (ws, s')"
  shows "room_good s s' \<and> room_view s' = fold (view_update (rs_auto_subscribe s)) updates (room_view s)"
  using assms(1,3,4)
proof (induction updates arbitrary: s ws)
  case Nil
  then show ?case by (simp add: room_good_refl)
next
  case (Cons info infos)
  from Cons.prems(3) obtain ws1 t ws2 where one: "participant_update_one ord info s = Some (ws1, t)"
    and rest: "participant_update_loop ord infos t = Some (ws2, s')"
    by (auto split: option.splits)
  have kept: "identity_kept info (room_view s)" using Cons.prems(2) by simp
  have p: "room_good s t" "room_view t = view_update (rs_auto_subscribe s) info (room_view s)"
    using participant_update_one_promise [OF Cons.prems(1) assms(2) kept one] by (simp_all add: update_promise_def)
  have "updates_kept (rs_auto_subscribe t) infos (room_view t)"
    using Cons.prems(2) p by (simp add: room_good_def)
  from Cons.IH [OF _ this rest] p show ?case by (auto simp: room_good_def intro: follows_trans left_kept_trans)
qed

lemma handle_participant_update_promise:
  assumes "room_inv s" and "reorders ord" and "updates_kept (rs_auto_subscribe s) updates (room_view s)"
    and "handle_participant_update ord updates s = Some s'"
  shows "room_good s s' \<and> room_view s' = fold (view_update (rs_auto_subscribe s)) updates (room_view s)"
proof -
  obtain ws t where l: "participant_update_loop ord updates s = Some (ws, t)"
    and s': "s' = (if ws \<noteq> [] then room_dispatch (Re_ParticipantsUpdated ws) t else t)"
    using assms(4) by (auto simp: handle_participant_update_def)
  note p = participant_update_loop_promise [OF assms(1-3) l]
  have inv: "room_inv t" using p by (simp add: room_good_def)
  have "room_good t (room_dispatch (Re_ParticipantsUpdated ws) t)"
    by (rule room_good_dispatch [OF inv]) (simp_all add: presence_event_def)
  then have "room_good t s'" using inv by (simp add: s' room_good_refl)
  with p have "room_good s s'" by (blast intro: room_good_trans)
  moreover have "room_view s' = room_view t" by (simp add: s')
  ultimately show ?thesis using p by simp
qed

lemma update_connection_state_good:
  assumes "room_inv s" and "update_connection_state c s = (changed, s')"
  shows "room_good s s'" and "ri_state (rs_info s') = c" and "changed \<longleftrightarrow> ri_state (rs_info s) \<noteq> c"
    and "rs_events s' = rs_events s @ (if changed then [Re_ConnectionStateChanged c] else [])"
    and "roster s' = roster s"
proof -
  have i: "room_inv s'"
    using assms room_inv_cong [of s' s] by (auto simp: update_connection_state_def split: if_splits)
  have "follows s s'"
    using assms(2)
    by (auto simp: update_connection_state_def follows_def seen_def present_def split: if_splits)
  moreover have "left_kept s s'"
    using assms(2) by (intro left_kept_cong) (auto simp: update_connection_state_def split: if_splits)
  ultimately show "room_good s s'" using i assms(2) by (auto simp: room_good_def update_connection_state_def split: if_splits)
  show "ri_state (rs_info s') = c" "changed \<longleftrightarrow> ri_state (rs_info s) \<noteq> c"
    "rs_events s' = rs_events s @ (if changed then [Re_ConnectionStateChanged c] else [])"
    using assms(2) by (auto simp: update_connection_state_def split: if_splits)
  show "roster s' = roster s"
    using assms(2) by (intro roster_cong) (auto simp: update_connection_state_def split: if_splits)
qed

lemma reconnecting_good: "room_inv s \<Longrightarrow> room_good s (reconnecting s)"
proof -
  assume inv: "room_inv s"
  obtain b t where t: "update_connection_state Conn_Reconnecting s = (b, t)" by fastforce
  note g = update_connection_state_good(1) [OF inv t]
  then have "room_inv t" by (simp add: room_good_def)
  then have "room_good t (room_dispatch Re_Reconnecting t)"
    by (rule room_good_dispatch) (simp_all add: presence_event_def)
  with g show ?thesis by (auto simp: reconnecting_def t intro: room_good_trans)
qed

lemma reconnected_good: "room_inv s \<Longrightarrow> room_good s (reconnected s)"
proof -
  assume inv: "room_inv s"
  obtain b t where t: "update_connection_state Conn_Connected s = (b, t)" by fastforce
  note g = update_connection_state_good(1) [OF inv t]
  then have "room_inv t" by (simp add: room_good_def)
  then have "room_good t (room_dispatch Re_Reconnected t)"
    by (rule room_good_dispatch) (simp_all add: presence_event_def)
  with g show ?thesis by (auto simp: reconnected_def t intro: room_good_trans)
qed

lemma handle_room_update_good: "room_inv s \<Longrightarrow> room_good s (handle_room_update room s)"
  by (rule room_good_frame [where evs = "drop (length (rs_events s)) (rs_events (handle_room_update room s))"])
    (auto simp: handle_room_update_def Let_def presence_event_def)

text \<open>Disconnecting participants one by one.\<close>

lemma disconnect_all_good:
  assumes "room_inv s" and "reorders ord" and "distinct ks" and "set ks \<subseteq> dom (map_of (rs_remote s))"
    and "refs = map (\<lambda>k. the (map_of (rs_remote s) k)) ks"
  shows "room_good s (fold (handle_participant_disconnect ord) refs s)
    \<and> roster (fold (handle_participant_disconnect ord) refs s) = roster s |` (- set ks)
    \<and> rs_local (fold (handle_participant_disconnect ord) refs s) = rs_local s"
  using assms(1,3-5)
proof (induction ks arbitrary: s refs)
  case Nil
  then show ?case by (simp add: room_good_refl restrict_map_def)
next
  case (Cons k ks)
  then obtain r where r: "map_of (rs_remote s) k = Some r" by auto
  let ?t = "handle_participant_disconnect ord r s"
  note d = disconnect_spec [OF Cons.prems(1) assms(2) r, unfolded Let_def]
  have g: "room_good s ?t" using d by (simp add: room_good_def)
  have same: "map_of (rs_remote ?t) k' = map_of (rs_remote s) k'" if "k' \<in> set ks" for k'
    using that Cons.prems(2) d by (auto simp: delete_conv')
  have "set ks \<subseteq> dom (map_of (rs_remote ?t))" using same Cons.prems(3) by (auto simp: dom_def)
  moreover have "map (\<lambda>k. the (map_of (rs_remote s) k)) ks = map (\<lambda>k. the (map_of (rs_remote ?t) k)) ks"
    using same by simp
  moreover have "room_inv ?t" "distinct ks" using d Cons.prems(2) by auto
  ultimately have IH: "room_good ?t (fold (handle_participant_disconnect ord) (map (\<lambda>k. the (map_of (rs_remote s) k)) ks) ?t)
    \<and> roster (fold (handle_participant_disconnect ord) (map (\<lambda>k. the (map_of (rs_remote s) k)) ks) ?t) = roster ?t |` (- set ks)
    \<and> rs_local (fold (handle_participant_disconnect ord) (map (\<lambda>k. the (map_of (rs_remote s) k)) ks) ?t) = rs_local ?t"
    using Cons.IH [of ?t] by blast
  have ro: "roster ?t |` (- set ks) = roster s |` (- set (k # ks))"
    using d by (auto simp: restrict_map_def fun_eq_iff)
  let ?u = "fold (handle_participant_disconnect ord) (map (\<lambda>k. the (map_of (rs_remote s) k)) ks) ?t"
  have u: "fold (handle_participant_disconnect ord) refs s = ?u" by (simp add: Cons.prems(4) r)
  have "room_good s ?u" using room_good_trans [OF g] IH by blast
  moreover have "roster ?u = roster s |` (- set (k # ks))" using IH ro by (simp only:)
  moreover have "rs_local ?u = rs_local s" using IH d by (simp only:)
  ultimately show ?case unfolding u by blast
qed

lemma handle_restarting_good:
  assumes "room_inv s" and "reorders ord"
  shows "room_good s (handle_restarting ord s)" and "roster (handle_restarting ord s) = Map.empty"
    and "rs_local (handle_restarting ord s) = rs_local s"
proof -
  let ?ks = "ord (map fst (rs_remote s))"
  let ?t = "fold (handle_participant_disconnect ord) (map (\<lambda>k. the (map_of (rs_remote s) k)) ?ks) s"
  have ks: "distinct ?ks" "set ?ks = dom (map_of (rs_remote s))"
    using assms by (simp_all add: reorders_def room_inv_def dom_map_of_conv_image_fst)
  note g = disconnect_all_good [OF assms ks(1) equalityD1 [OF ks(2)] refl]
  then have "room_inv ?t" by (simp add: room_good_def)
  from reconnecting_good [OF this] g show "room_good s (handle_restarting ord s)"
    by (auto simp: handle_restarting_def intro: room_good_trans)
  have "roster s k = None" if "k \<notin> set ?ks" for k using that by (simp add: ks(2) domIff roster_def)
  then have "roster s |` (- set ?ks) = Map.empty" by (auto simp: restrict_map_def fun_eq_iff)
  moreover have "roster (handle_restarting ord s) = roster ?t" "rs_local (handle_restarting ord s) = rs_local ?t"
    by (auto simp: handle_restarting_def reconnecting_def update_connection_state_def Let_def intro!: roster_cong)
  ultimately show "roster (handle_restarting ord s) = Map.empty" "rs_local (handle_restarting ord s) = rs_local s"
    using g by simp_all
qed

lemma with_data_encryption_good:
  assumes "room_inv s" and "r \<in> present s"
  shows "room_good s (with_object r (participant_data_encryption b (rs_objects s ! r)) s)"
proof -
  obtain k where k: "map_of (rs_remote s) k = Some r" using assms(2) by (auto simp: present_def ran_def)
  let ?p = "fst (participant_data_encryption b (rs_objects s ! r))"
  have "publications_ok ?p \<longleftrightarrow> publications_ok (rs_objects s ! r)"
    by (rule publications_ok_cong) (simp_all add: participant_data_encryption_def Let_def)
  with room_invD(3) [OF assms(1) k] have "publications_ok ?p" by simp
  then have "room_good s (with_object r (?p, snd (participant_data_encryption b (rs_objects s ! r))) s)"
    by (intro with_object_good [OF assms]) (simp_all add: participant_data_encryption_def Let_def)
  then show ?thesis by simp
qed

lemma handle_data_good:
  assumes "room_inv s" and "reorders ord"
  shows "room_good s (handle_data ord payload topic kind sid identity e s)"
proof -
  define w where "w = (let participant = Option.bind identity (\<lambda>i. get_participant_by_identity i s)
    in if participant = None then Option.bind sid (\<lambda>i. get_participant_by_sid ord i s) else participant)"
  have w: "r \<in> present s" if "w = Some r" for r
    using that by (auto simp: w_def Let_def bind_eq_Some_conv split: if_splits
      intro: by_identity_present by_sid_present [OF assms])
  have eq: "handle_data ord payload topic kind sid identity e s = room_dispatch (Re_DataReceived payload topic kind w)
    (case w of None \<Rightarrow> s | Some r \<Rightarrow> with_object r
       (participant_data_encryption (e2ee_type_from e \<noteq> E2ee_None) (rs_objects s ! r)) s)"
    unfolding handle_data_def w_def Let_def ..
  show ?thesis
  proof (cases w)
    case None
    show ?thesis unfolding eq None option.case
      by (rule room_good_dispatch [OF assms(1)]) (simp_all add: presence_event_def)
  next
    case (Some r)
    let ?t = "with_object r (participant_data_encryption (e2ee_type_from e \<noteq> E2ee_None) (rs_objects s ! r)) s"
    note g = with_data_encryption_good [OF assms(1) w [OF Some]]
    have "present ?t = present s" by (cases "participant_data_encryption (e2ee_type_from e \<noteq> E2ee_None) (rs_objects s ! r)")
      (simp add: present_def with_object_frame)
    then have "room_good ?t (room_dispatch (Re_DataReceived payload topic kind w) ?t)"
      using g [of "e2ee_type_from e \<noteq> E2ee_None"] w
      by (intro room_good_dispatch) (simp_all add: room_good_def presence_event_def)
    from room_good_trans [OF g this] show ?thesis unfolding eq by (simp only: Some option.case)
  qed
qed

lemma small_handlers_good:
  assumes "room_inv s"
  shows "room_good s (handle_chat_message identity message s)" and "room_good s (handle_dtmf code digit caller s)"
    and "handle_transcription identity tsid segments s = Some s' \<Longrightarrow> room_good s s'"
    and "room_good s (handle_threshold_change kind n s)" and "room_good s (handle_refresh_token token s)"
    and "room_good s (handle_restarted s)"
proof -
  note leaf = room_good_dispatch [OF assms] room_good_refl [OF assms]
  show "room_good s (handle_chat_message identity message s)"
    by (auto simp: handle_chat_message_def presence_event_def intro!: leaf by_identity_present split: option.split)
  show "room_good s (handle_dtmf code digit caller s)"
    by (auto simp: handle_dtmf_def Let_def presence_event_def bind_eq_Some_conv intro!: leaf intro: by_identity_present)
  show "room_good s s'" if "handle_transcription identity tsid segments s = Some s'"
    using that by (auto simp: handle_transcription_def Let_def presence_event_def intro!: leaf split: option.splits)
  show "room_good s (handle_threshold_change kind n s)"
    by (rule room_good_frame [OF assms, where evs = "[Re_ThresholdChanged kind n]"])
      (simp_all add: handle_threshold_change_def presence_event_def split: data_packet_kind.split)
  show "room_good s (handle_refresh_token token s)"
    by (auto simp: handle_refresh_token_def presence_event_def intro!: leaf)
  show "room_good s (handle_restarted s)"
    by (rule room_good_frame [OF assms, where evs = "[]"]) (simp_all add: handle_restarted_def)
qed

lemma republished_good: "room_inv s \<Longrightarrow> room_good s (republished s)"
proof -
  assume inv: "room_inv s"
  let ?t = "s\<lparr>rs_restarted := rs_restarted s - 1\<rparr>"
  have t: "room_good s ?t" by (rule room_good_frame [OF inv, where evs = "[]"]) simp_all
  then have "room_inv ?t" by (simp add: room_good_def)
  from room_good_trans [OF t reconnected_good [OF this]] room_good_refl [OF inv]
  show ?thesis by (simp add: republished_def)
qed

lemma handle_disconnected_good: "room_inv s \<Longrightarrow> room_good s (handle_disconnected reason s)"
proof -
  assume inv: "room_inv s"
  obtain b t where t: "update_connection_state Conn_Disconnected s = (b, t)" by fastforce
  let ?u = "if b then room_dispatch (Re_Disconnected reason) t else t"
  let ?v = "?u\<lparr>rs_closing := rs_closing ?u @ [reason]\<rparr>"
  note g = update_connection_state_good(1) [OF inv t]
  then have it: "room_inv t" by (simp add: room_good_def)
  then have "room_good t (room_dispatch (Re_Disconnected reason) t)"
    by (rule room_good_dispatch) (simp_all add: presence_event_def)
  then have u: "room_good s ?u" using g by (auto intro: room_good_trans)
  then have "room_inv ?u" by (simp add: room_good_def)
  then have "room_good ?u ?v" by (rule room_good_frame [where evs = "[]"]) simp_all
  with u have "room_good s ?v" by (rule room_good_trans)
  with u show ?thesis by (simp add: handle_disconnected_def t Let_def)
qed

lemma update_local_good:
  assumes "room_inv s" and "update_local info s = Some s'"
  shows "room_good s s'"
    and "room_view s' = ((pi_sid info, pi_identity info), roster s)"
proof -
  note us = update_local_spec [OF assms(2)]
  show "room_good s s'" using us(7,8) room_inv_cong [OF us(1-3)] assms(1) us(3) by (simp add: room_good_def)
  show "room_view s' = ((pi_sid info, pi_identity info), roster s)"
    by (simp add: room_view_def us(4,5) roster_cong [OF us(1,2)])
qed

text \<open>A response that brings a participant of its own is processed after that participant.\<close>

definition after_local :: "participant_msg option \<Rightarrow> room_view \<Rightarrow> room_view" where
  "after_local participant v =
     (case participant of None \<Rightarrow> v | Some info \<Rightarrow> ((pi_sid info, pi_identity info), snd v))"

lemma handle_room_update_view: "room_view (handle_room_update room s) = room_view s"
proof -
  have "rs_remote (handle_room_update room s) = rs_remote s" "rs_objects (handle_room_update room s) = rs_objects s"
    "rs_local (handle_room_update room s) = rs_local s"
    by (simp_all add: handle_room_update_def Let_def)
  then show ?thesis by (simp add: room_view_def roster_cong [of "handle_room_update room s" s])
qed

lemma handle_signal_restarted_promise:
  assumes "room_inv s" and "reorders ord"
    and "updates_kept (rs_auto_subscribe s) others (after_local participant (room_view s))"
    and "handle_signal_restarted ord participant others room s = Some s'"
  shows "room_good s s'"
    and "room_view s' = fold (view_update (rs_auto_subscribe s)) others (after_local participant (room_view s))"
proof -
  obtain info t u room' where p: "participant = Some info" and t: "update_local info s = Some t"
    and u: "handle_participant_update ord others t = Some u" and s': "s' = handle_room_update room' u"
    using assms(4) by (auto simp: handle_signal_restarted_def bind_eq_Some_conv split: option.splits)
  note g = update_local_good [OF assms(1) t]
  have auto: "rs_auto_subscribe t = rs_auto_subscribe s" and it: "room_inv t" using g(1) by (simp_all add: room_good_def)
  have v: "room_view t = after_local participant (room_view s)"
    unfolding g(2) by (simp add: p after_local_def room_view_def)
  note h = handle_participant_update_promise [OF it assms(2) _ u, unfolded auto v, OF assms(3)]
  then have iu: "room_inv u" by (simp add: room_good_def)
  show "room_good s s'"
    unfolding s' using g(1) h handle_room_update_good [OF iu] by (blast intro: room_good_trans)
  show "room_view s' = fold (view_update (rs_auto_subscribe s)) others (after_local participant (room_view s))"
    using h by (simp add: s' handle_room_update_view)
qed

lemma handle_room_moved_good:
  assumes "room_inv s" and "reorders ord"
    and "updates_kept (rs_auto_subscribe s) others (after_local participant (room_view s))"
    and "handle_room_moved ord token participant others room s = Some s'"
  shows "room_good s s'"
proof -
  let ?s0 = "handle_refresh_token token s"
  have g0: "room_good s ?s0" by (rule small_handlers_good(5) [OF assms(1)])
  then have i0: "room_inv ?s0" and a0: "rs_auto_subscribe ?s0 = rs_auto_subscribe s" by (simp_all add: room_good_def)
  have v0: "room_view ?s0 = room_view s" by (simp add: handle_refresh_token_def)
  obtain t u where t: "(case participant of None \<Rightarrow> Some ?s0 | Some info \<Rightarrow>
       map_option (room_dispatch (Re_ParticipantsUpdated [Local_Participant])) (update_local info ?s0)) = Some t"
    and u: "handle_participant_update ord others t = Some u"
    and s': "s' = (let s = (case room of None \<Rightarrow> u | Some room \<Rightarrow> handle_room_update room u) in room_dispatch (Re_Moved (rs_info s)) s)"
    using assms(4) by (auto simp: handle_room_moved_def Let_def bind_eq_Some_conv split: option.splits)
  have gt: "room_good ?s0 t \<and> room_view t = after_local participant (room_view s)"
  proof (cases participant)
    case None
    with t show ?thesis using i0 by (auto simp: after_local_def v0 intro: room_good_refl)
  next
    case (Some info)
    then obtain t0 where t0: "update_local info ?s0 = Some t0"
      and e: "t = room_dispatch (Re_ParticipantsUpdated [Local_Participant]) t0" using t by auto
    note l = update_local_good [OF i0 t0]
    have "room_inv t0" using l(1) by (simp add: room_good_def)
    then have "room_good t0 t" unfolding e by (rule room_good_dispatch) (simp_all add: presence_event_def)
    with l(1) have "room_good ?s0 t" by (rule room_good_trans)
    moreover have "room_view t = ((pi_sid info, pi_identity info), snd (room_view ?s0))"
      by (simp add: e l(2)) (simp add: room_view_def)
    ultimately show ?thesis by (simp add: Some after_local_def v0)
  qed
  have it: "room_inv t" and auto: "rs_auto_subscribe t = rs_auto_subscribe s"
    using gt a0 by (simp_all add: room_good_def)
  have v: "room_view t = after_local participant (room_view s)" using gt by blast
  note h = handle_participant_update_promise [OF it assms(2) _ u, unfolded auto v, OF assms(3)]
  let ?w = "case room of None \<Rightarrow> u | Some room \<Rightarrow> handle_room_update room u"
  have iu: "room_inv u" using h by (simp add: room_good_def)
  have w: "room_good u ?w" using room_good_refl [OF iu] handle_room_update_good [OF iu] by (simp split: option.split)
  then have iw: "room_inv ?w" by (simp add: room_good_def)
  have "room_good ?w (room_dispatch (Re_Moved (rs_info ?w)) ?w)"
    by (rule room_good_dispatch [OF iw]) (simp_all add: presence_event_def)
  with w have "room_good u s'" unfolding s' Let_def by (rule room_good_trans)
  moreover have "room_good s u" using g0 gt h by (blast intro: room_good_trans)
  ultimately show ?thesis by (blast intro: room_good_trans)
qed

section \<open>Runs\<close>

text \<open>What is relied on of the server.\<close>

definition input_ok :: "room_session \<Rightarrow> room_input \<Rightarrow> bool" where
  "input_ok s event \<longleftrightarrow>
     (case event of
        In_ParticipantUpdate updates \<Rightarrow> updates_kept (rs_auto_subscribe s) updates (room_view s)
      | In_RoomMoved token participant others room \<Rightarrow>
          updates_kept (rs_auto_subscribe s) others (after_local participant (room_view s))
      | In_SignalRestarted participant others room \<Rightarrow>
          updates_kept (rs_auto_subscribe s) others (after_local participant (room_view s))
      | _ \<Rightarrow> True)"

definition room_ok :: "(string list \<Rightarrow> string list) \<Rightarrow> room_session option \<Rightarrow> room_input \<Rightarrow> bool" where
  "room_ok ord s event \<longleftrightarrow> reorders ord \<and> (case s of None \<Rightarrow> True | Some s \<Rightarrow> input_ok s event)"

lemma on_engine_event_good:
  assumes "room_inv s" and "reorders ord" and "input_ok s event" and "on_engine_event ord event s = Some s'" and "left_inv s"
  shows "room_good s s'"
proof (cases event)
  case (In_ParticipantUpdate updates)
  with assms handle_participant_update_promise [of s ord updates s'] show ?thesis
    by (simp add: on_engine_event_def input_ok_def)
next
  case (In_RoomMoved token participant others room)
  with assms handle_room_moved_good [of s ord others participant token room s'] show ?thesis
    by (simp add: on_engine_event_def input_ok_def)
next
  case (In_SignalRestarted participant others room)
  with assms handle_signal_restarted_promise(1) [of s ord others participant room s'] show ?thesis
    by (simp add: on_engine_event_def input_ok_def)
qed (use assms in \<open>auto simp: on_engine_event_def handle_resuming_def handle_resumed_def
  intro: handle_restarting_good small_handlers_good republished_good handle_disconnected_good handle_data_good
    handle_room_update_good reconnecting_good reconnected_good handle_media_track_good media_track_wait_good user_call_good
    handle_speakers_changed_good handle_connection_quality_update_good\<close>)

definition room_run_inv :: "room_session \<Rightarrow> room_session option \<Rightarrow> bool" where
  "room_run_inv s0 s \<longleftrightarrow> (case s of None \<Rightarrow> True | Some s \<Rightarrow> room_good s0 s \<and> left_inv s)"

interpretation room: guarded_machine "room_step ord" "room_ok ord" "room_run_inv s0" for ord s0
proof
  fix s event assume "room_run_inv s0 s" and "room_ok ord s event"
  then show "room_run_inv s0 (room_step ord s event)"
    using on_engine_event_good [of _ ord event]
    by (auto simp: room_run_inv_def room_ok_def room_step_def room_good_def left_kept_def intro: follows_trans
      split: option.split option.splits)
qed

lemma join_loop_spec:
  assumes "reorders ord" and "room_inv s" and "join_loop ord others s = Some s'"
    and "distinct (map pi_identity others)" and "distinct (map pi_sid others)"
    and "\<forall>info \<in> set others. map_of (rs_remote s) (pi_identity info) = None
      \<and> (\<forall>k r. map_of (rs_remote s) k = Some r \<longrightarrow> pa_sid (rs_objects s ! r) \<noteq> pi_sid info)"
    and "present s = {0..<length (rs_objects s)}"
  shows "room_inv s' \<and> present s' = {0..<length (rs_objects s) + length others} \<and> ri_state (rs_info s') = ri_state (rs_info s)
    \<and> left_kept s s'"
  using assms(2-7)
proof (induction others arbitrary: s)
  case (Cons info others)
  from Cons.prems(2) obtain r t u where c: "create_participant info s = Some (r, t)"
    and u: "update_remote ord info r t = Some u" and rest: "join_loop ord others u = Some s'"
    by (auto split: option.splits)
  have absent: "map_of (rs_remote s) (pi_identity info) = None"
    and nosid: "\<forall>k r. map_of (rs_remote s) k = Some r \<longrightarrow> pa_sid (rs_objects s ! r) \<noteq> pi_sid info"
    using Cons.prems(5) by simp_all
  note cs = create_spec [OF Cons.prems(1) absent nosid c]
  have m: "map_of (rs_remote t) (pi_identity info) = Some r" by (simp add: cs(6))
  have sids: "\<forall>k' r'. map_of (rs_remote t) k' = Some r' \<and> pa_sid (rs_objects t ! r') = pi_sid info \<longrightarrow> k' = pi_identity info"
    using cs(1,13) m unfolding room_inv_def by metis
  note us = update_remote_spec [OF cs(1) assms(1) m refl sids u]
  obtain p evs where w: "u = with_object r (p, evs) t" "pa_sid p = pi_sid info"
  proof -
    obtain p evs where p: "remote_update_info ord info (rs_objects t ! r) = Some (p, evs)" "u = with_object r (p, evs) t"
      using u by (auto simp: update_remote_def)
    from remote_update_info_spec(2) [OF room_invD(3) [OF cs(1) m] assms(1) p(1)] p(2) show ?thesis by (intro that)
  qed
  have len: "length (rs_objects u) = Suc (length (rs_objects s))" by (simp add: w(1) with_object_frame cs(12,3))
  have pu: "present u = {0..<length (rs_objects u)}"
    using cs(8) Cons.prems(6) us(6) cs(3) by (auto simp: len present_def)
  have st: "ri_state (rs_info u) = ri_state (rs_info s)" using cs(7) by (simp add: w(1) with_object_frame)
  have old: "map_of (rs_remote u) (pi_identity i) = None
      \<and> (\<forall>k r. map_of (rs_remote u) k = Some r \<longrightarrow> pa_sid (rs_objects u ! r) \<noteq> pi_sid i)" if i: "i \<in> set others" for i
  proof (intro conjI allI impI)
    have ne: "pi_identity i \<noteq> pi_identity info" "pi_sid i \<noteq> pi_sid info"
      using i Cons.prems(3,4) by (auto simp: image_iff)
    show "map_of (rs_remote u) (pi_identity i) = None"
      using Cons.prems(5) i ne(1) by (simp add: us(6) cs(6))
    fix k r' assume k: "map_of (rs_remote u) k = Some r'"
    show "pa_sid (rs_objects u ! r') \<noteq> pi_sid i"
    proof (cases "k = pi_identity info")
      case True
      with k m us(6) have "r' = r" by simp
      then show ?thesis using ne(2) w(2) cs(12) by (simp add: w(1) with_object_frame)
    next
      case False
      with k us(6) cs(6) have k': "map_of (rs_remote s) k = Some r'" by simp
      then have "r' < r" using room_invD(1) [OF Cons.prems(1)] cs(3) by simp
      then show ?thesis using Cons.prems(5) i k' cs(11) [of r'] by (simp add: w(1) with_object_frame)
    qed
  qed
  have "distinct (map pi_identity others)" "distinct (map pi_sid others)" using Cons.prems(3,4) by simp_all
  from Cons.IH [OF us(1) rest this _ pu] old st len left_kept_trans [OF left_kept_trans [OF cs(14) us(7)]]
  show ?case by simp
qed (simp add: left_kept_refl)

lemma room_connected_spec:
  assumes "reorders ord" and "distinct (map pi_identity others)" and "distinct (map pi_sid others)"
    and "room_connected ord info m auto me others = Some s"
  shows "room_inv s" and "replay (rs_events s) ({0..<length others}, Conn_Disconnected) = Some (seen s)" and "left_inv s"
proof -
  let ?s0 = "\<lambda>p. \<lparr>rs_info = info\<lparr>ri_state := Conn_Disconnected\<rparr>, rs_local = p, rs_objects = [], rs_remote = [],
     rs_active_speakers = [], rs_e2ee = m, rs_auto_subscribe = auto, rs_events = [],
     rs_requests = [], rs_waiting = [], rs_closing = [], rs_restarted = 0\<rparr>"
  obtain p t where t: "join_loop ord others (?s0 p) = Some t"
    and s: "s = snd (update_connection_state Conn_Connected (t\<lparr>rs_events := []\<rparr>))"
    using assms(4) by (auto simp: room_connected_def split: option.splits)
  have "room_inv (?s0 p)" "present (?s0 p) = {0..<length (rs_objects (?s0 p))}" by (simp_all add: room_inv_def present_def)
  from join_loop_spec [OF assms(1) this(1) t assms(2,3) _ this(2)]
  have j: "room_inv t" "present t = {0..<length others}" "ri_state (rs_info t) = Conn_Disconnected" "left_kept (?s0 p) t"
    by simp_all
  then have l: "left_inv t" by (simp add: left_kept_def left_inv_def)
  have e: "s = t\<lparr>rs_info := (rs_info t)\<lparr>ri_state := Conn_Connected\<rparr>, rs_events := [Re_ConnectionStateChanged Conn_Connected]\<rparr>"
    by (simp add: s update_connection_state_def j(3) room_dispatch_def)
  show "room_inv s" using j(1) room_inv_cong [of s t] by (simp add: e)
  show "left_inv s" using l by (simp add: e left_inv_def present_def)
  show "replay (rs_events s) ({0..<length others}, Conn_Disconnected) = Some (seen s)"
    using j(2) by (simp add: e seen_def present_def)
qed

lemma room_runs:
  assumes "reorders ord" and "distinct (map pi_identity others)" and "distinct (map pi_sid others)"
    and "room_connected ord info m auto me others = Some s0"
    and "run_ok (room_step ord) (room_ok ord) (Some s0) es" and "foldl (room_step ord) (Some s0) es = Some s"
  shows "room_inv s" and "replay (rs_events s) ({0..<length others}, Conn_Disconnected) = Some (seen s)"
proof -
  note c = room_connected_spec [OF assms(1-4)]
  have "room_run_inv s0 (Some s0)" by (simp add: room_run_inv_def room_good_refl c(1,3))
  from room.grun_inv [OF this assms(5)] assms(6) have g: "room_good s0 s" by (simp add: room_run_inv_def)
  then show "room_inv s" by (simp add: room_good_def)
  from g obtain evs where "rs_events s = rs_events s0 @ evs" "replay evs (seen s0) = Some (seen s)"
    by (auto simp: room_good_def follows_def)
  then show "replay (rs_events s) ({0..<length others}, Conn_Disconnected) = Some (seen s)"
    by (simp add: replay_append c(2))
qed

section \<open>Properties\<close>

text \<open>
  C7. Processing participant updates refines the roster. Whatever the handlers do with objects,
  handlers and maps, in any order of iteration, the sessions and tracks that are known afterwards are
  those of applying the updates, one after the other, to the abstract roster; and the map of
  participants stays consistent.
\<close>

theorem participant_updates_refine:
  assumes "room_inv s" and "reorders ord" and "updates_kept (rs_auto_subscribe s) updates (room_view s)"
    and "handle_participant_update ord updates s = Some s'"
  shows "room_inv s' \<and> room_view s' = fold (view_update (rs_auto_subscribe s)) updates (room_view s)"
  using handle_participant_update_promise [OF assms] by (simp add: room_good_def)

text \<open>
  C18. The participants of the room are well-formed: in every reachable state each entry of the map
  refers to an object that exists, whose identity is its key, whose publications are filed under
  their own SIDs, and whose SID no other participant of the room has.
\<close>

theorem participants_well_formed:
  assumes "reorders ord" and "distinct (map pi_identity others)" and "distinct (map pi_sid others)"
    and "room_connected ord info m auto me others = Some s0"
    and "run_ok (room_step ord) (room_ok ord) (Some s0) es" and "foldl (room_step ord) (Some s0) es = Some s"
  shows "room_inv s"
  using assms by (rule room_runs(1))

text \<open>
  C8. The events tell the truth about who is there. Over any run of the room, of all its handlers and
  the user's calls, a participant is reported as connected only when it was not present and as
  disconnected only when it was, it is the subject of an event only while present (a failed
  subscription apart), the state of the connection is reported when it changes; and who follows the events ends with exactly the
  participants in the map and the state of the connection.
\<close>

theorem events_follow_participants:
  assumes "reorders ord" and "distinct (map pi_identity others)" and "distinct (map pi_sid others)"
    and "room_connected ord info m auto me others = Some s0"
    and "run_ok (room_step ord) (room_ok ord) (Some s0) es" and "foldl (room_step ord) (Some s0) es = Some s"
  shows "replay (rs_events s) ({0..<length others}, Conn_Disconnected)
    = Some (ran (map_of (rs_remote s)), ri_state (rs_info s))"
  using room_runs(2) [OF assms] by (simp add: seen_def present_def)

text \<open>
  C22. A late disconnection of an old session removes the new one. When the update that says that an
  earlier session of an identity has ended arrives after the update of its new session, the participant
  of the new session is removed and reported as disconnected, and nothing is known of the identity any more.
\<close>

theorem late_disconnect_evicts:
  assumes "room_inv s" and "reorders ord" and "identity_kept info (room_view s)"
    and "participant_sid_try_from (pi_sid info) \<noteq> None" and "pi_state info = DISCONNECTED_STATE"
    and "pi_sid info \<noteq> pa_sid (rs_local s)" and "pi_identity info \<noteq> pa_identity (rs_local s)"
    and "map_of (rs_remote s) (pi_identity info) = Some r" and "pa_sid (rs_objects s ! r) \<noteq> pi_sid info"
  shows "\<exists>s'. handle_participant_update ord [info] s = Some s'
    \<and> rs_remote s' = AList.delete (pi_identity info) (rs_remote s)
    \<and> (\<exists>evs. rs_events s' = rs_events s @ evs @ [Re_ParticipantDisconnected r])"
proof -
  let ?t = "handle_participant_disconnect ord r s"
  have st: "stale_removed ord info s = ?t"
    using assms(8,9) by (simp add: stale_removed_def get_participant_by_identity_def)
  note d = disconnect_spec [OF assms(1,2,8), unfolded Let_def]
  have none: "get_participant_by_sid ord (pi_sid info) ?t = None"
  proof -
    have "pa_sid (rs_objects ?t ! r') \<noteq> pi_sid info" if "map_of (rs_remote ?t) k = Some r'" for k r'
    proof
      assume e: "pa_sid (rs_objects ?t ! r') = pi_sid info"
      note st3 = stale_removed_spec(3) [OF assms(1-3), unfolded st]
      from st3 that e have "k = pi_identity info" by blast
      with that d show False by (simp add: delete_conv')
    qed
    then show ?thesis using get_participant_by_sid_None [of ?t ord] d assms(2) by blast
  qed
  obtain sid where "participant_sid_try_from (pi_sid info) = Some sid" using assms(4) by blast
  from participant_update_one_remote [OF this assms(6,7), of ord]
  have "participant_update_one ord info s = Some ([], ?t)" by (simp add: st none assms(5))
  then have u: "handle_participant_update ord [info] s = Some ?t" by (simp add: handle_participant_update_def)
  have "rs_events ?t = rs_events s @ drop (length (rs_events s)) (butlast (rs_events ?t)) @ [Re_ParticipantDisconnected r]"
  proof -
    obtain evs where e: "rs_events (with_object r (unpublish_all (ord (map fst (pa_publications (rs_objects s ! r)))) (rs_objects s ! r)) s)
        = rs_events s @ evs"
      using with_object_follows [of r s] room_invD(5) [OF assms(1,8)] by (metis follows_def prod.collapse)
    then show ?thesis by (simp add: handle_participant_disconnect_def Let_def butlast_append)
  qed
  with u d show ?thesis by blast
qed

text \<open>
  C26. A room that was disconnected while its tracks were republished becomes connected. The task that
  \<^verbatim>\<open>handle_restarted\<close> starts reports the room as connected and reconnected when it ends, also when
  \<^verbatim>\<open>handle_disconnected\<close> has reported the end of the connection in the meantime.
\<close>

theorem disconnected_room_reconnects:
  "let s1 = handle_disconnected reason (handle_restarted s); s2 = republished s1
   in ri_state (rs_info s1) = Conn_Disconnected \<and> ri_state (rs_info s2) = Conn_Connected
    \<and> rs_events s2 = rs_events s1 @ [Re_ConnectionStateChanged Conn_Connected, Re_Reconnected]"
  by (simp add: handle_restarted_def republished_def handle_disconnected_def reconnected_def
    update_connection_state_def Let_def)

section \<open>Reconnection, as the room sees it\<close>

lemma view_update_other:
  "pi_identity info \<noteq> k \<Longrightarrow> snd (view_update auto info v) k = snd v k"
  by (simp add: view_update_def)

lemma view_updates_other:
  "\<forall>info \<in> set infos. pi_identity info \<noteq> k \<Longrightarrow> snd (fold (view_update auto) infos v) k = snd v k"
  by (induction infos arbitrary: v) (simp_all add: view_update_other)

text \<open>
  C23. Participants that left during a reconnection stay in the room. When the resume fails and the
  restart after it succeeds, the engine sends no event on which the room would remove its
  participants; one that the response to the new session does not list is still in the room, with its
  session and its tracks, when the reconnection has ended.
\<close>

theorem departed_participants_stay:
  assumes "eg_reconnect e = Loop_Top 0" and "\<not> eh_closed (eg_handle e)" and "\<not> eh_full_reconnect (eg_handle e)"
    and "e' = foldl engine_step e (map Reconnect_Turn [True, False, True, True, True, True, True, True])"
    and "room_inv s" and "reorders ord" and "join (eg_next_session e) = (participant, others, room)"
    and "updates_kept (rs_auto_subscribe s) others (after_local participant (room_view s))"
    and "foldl (room_step ord) (Some s)
      (List.map_filter (room_input_of join) (drop (length (eg_emitted e)) (eg_emitted e'))) = Some s'"
    and "identity \<notin> pi_identity ` set others"
  shows "roster s' identity = roster s identity"
proof -
  have em: "eg_emitted e' = eg_emitted e @ [Engine_Resuming, Engine_SignalRestarted (eg_next_session e), Engine_Restarted]"
    using resume_then_restart [OF assms(1-3)] by (simp only: assms(4))
  have steps: "List.map_filter (room_input_of join) (drop (length (eg_emitted e)) (eg_emitted e'))
      = [In_Resuming, In_SignalRestarted participant others room, In_Restarted]"
    by (simp add: em assms(7) map_filter_def)
  let ?t = "reconnecting s"
  obtain u where u: "handle_signal_restarted ord participant others room ?t = Some u" and s': "s' = handle_restarted u"
    using assms(9) unfolding steps
    by (auto simp: room_step_def on_engine_event_def handle_resuming_def bind_eq_Some_conv)
  have it: "room_inv ?t" and auto: "rs_auto_subscribe ?t = rs_auto_subscribe s"
    using reconnecting_good [OF assms(5)] by (simp_all add: room_good_def)
  have v: "room_view ?t = room_view s"
  proof -
    obtain b w where w: "update_connection_state Conn_Reconnecting s = (b, w)" by fastforce
    have "roster w = roster s" "rs_local w = rs_local s"
      using update_connection_state_good(5) [OF assms(5) w] w
      by (auto simp: update_connection_state_def split: if_splits)
    then have "room_view w = room_view s" by (simp add: room_view_def)
    then show ?thesis by (simp add: reconnecting_def w)
  qed
  have kept: "updates_kept (rs_auto_subscribe ?t) others (after_local participant (room_view ?t))"
    using assms(8) by (simp only: auto v)
  have "snd (room_view u) identity = snd (after_local participant (room_view s)) identity"
    unfolding handle_signal_restarted_promise(2) [OF it assms(6) kept u]
    using assms(10) by (subst view_updates_other) (auto simp: v)
  moreover have "roster s' = roster u" by (rule roster_cong) (simp_all add: s' handle_restarted_def)
  ultimately show ?thesis by (simp add: room_view_def after_local_def split: option.splits)
qed

section \<open>Active speakers\<close>

lemma set_level_objects [simp]:
  "pa_sid (rs_objects (update_who (set_level l b) w s) ! r) = pa_sid (rs_objects s ! r)"
  "pa_sid (rs_local (update_who (set_level l b) w s)) = pa_sid (rs_local s)"
  "rs_remote (update_who (set_level l b) w s) = rs_remote s"
proof -
  show "pa_sid (rs_objects (update_who (set_level l b) w s) ! r) = pa_sid (rs_objects s ! r)"
  proof (cases w)
    case (Remote_Participant r')
    then show ?thesis
      by (cases "r' < length (rs_objects s)"; cases "r' = r")
        (simp_all add: update_who_def set_level_def list_update_beyond)
  qed (simp add: update_who_def)
qed (cases w; simp add: update_who_def set_level_def)+

lemma find_who_level: "find_who ord sid (update_who (set_level l b) w s) = find_who ord sid s"
  by (simp add: find_who_def get_participant_by_sid_def)

lemma level_other: "w' \<noteq> w \<Longrightarrow> who_object (update_who f w s) w' = who_object s w'"
  by (cases w; cases w') (simp_all add: who_object_def update_who_def)

text \<open>What the entries of a message that name a participant set of it, the last of them last.\<close>

definition named_state :: "(string list \<Rightarrow> string list) \<Rightarrow> room_session \<Rightarrow> who \<Rightarrow> speaker_info list \<Rightarrow> participant \<Rightarrow> participant" where
  "named_state ord s w speakers p =
     fold (\<lambda>sp p. if find_who ord (sk_sid sp) s = Some w
       then p\<lparr>pa_speaking := sk_active sp, pa_audio_level := sk_level sp\<rparr> else p) speakers p"

lemma named_state_unnamed:
  "\<forall>sp \<in> set speakers. find_who ord (sk_sid sp) s \<noteq> Some w \<Longrightarrow> named_state ord s w speakers p = p"
  unfolding named_state_def by (induction speakers arbitrary: p) auto

lemma who_object_update:
  "(\<And>r. w = Remote_Participant r \<Longrightarrow> r < length (rs_objects s)) \<Longrightarrow>
     who_object (update_who f w s) w' = (if w' = w then f (who_object s w) else who_object s w')"
  by (cases w; cases w') (simp_all add: who_object_def update_who_def)

lemma speakers_loop_spec:
  assumes "speakers_loop ord speakers s = Some (ws, s')"
    and "\<And>sid r. find_who ord sid s = Some (Remote_Participant r) \<Longrightarrow> r < length (rs_objects s)"
  shows "set ws = {w. \<exists>sp \<in> set speakers. sk_active sp \<and> find_who ord (sk_sid sp) s = Some w}
     \<and> who_object s' w = named_state ord s w speakers (who_object s w)"
  using assms
proof (induction speakers arbitrary: s ws)
  case (Cons speaker rest)
  from Cons.prems have sid: "participant_sid_try_from (sk_sid speaker) = Some (sk_sid speaker)"
    by (auto simp: participant_sid_try_from_def split: option.splits if_splits)
  show ?case
  proof (cases "find_who ord (sk_sid speaker) s")
    case None
    with Cons sid show ?thesis by (auto simp: named_state_def)
  next
    case (Some w')
    let ?t = "update_who (set_level (sk_level speaker) (sk_active speaker)) w' s"
    obtain ws' where l: "speakers_loop ord rest ?t = Some (ws', s')"
      and ws: "ws = (if sk_active speaker then w' # ws' else ws')"
      using Cons.prems Some sid by auto
    have len: "length (rs_objects ?t) = length (rs_objects s)" by (cases w') (simp_all add: update_who_def)
    have "set ws' = {w. \<exists>sp \<in> set rest. sk_active sp \<and> find_who ord (sk_sid sp) s = Some w}"
      "who_object s' w = named_state ord ?t w rest (who_object ?t w)"
      using Cons.IH [OF l] Cons.prems(2) by (simp_all add: find_who_level len)
    moreover have "who_object ?t w =
        (if w = w' then set_level (sk_level speaker) (sk_active speaker) (who_object s w') else who_object s w)"
      by (rule who_object_update) (use Some Cons.prems(2) in blast)
    ultimately show ?thesis
      using Some by (auto simp: ws named_state_def find_who_level set_level_def)
  qed
qed (simp add: named_state_def)

lemma sorted_by_level:
  assumes "sort_speakers s ws = Some ws'"
  shows "set ws' = set ws" and "sorted_wrt (\<lambda>w w'. \<exists>a b. pa_audio_level (who_object s w) = Some a
    \<and> pa_audio_level (who_object s w') = Some b \<and> a \<le> b) ws'"
proof -
  let ?f = "\<lambda>w. case pa_audio_level (who_object s w) of None \<Rightarrow> 0 | Some l \<Rightarrow> l"
  have ws': "ws' = sort_key ?f ws" and nan: "length ws \<ge> 2 \<Longrightarrow> \<forall>w \<in> set ws. pa_audio_level (who_object s w) \<noteq> None"
    using assms by (auto simp: sort_speakers_def list_ex_iff split: if_splits)
  show set': "set ws' = set ws" by (simp add: ws')
  show "sorted_wrt (\<lambda>w w'. \<exists>a b. pa_audio_level (who_object s w) = Some a
      \<and> pa_audio_level (who_object s w') = Some b \<and> a \<le> b) ws'"
  proof (cases "length ws \<ge> 2")
    case True
    have "sorted_wrt (\<lambda>w w'. ?f w \<le> ?f w') ws'" using sorted_sort_key [of ?f ws] by (simp add: ws' sorted_map)
    then show ?thesis
      by (rule sorted_wrt_mono_rel [rotated]) (use nan [OF True] in \<open>force simp: set'\<close>)
  next
    case False
    then have "length ws' \<le> 1" by (simp add: ws')
    then show ?thesis by (cases ws') auto
  qed
qed

text \<open>
  C21. Changes of the speakers are taken for all of them. The message lists the participants whose
  speaking changed (\<^verbatim>\<open>livekit.rs\<close>, \<^verbatim>\<open>SpeakersChanged\<close>). The handler gives every participant that is
  named the activity and the level of the last entry for it, and makes the list of active speakers
  those that the message names as active, the quietest first; so a participant that goes on
  speaking, and is therefore not named, leaves the list and the event, while its own state still says that it speaks.
\<close>

theorem active_speakers_replaced:
  assumes "handle_speakers_changed ord speakers s = Some s'" and "room_inv s" and "reorders ord"
  shows "set (rs_active_speakers s') = {w. \<exists>sp \<in> set speakers. sk_active sp \<and> find_who ord (sk_sid sp) s = Some w}
    \<and> (\<forall>w. who_object s' w = named_state ord s w speakers (who_object s w))
    \<and> sorted_wrt (\<lambda>w w'. \<exists>a b. pa_audio_level (who_object s' w) = Some a
         \<and> pa_audio_level (who_object s' w') = Some b \<and> a \<le> b) (rs_active_speakers s')
    \<and> last (rs_events s') = Re_ActiveSpeakersChanged (rs_active_speakers s')
    \<and> (\<forall>w \<in> set (rs_active_speakers s). (\<forall>sp \<in> set speakers. find_who ord (sk_sid sp) s \<noteq> Some w)
         \<longrightarrow> w \<notin> set (rs_active_speakers s') \<and> who_object s' w = who_object s w)"
proof -
  obtain ws t ws' where l: "speakers_loop ord speakers s = Some (ws, t)" and ws': "sort_speakers t ws = Some ws'"
    and s': "s' = room_dispatch (Re_ActiveSpeakersChanged ws') (t\<lparr>rs_active_speakers := ws'\<rparr>)"
    using assms(1) by (auto simp: handle_speakers_changed_def split: option.splits)
  have "r < length (rs_objects s)" if "find_who ord sid s = Some (Remote_Participant r)" for sid r
  proof -
    have "get_participant_by_sid ord sid s = Some r" using that by (auto simp: find_who_def split: if_splits)
    from by_sid_present [OF assms(2,3) this] obtain k where "map_of (rs_remote s) k = Some r"
      by (auto simp: present_def ran_def)
    then show ?thesis using assms(2) unfolding room_inv_def by blast
  qed
  note spec = speakers_loop_spec [OF l this]
  have "who_object s' = who_object t" by (rule ext) (simp add: who_object_def s' split: who.split)
  then show ?thesis using spec sorted_by_level [OF ws'] by (auto simp: s' named_state_unnamed)
qed

section \<open>An example room\<close>

definition example_info :: room_info where
  "example_info = \<lparr>ri_sid = Some ''RM_1'', ri_name = ''room'', ri_metadata = [], ri_state = Conn_Disconnected,
     ri_lossy_threshold = 0, ri_reliable_threshold = 0, ri_empty_timeout = 0, ri_departure_timeout = 0,
     ri_max_participants = 0, ri_creation_time = 0, ri_num_publishers = 0, ri_num_participants = 0,
     ri_active_recording = False\<rparr>"

definition example_person :: "string \<Rightarrow> string \<Rightarrow> participant" where
  "example_person sid identity = the (participant_new (example_participant sid identity 2 []) True)"

definition example_room :: room_session where
  "example_room = \<lparr>rs_info = example_info\<lparr>ri_state := Conn_Connected\<rparr>, rs_local = example_person ''PA_0'' ''me'',
     rs_objects = [example_person ''PA_1'' ''ann''], rs_remote = [(''ann'', 0)], rs_active_speakers = [],
     rs_e2ee = e2ee_new None False, rs_auto_subscribe = True,
     rs_events = [Re_ConnectionStateChanged Conn_Connected], rs_requests = [], rs_waiting = [], rs_closing = [], rs_restarted = 0\<rparr>"

lemmas example_sids = participant_sid_try_from_def starts_with_def PARTICIPANT_PREFIX_def

lemma example_person_new:
  "participant_new (example_participant ''PA_0'' ''me'' 2 []) True = Some (example_person ''PA_0'' ''me'')"
  "participant_new (example_participant ''PA_1'' ''ann'' 2 []) True = Some (example_person ''PA_1'' ''ann'')"
  by (simp_all add: example_person_def participant_new_def example_participant_def example_sids)

lemma example_person_fields [simp]:
  "pa_sid (example_person ''PA_1'' ''ann'') = ''PA_1''" "pa_identity (example_person ''PA_1'' ''ann'') = ''ann''"
  "pa_sid (example_person ''PA_0'' ''me'') = ''PA_0''" "pa_identity (example_person ''PA_0'' ''me'') = ''me''"
  "pa_publications (example_person ''PA_1'' ''ann'') = []" "pa_auto_subscribe (example_person ''PA_1'' ''ann'')"
  "pa_audio_level (example_person ''PA_1'' ''ann'') = Some 0"
  by (simp_all add: example_person_def participant_new_def example_participant_def example_sids)

lemma example_refresh:
  "remote_update_info rev (example_participant ''PA_1'' ''ann'' 2 []) (example_person ''PA_1'' ''ann'')
    = Some (example_person ''PA_1'' ''ann'', [])"
  by (simp add: remote_update_info_def participant_update_info_def example_person_def participant_new_def
    example_participant_def example_sids calculate_changed_attributes_def Let_def)

lemma example_connected:
  "room_connected rev example_info (e2ee_new None False) True (example_participant ''PA_0'' ''me'' 2 [])
     [example_participant ''PA_1'' ''ann'' 2 []] = Some example_room"
proof -
  have i: "pi_identity (example_participant ''PA_1'' ''ann'' 2 []) = ''ann''" by (simp add: example_participant_def)
  show ?thesis
    by (simp add: room_connected_def example_person_new create_participant_def i update_remote_def example_refresh
      with_object_def update_connection_state_def room_dispatch_def example_room_def example_info_def)
qed

lemma example_join:
  "distinct (map pi_identity [example_participant ''PA_1'' ''ann'' 2 []])"
  "distinct (map pi_sid [example_participant ''PA_1'' ''ann'' 2 []])"
  by simp_all

lemma example_room_inv: "room_inv example_room"
  by (rule room_connected_spec(1) [OF reorders_rev example_join example_connected])

text \<open>The update that an earlier session of the participant has ended.\<close>

definition example_late :: participant_msg where
  "example_late = example_participant ''PA_9'' ''ann'' 3 []"

lemma example_late_kept: "identity_kept example_late (room_view example_room)"
  by (auto simp: identity_kept_def room_view_def roster_def example_late_def example_participant_def example_room_def)

theorem late_disconnect_evicts_witness:
  "\<exists>s'. handle_participant_update rev [example_late] example_room = Some s' \<and> rs_remote s' = []
    \<and> (\<exists>evs. rs_events s' = Re_ConnectionStateChanged Conn_Connected # evs @ [Re_ParticipantDisconnected 0])"
proof -
  have "map_of (rs_remote example_room) (pi_identity example_late) = Some 0"
    by (simp add: example_room_def example_late_def example_participant_def)
  from late_disconnect_evicts [OF example_room_inv reorders_rev example_late_kept _ _ _ _ this]
  show ?thesis
    by (simp add: example_late_def example_participant_def example_room_def example_sids DISCONNECTED_STATE_def)
qed

lemma example_late_runs:
  "\<exists>s'. handle_participant_update rev [example_late] example_room = Some s'"
proof -
  let ?i = "example_late"
  have sid: "participant_sid_try_from (pi_sid ?i) = Some (pi_sid ?i)"
    by (simp add: example_late_def example_participant_def example_sids)
  have "participant_update_one rev ?i example_room \<noteq> None"
    by (simp add: participant_update_one_def sid)
      (simp add: example_late_def example_participant_def DISCONNECTED_STATE_def example_room_def Let_def
        get_participant_by_sid_def get_participant_by_identity_def handle_participant_disconnect_def
        with_object_frame with_object_def)
  then show ?thesis by (auto simp: handle_participant_update_def)
qed

theorem participant_updates_refine_witness:
  "\<exists>s'. handle_participant_update rev [example_late] example_room = Some s'
    \<and> snd (room_view s') ''ann'' = None"
proof -
  obtain s' where s': "handle_participant_update rev [example_late] example_room = Some s'"
    using example_late_runs by blast
  have "updates_kept (rs_auto_subscribe example_room) [example_late] (room_view example_room)"
    using example_late_kept by simp
  from participant_updates_refine [OF example_room_inv reorders_rev this s']
  have "room_view s' = view_update True example_late (room_view example_room)" by (simp add: example_room_def)
  then have "snd (room_view s') ''ann'' = None"
    by (simp add: view_update_def room_view_def example_room_def example_late_def example_participant_def DISCONNECTED_STATE_def)
  with s' show ?thesis by blast
qed

definition example_run :: "room_input list" where
  "example_run = [In_ParticipantUpdate [example_late], In_Resuming]"

lemma example_room_run_ok: "run_ok (room_step rev) (room_ok rev) (Some example_room) example_run"
  using example_late_kept reorders_rev
  by (simp add: example_run_def room_ok_def input_ok_def split: option.split)

lemma example_run_ends: "\<exists>s. foldl (room_step rev) (Some example_room) example_run = Some s"
  using example_late_runs by (auto simp: example_run_def room_step_def on_engine_event_def)

theorem events_follow_participants_witness:
  "\<exists>s. foldl (room_step rev) (Some example_room) example_run = Some s
    \<and> replay (rs_events s) ({0}, Conn_Disconnected) = Some (ran (map_of (rs_remote s)), ri_state (rs_info s))"
proof -
  obtain s where s: "foldl (room_step rev) (Some example_room) example_run = Some s" using example_run_ends by blast
  from events_follow_participants [OF reorders_rev example_join example_connected example_room_run_ok s] s
  show ?thesis by (simp add: atLeast0_lessThan_Suc)
qed

theorem participants_well_formed_witness:
  "\<exists>s. foldl (room_step rev) (Some example_room) example_run = Some s \<and> room_inv s"
proof -
  obtain s where s: "foldl (room_step rev) (Some example_room) example_run = Some s" using example_run_ends by blast
  from participants_well_formed [OF reorders_rev example_join example_connected example_room_run_ok s] s
  show ?thesis by blast
qed

text \<open>A new session whose response lists nobody.\<close>

definition example_response :: "nat \<Rightarrow> participant_msg option \<times> participant_msg list \<times> room_msg option" where
  "example_response n = (Some (example_participant ''PA_5'' ''me'' 2 []), [],
     Some \<lparr>rg_sid = ''RM_1'', rg_name = ''room'', rg_empty_timeout = 0, rg_departure_timeout = 0, rg_max_participants = 0,
       rg_creation_time_ms = 0, rg_metadata = [], rg_num_participants = 0, rg_num_publishers = 0, rg_active_recording = False\<rparr>)"

theorem departed_participants_stay_witness:
  "\<exists>s'. foldl (room_step rev) (Some example_room)
      [In_Resuming, In_SignalRestarted (fst (example_response 1)) [] (snd (snd (example_response 1))), In_Restarted] = Some s'
    \<and> roster s' ''ann'' = Some (''PA_1'', Map.empty)"
proof -
  let ?e = "foldl engine_step engine_new example_reconnect"
  let ?e' = "foldl engine_step ?e (map Reconnect_Turn [True, False, True, True, True, True, True, True])"
  have steps: "List.map_filter (room_input_of example_response) (drop (length (eg_emitted ?e)) (eg_emitted ?e'))
    = [In_Resuming, In_SignalRestarted (fst (example_response 1)) [] (snd (snd (example_response 1))), In_Restarted]"
    using resume_then_restart [OF example_reconnect_state(1-3)]
    by (simp add: example_reconnect_state map_filter_def example_response_def)
  have local: "update_local (example_participant ''PA_5'' ''me'' 2 []) s \<noteq> None" for s
    by (simp add: update_local_def participant_update_info_def example_participant_def example_sids Let_def)
  have "handle_signal_restarted rev (fst (example_response 1)) [] (snd (snd (example_response 1)))
      (handle_resuming example_room) \<noteq> None"
    using local [of "handle_resuming example_room"]
    by (auto simp: handle_signal_restarted_def example_response_def handle_participant_update_def)
  then obtain u where "handle_signal_restarted rev (fst (example_response 1)) [] (snd (snd (example_response 1)))
      (handle_resuming example_room) = Some u" by blast
  then obtain s' where s': "foldl (room_step rev) (Some example_room)
      [In_Resuming, In_SignalRestarted (fst (example_response 1)) [] (snd (snd (example_response 1))), In_Restarted] = Some s'"
    by (simp add: room_step_def on_engine_event_def)
  have "roster s' ''ann'' = roster example_room ''ann''"
    by (rule departed_participants_stay [where e = ?e and join = example_response and others = "[]",
        OF example_reconnect_state(1-3) refl example_room_inv reorders_rev, unfolded steps, OF _ _ s'])
      (simp_all add: example_response_def)
  also have "\<dots> = Some (''PA_1'', Map.empty)"
    by (simp add: roster_def example_room_def entry_of_def track_views_def fun_eq_iff)
  finally show ?thesis using s' by blast
qed

definition example_speakers :: "speaker_info list" where
  "example_speakers = [\<lparr>sk_sid = ''PA_0'', sk_level = Some 5, sk_active = True\<rparr>, \<lparr>sk_sid = ''PA_1'', sk_level = Some 2, sk_active = True\<rparr>]"

theorem active_speakers_replaced_witness:
  "\<exists>s1 s2. handle_speakers_changed rev example_speakers example_room = Some s1
    \<and> set (rs_active_speakers s1) = {Local_Participant, Remote_Participant 0}
    \<and> handle_speakers_changed rev [\<lparr>sk_sid = ''PA_0'', sk_level = Some 7, sk_active = True\<rparr>] s1 = Some s2
    \<and> set (rs_active_speakers s2) = {Local_Participant} \<and> pa_speaking (rs_objects s2 ! 0)"
proof -
  have n: "find_who rev ''PA_0'' example_room = Some Local_Participant"
    "find_who rev ''PA_1'' example_room = Some (Remote_Participant 0)"
    by (simp_all add: find_who_def get_participant_by_sid_def example_room_def)
  have "handle_speakers_changed rev example_speakers example_room \<noteq> None"
    by (simp add: handle_speakers_changed_def example_speakers_def n find_who_level example_sids)
      (simp add: sort_speakers_def who_object_def update_who_def set_level_def example_room_def)
  then obtain s1 where s1: "handle_speakers_changed rev example_speakers example_room = Some s1" by blast
  note first = active_speakers_replaced [OF s1 example_room_inv reorders_rev]
  have inv: "room_inv s1" using handle_speakers_changed_good [OF example_room_inv reorders_rev s1] by (simp add: room_good_def)
  have active: "set (rs_active_speakers s1) = {Local_Participant, Remote_Participant 0}"
    using first by (auto simp: example_speakers_def n)
  have speaking: "pa_speaking (rs_objects s1 ! 0)"
    using first by (auto simp: who_object_def named_state_def example_speakers_def n dest!: spec [of _ "Remote_Participant 0"])
  have n1: "find_who rev ''PA_0'' s1 = Some Local_Participant"
    using first by (auto simp: find_who_def who_object_def named_state_def example_speakers_def n example_room_def
        dest!: spec [of _ Local_Participant])
  let ?m = "[\<lparr>sk_sid = ''PA_0'', sk_level = Some 7, sk_active = True\<rparr>]"
  have "handle_speakers_changed rev ?m s1 \<noteq> None"
    by (simp add: handle_speakers_changed_def n1 example_sids sort_speakers_def)
  then obtain s2 where s2: "handle_speakers_changed rev ?m s1 = Some s2" by blast
  from active_speakers_replaced [OF s2 inv reorders_rev] s1 s2 active speaking show ?thesis
    by (intro exI [of _ s1] exI [of _ s2]) (auto simp: n1 who_object_def dest!: bspec [of _ _ "Remote_Participant 0"])
qed

end
