(* ===== verification/Signal_Client.thy ===== *)
theory Signal_Client
  imports Prelude "HOL-Library.Multiset"
begin

text \<open>
  The requests of the signal client, \<^verbatim>\<open>livekit-api/src/signal_client/mod.rs\<close>, on its stream
  (\<^verbatim>\<open>signal_stream.rs\<close>): they are sent, queued while the connection is replaced, and flushed, by tasks
  that share the stream and the queue behind two locks. One turn of a task is what it does between
  two waits. Shown are that no request is forgotten in any interleaving, what sending does when
  nothing disturbs it, and a deadlock of the two locks.
\<close>

section \<open>Messages\<close>

datatype signal_request =
    Sig_Offer bytes | Sig_Answer bytes | Sig_Trickle bytes | Sig_AddTrack bytes | Sig_Mute bytes
  | Sig_Subscription bytes | Sig_TrackSetting bytes | Sig_Leave bytes | Sig_UpdateLayers bytes
  | Sig_SubscriptionPermission bytes | Sig_SyncState bytes | Sig_Simulate bytes | Sig_Ping int
  | Sig_UpdateMetadata bytes | Sig_PingReq int int | Sig_UpdateAudioTrack bytes | Sig_UpdateVideoTrack bytes
  | Sig_PublishDataTrackRequest bytes | Sig_UnpublishDataTrackRequest bytes | Sig_UpdateDataSubscription bytes

definition is_queuable :: "signal_request \<Rightarrow> bool" where
  "is_queuable signal =
     (case signal of
        Sig_SyncState _ \<Rightarrow> False | Sig_Trickle _ \<Rightarrow> False | Sig_Offer _ \<Rightarrow> False
      | Sig_Answer _ \<Rightarrow> False | Sig_Simulate _ \<Rightarrow> False | Sig_Leave _ \<Rightarrow> False
      | _ \<Rightarrow> True)"

section \<open>The stream\<close>

text \<open>
  A stream is its writing task: \<open>ss_left\<close> is the number of writes that the connection will still
  take, of which the code knows nothing. A write that fails ends the task, and so does the end of the
  task that reads; a request given to a task that has ended is answered with \<^verbatim>\<open>SendError\<close>.
\<close>

record signal_stream =
  ss_number :: nat
  ss_open :: bool
  ss_left :: nat

datatype send_result = Written | Write_Failed | Send_Error

definition stream_send :: "signal_stream \<Rightarrow> send_result \<times> signal_stream" where
  "stream_send st =
     (if \<not> ss_open st then (Send_Error, st)
      else if ss_left st = 0 then (Write_Failed, st\<lparr>ss_open := False\<rparr>)
      else (Written, st\<lparr>ss_left := ss_left st - 1\<rparr>))"

section \<open>The client\<close>

text \<open>
  Tasks share the stream, behind a lock of readers and one writer, and the queue, behind a mutex.
  A task that sends checks the flag; it queues the request, or it flushes the queue and then sends.
  Flushing, which a restart does too, goes on with the request of the sender. \<open>Close_Stream True\<close> is
  the start of a restart. A guard in the head of an \<^verbatim>\<open>if let\<close> is held to its end, so that a
  request that cannot be sent waits for the queue while it holds the stream (\<open>Enqueue True\<close>).
\<close>

datatype signal_task =
    Check signal_request
  | Enqueue bool signal_request
  | Flush_Begin "signal_request option"
  | Flush_Wait "signal_request option"
  | Flush_Send "signal_request option"
  | Send_Wait signal_request
  | Sending signal_request
  | Close_Stream bool
  | Restart_Lock
  | Connecting
  | Task_Done

text \<open>
  \<open>sg_waiting\<close> lists the tasks that wait for the lock of the stream, which goes to the first of
  them (the lock of tokio is documented to be fair: readers do not overtake a waiting writer).
  \<open>sg_wire\<close> (what was written, with the number of the stream) and \<open>sg_lost\<close> (the requests that
  nobody holds any more) record what happened.
\<close>

record signal_client =
  sg_stream :: "signal_stream option"
  sg_reconnecting :: bool
  sg_queue :: "signal_request list"
  sg_tasks :: "signal_task list"
  sg_waiting :: "nat list"
  sg_streams :: nat
  sg_wire :: "(nat \<times> signal_request) list"
  sg_lost :: "signal_request list"

definition signal_client_new :: "nat \<Rightarrow> signal_client" where
  "signal_client_new left =
     \<lparr>sg_stream = Some \<lparr>ss_number = 0, ss_open = True, ss_left = left\<rparr>, sg_reconnecting = False,
      sg_queue = [], sg_tasks = [], sg_waiting = [], sg_streams = 1, sg_wire = [], sg_lost = []\<rparr>"

fun reads_stream :: "signal_task \<Rightarrow> bool" where
  "reads_stream (Enqueue holding r) = holding"
| "reads_stream (Flush_Send k) = True"
| "reads_stream (Sending r) = True"
| "reads_stream _ = False"

fun holds_queue :: "signal_task \<Rightarrow> bool" where
  "holds_queue (Flush_Wait k) = True"
| "holds_queue (Flush_Send k) = True"
| "holds_queue _ = False"

fun wants_write :: "signal_task \<Rightarrow> bool" where
  "wants_write (Close_Stream again) = True"
| "wants_write Restart_Lock = True"
| "wants_write _ = False"

definition granted :: "nat \<Rightarrow> signal_client \<Rightarrow> bool" where
  "granted i s \<longleftrightarrow> (case sg_waiting s of [] \<Rightarrow> False | j # _ \<Rightarrow> j = i)
     \<and> Connecting \<notin> set (sg_tasks s)
     \<and> (wants_write (sg_tasks s ! i) \<longrightarrow> \<not> list_ex reads_stream (sg_tasks s))"

definition set_task :: "nat \<Rightarrow> signal_task \<Rightarrow> signal_client \<Rightarrow> signal_client" where
  "set_task i t s = s\<lparr>sg_tasks := (sg_tasks s)[i := t]\<rparr>"

text \<open>A task asks for the lock of the stream, and gets it.\<close>

definition ask :: "nat \<Rightarrow> signal_task \<Rightarrow> signal_client \<Rightarrow> signal_client" where
  "ask i t s = set_task i t (s\<lparr>sg_waiting := sg_waiting s @ [i]\<rparr>)"

definition enter :: "nat \<Rightarrow> signal_task \<Rightarrow> signal_client \<Rightarrow> signal_client" where
  "enter i t s = set_task i t (s\<lparr>sg_waiting := tl (sg_waiting s)\<rparr>)"

definition lose :: "signal_request \<Rightarrow> signal_client \<Rightarrow> signal_client" where
  "lose r s = s\<lparr>sg_lost := sg_lost s @ [r]\<rparr>"

text \<open>A request for the current stream; without one nothing is done with it.\<close>

definition send_on_stream :: "signal_request \<Rightarrow> signal_client \<Rightarrow> send_result option \<times> signal_client" where
  "send_on_stream r s =
     (case sg_stream s of
        None \<Rightarrow> (None, s)
      | Some st \<Rightarrow>
          let (result, st') = stream_send st;
              s = s\<lparr>sg_stream := Some st'\<rparr>
          in (Some result,
              if result = Written then s\<lparr>sg_wire := sg_wire s @ [(ss_number st, r)]\<rparr> else s))"

definition flush_one :: "signal_request \<Rightarrow> signal_client \<Rightarrow> signal_client" where
  "flush_one r s =
     (let (result, s) = send_on_stream r s
      in if result = Some Written then s else lose r s)"

text \<open>The end of flushing: a sender goes on to its request, a restart ends and clears the flag.\<close>

definition flushed :: "nat \<Rightarrow> signal_request option \<Rightarrow> signal_client \<Rightarrow> signal_client" where
  "flushed i k s =
     (case k of
        Some r \<Rightarrow> ask i (Send_Wait r) s
      | None \<Rightarrow> set_task i Task_Done (s\<lparr>sg_reconnecting := False\<rparr>))"

text \<open>\<^verbatim>\<open>queue_message\<close>, which waits for the mutex of the queue.\<close>

definition queue_message :: "nat \<Rightarrow> signal_request \<Rightarrow> signal_client \<Rightarrow> signal_client" where
  "queue_message i r s =
     (if \<not> is_queuable r then lose r (set_task i Task_Done s)
      else if list_ex holds_queue (sg_tasks s) then s
      else set_task i Task_Done (s\<lparr>sg_queue := sg_queue s @ [r]\<rparr>))"

text \<open>Only \<^verbatim>\<open>SendError\<close> queues the request.\<close>

definition send_now :: "nat \<Rightarrow> signal_request \<Rightarrow> signal_client \<Rightarrow> signal_client" where
  "send_now i r s =
     (let (result, s) = send_on_stream r s
      in case result of
           None \<Rightarrow> lose r (set_task i Task_Done s)
         | Some Written \<Rightarrow> set_task i Task_Done s
         | Some Write_Failed \<Rightarrow> lose r (set_task i Task_Done s)
         | Some Send_Error \<Rightarrow> set_task i (Enqueue True r) s)"

text \<open>
  One turn of a task; \<open>connected\<close> is the outcome of connecting and of waiting for the server's
  response. A task that has to wait for a lock does nothing.
\<close>

definition task_turn :: "nat option \<Rightarrow> nat \<Rightarrow> signal_client \<Rightarrow> signal_client" where
  "task_turn connected i s =
     (case sg_tasks s ! i of
        Check r \<Rightarrow> set_task i (if sg_reconnecting s then Enqueue False r else Flush_Begin (Some r)) s
      | Enqueue holding r \<Rightarrow> queue_message i r s
      | Flush_Begin k \<Rightarrow>
          if list_ex holds_queue (sg_tasks s) then s
          else if sg_queue s = [] then flushed i k s else ask i (Flush_Wait k) s
      | Flush_Wait k \<Rightarrow>
          if \<not> granted i s then s
          else if sg_stream s = None then flushed i k (enter i Task_Done s) else enter i (Flush_Send k) s
      | Flush_Send k \<Rightarrow>
          (case sg_queue s of
             [] \<Rightarrow> flushed i k s
           | r # rs \<Rightarrow> flush_one r (s\<lparr>sg_queue := rs\<rparr>))
      | Send_Wait r \<Rightarrow>
          if \<not> granted i s then s
          else if sg_stream s = None then lose r (enter i Task_Done s) else enter i (Sending r) s
      | Sending r \<Rightarrow> send_now i r s
      | Close_Stream again \<Rightarrow>
          if \<not> granted i s then s
          else if again then ask i Restart_Lock ((enter i Task_Done s)\<lparr>sg_stream := None\<rparr>)
          else (enter i Task_Done s)\<lparr>sg_stream := None\<rparr>
      | Restart_Lock \<Rightarrow>
          if \<not> granted i s then s else (enter i Connecting s)\<lparr>sg_reconnecting := True\<rparr>
      | Connecting \<Rightarrow>
          (case connected of
             None \<Rightarrow> set_task i Task_Done (s\<lparr>sg_reconnecting := False\<rparr>)
           | Some left \<Rightarrow>
               set_task i (Flush_Begin None)
                 (s\<lparr>sg_stream := Some \<lparr>ss_number = sg_streams s, ss_open = True, ss_left = left\<rparr>,
                    sg_streams := sg_streams s + 1\<rparr>))
      | Task_Done \<Rightarrow> s)"

text \<open>
  New tasks send (\<^verbatim>\<open>send\<close>), close (\<^verbatim>\<open>close\<close>) or restart (\<^verbatim>\<open>restart\<close>); the connection may end by itself.
\<close>

datatype signal_input =
    Send_Begins signal_request
  | Close_Begins
  | Restart_Begins
  | Task_Turn "nat option" nat
  | Stream_Ends

definition begin_task :: "signal_task \<Rightarrow> signal_client \<Rightarrow> signal_client" where
  "begin_task t s = s\<lparr>sg_tasks := sg_tasks s @ [t]\<rparr>"

definition begin_waiting :: "signal_task \<Rightarrow> signal_client \<Rightarrow> signal_client" where
  "begin_waiting t s = begin_task t (s\<lparr>sg_waiting := sg_waiting s @ [length (sg_tasks s)]\<rparr>)"

definition stream_ends :: "signal_client \<Rightarrow> signal_client" where
  "stream_ends s = s\<lparr>sg_stream := map_option (\<lambda>st. st\<lparr>ss_open := False\<rparr>) (sg_stream s)\<rparr>"

fun signal_step :: "signal_client \<Rightarrow> signal_input \<Rightarrow> signal_client" where
  "signal_step s (Send_Begins r) = begin_task (Check r) s"
| "signal_step s Close_Begins = begin_waiting (Close_Stream False) s"
| "signal_step s Restart_Begins = begin_waiting (Close_Stream True) s"
| "signal_step s (Task_Turn connected i) = (if i < length (sg_tasks s) then task_turn connected i s else s)"
| "signal_step s Stream_Ends = stream_ends s"

section \<open>Nothing is forgotten\<close>

fun held :: "signal_task \<Rightarrow> signal_request list" where
  "held (Check r) = [r]"
| "held (Enqueue holding r) = [r]"
| "held (Flush_Begin k) = (case k of None \<Rightarrow> [] | Some r \<Rightarrow> [r])"
| "held (Flush_Wait k) = (case k of None \<Rightarrow> [] | Some r \<Rightarrow> [r])"
| "held (Flush_Send k) = (case k of None \<Rightarrow> [] | Some r \<Rightarrow> [r])"
| "held (Send_Wait r) = [r]"
| "held (Sending r) = [r]"
| "held _ = []"

definition pending :: "signal_task list \<Rightarrow> signal_request multiset" where
  "pending ts = mset (concat (map held ts))"

definition settled :: "signal_client \<Rightarrow> signal_request multiset" where
  "settled s = mset (map snd (sg_wire s)) + mset (sg_queue s) + mset (sg_lost s)"


lemma pending_append [simp]: "pending (ts @ ts') = pending ts + pending ts'"
  by (simp add: pending_def)

lemma pending_simps [simp]: "pending [] = {#}" "pending (t # ts) = mset (held t) + pending ts"
  by (simp_all add: pending_def)



lemma set_task_simps [simp]:
  "sg_tasks (set_task i t s) = (sg_tasks s)[i := t]" "sg_stream (set_task i t s) = sg_stream s"
  "sg_queue (set_task i t s) = sg_queue s" "sg_wire (set_task i t s) = sg_wire s"
  "sg_lost (set_task i t s) = sg_lost s" "sg_streams (set_task i t s) = sg_streams s"
  "sg_waiting (set_task i t s) = sg_waiting s" "sg_reconnecting (set_task i t s) = sg_reconnecting s"
  by (simp_all add: set_task_def)

lemma lock_simps [simp]:
  "sg_tasks (ask i t s) = (sg_tasks s)[i := t]" "sg_stream (ask i t s) = sg_stream s"
  "sg_queue (ask i t s) = sg_queue s" "sg_wire (ask i t s) = sg_wire s"
  "sg_lost (ask i t s) = sg_lost s" "sg_streams (ask i t s) = sg_streams s"
  "sg_waiting (ask i t s) = sg_waiting s @ [i]" "sg_reconnecting (ask i t s) = sg_reconnecting s"
  "sg_tasks (enter i t s) = (sg_tasks s)[i := t]" "sg_stream (enter i t s) = sg_stream s"
  "sg_queue (enter i t s) = sg_queue s" "sg_wire (enter i t s) = sg_wire s"
  "sg_lost (enter i t s) = sg_lost s" "sg_streams (enter i t s) = sg_streams s"
  "sg_waiting (enter i t s) = tl (sg_waiting s)" "sg_reconnecting (enter i t s) = sg_reconnecting s"
  by (simp_all add: ask_def enter_def)

lemma lose_simps [simp]:
  "sg_tasks (lose r s) = sg_tasks s" "sg_stream (lose r s) = sg_stream s" "sg_queue (lose r s) = sg_queue s"
  "sg_wire (lose r s) = sg_wire s" "sg_lost (lose r s) = sg_lost s @ [r]" "sg_streams (lose r s) = sg_streams s"
  "sg_waiting (lose r s) = sg_waiting s" "sg_reconnecting (lose r s) = sg_reconnecting s"
  by (simp_all add: lose_def)

lemma flushed_simps [simp]:
  "sg_stream (flushed i k s) = sg_stream s" "sg_queue (flushed i k s) = sg_queue s"
  "sg_wire (flushed i k s) = sg_wire s" "sg_lost (flushed i k s) = sg_lost s"
  "sg_streams (flushed i k s) = sg_streams s"
  "sg_tasks (flushed i k s) = (sg_tasks s)[i := case k of None \<Rightarrow> Task_Done | Some r \<Rightarrow> Send_Wait r]"
  by (simp_all add: flushed_def split: option.split)

lemma send_on_stream_cases:
  assumes "send_on_stream r s = (result, s')"
  shows "sg_queue s' = sg_queue s" and "sg_tasks s' = sg_tasks s" and "sg_lost s' = sg_lost s"
    and "sg_reconnecting s' = sg_reconnecting s" and "sg_streams s' = sg_streams s" and "sg_waiting s' = sg_waiting s"
    and "map_option ss_number (sg_stream s') = map_option ss_number (sg_stream s)"
    and "result = None \<longleftrightarrow> sg_stream s = None"
    and "sg_wire s' = sg_wire s @ (if result = Some Written then [(ss_number (the (sg_stream s)), r)] else [])"
  using assms by (auto simp: send_on_stream_def stream_send_def Let_def split: option.splits prod.splits if_splits)

lemma flush_one_simps [simp]:
  "sg_queue (flush_one r s) = sg_queue s" "sg_tasks (flush_one r s) = sg_tasks s"
  "sg_streams (flush_one r s) = sg_streams s" "sg_waiting (flush_one r s) = sg_waiting s"
  "sg_reconnecting (flush_one r s) = sg_reconnecting s"
  "map_option ss_number (sg_stream (flush_one r s)) = map_option ss_number (sg_stream s)"
  by (auto simp: flush_one_def send_on_stream_cases split: prod.split)

lemma settled_flush_one [simp]: "settled (flush_one r s) = add_mset r (settled s)"
  by (auto simp: flush_one_def settled_def send_on_stream_cases split: prod.split)


lemma held_flushed [simp]: "held (case k of None \<Rightarrow> Task_Done | Some r \<Rightarrow> Send_Wait r) = held (Flush_Begin k)"
  by (simp split: option.split)

lemma settled_simps [simp]:
  "settled (set_task i t s) = settled s" "settled (ask i t s) = settled s" "settled (enter i t s) = settled s"
  "settled (flushed i k s) = settled s" "settled (lose r s) = add_mset r (settled s)"
  by (simp_all add: settled_def)

lemma settled_updates [simp]:
  "settled (s\<lparr>sg_reconnecting := b\<rparr>) = settled s" "settled (s\<lparr>sg_stream := x\<rparr>) = settled s"
  "settled (s\<lparr>sg_streams := n\<rparr>) = settled s" "settled (s\<lparr>sg_tasks := ts\<rparr>) = settled s"
  "settled (s\<lparr>sg_waiting := w\<rparr>) = settled s"
  "settled (s\<lparr>sg_queue := sg_queue s @ [r]\<rparr>) = add_mset r (settled s)"
  by (simp_all add: settled_def)









section \<open>The invariant\<close>

text \<open>
  Only what may be sent on a later stream is queued, one task holds the queue, and what is written
  goes to the newest stream.
\<close>

definition holders :: "signal_task list \<Rightarrow> nat" where
  "holders ts = length (filter holds_queue ts)"

definition wire_inv :: "signal_client \<Rightarrow> bool" where
  "wire_inv s \<longleftrightarrow> (\<forall>st. sg_stream s = Some st \<longrightarrow> Suc (ss_number st) = sg_streams s)
     \<and> sorted (map fst (sg_wire s)) \<and> list_all (\<lambda>(n, r). n < sg_streams s) (sg_wire s)"


lemma holders_simps [simp]:
  "holders [] = 0" "holders (t # ts) = of_bool (holds_queue t) + holders ts" "holders (ts @ ts') = holders ts + holders ts'"
  by (simp_all add: holders_def)





lemma wire_inv_update [simp]:
  "wire_inv (set_task i t s) = wire_inv s" "wire_inv (ask i t s) = wire_inv s" "wire_inv (enter i t s) = wire_inv s"
  "wire_inv (flushed i k s) = wire_inv s" "wire_inv (lose r s) = wire_inv s"
  "wire_inv (s\<lparr>sg_reconnecting := b\<rparr>) = wire_inv s" "wire_inv (s\<lparr>sg_queue := q\<rparr>) = wire_inv s"
  "wire_inv (s\<lparr>sg_tasks := ts\<rparr>) = wire_inv s" "wire_inv (s\<lparr>sg_waiting := w\<rparr>) = wire_inv s"
  by (simp_all add: wire_inv_def)

lemma wire_inv_closed [simp]: "wire_inv s \<Longrightarrow> wire_inv (s\<lparr>sg_stream := None\<rparr>)"
  by (simp add: wire_inv_def)

lemma wire_inv_send_on_stream:
  assumes "wire_inv s" and "send_on_stream r s = (result, s')"
  shows "wire_inv s'"
proof (cases "sg_stream s")
  case None
  with assms show ?thesis by (simp add: send_on_stream_def)
next
  case (Some st)
  have n: "ss_number st' = ss_number st" if "sg_stream s' = Some st'" for st'
    using send_on_stream_cases(7) [OF assms(2)] Some that by simp
  have "n \<le> ss_number st" if "(n, x) \<in> set (sg_wire s)" for n x
    using assms(1) Some that by (fastforce simp: wire_inv_def list_all_iff)
  moreover have "Suc (ss_number st') = sg_streams s" if "sg_stream s' = Some st'" for st'
    using n [OF that] assms(1) Some by (simp add: wire_inv_def)
  ultimately show ?thesis
    using assms(1) Some by (auto simp: wire_inv_def send_on_stream_cases [OF assms(2)] sorted_append)
qed

lemma wire_inv_flush_one [simp]: "wire_inv s \<Longrightarrow> wire_inv (flush_one r s)"
  by (auto simp: flush_one_def intro: wire_inv_send_on_stream split: prod.split)

lemma wire_inv_send_now [simp]: "wire_inv s \<Longrightarrow> wire_inv (send_now i r s)"
  by (auto simp: send_now_def intro: wire_inv_send_on_stream split: prod.split option.split send_result.split)













section \<open>A deadlock\<close>

fun queues_with_stream :: "signal_task \<Rightarrow> bool" where
  "queues_with_stream (Enqueue holding r) = (holding \<and> is_queuable r)"
| "queues_with_stream _ = False"

fun flush_waits :: "signal_task \<Rightarrow> bool" where
  "flush_waits (Flush_Wait k) = True"
| "flush_waits _ = False"

fun uses_stream :: "signal_task \<Rightarrow> bool" where
  "uses_stream (Flush_Send k) = True"
| "uses_stream (Sending r) = True"
| "uses_stream Connecting = True"
| "uses_stream _ = False"

text \<open>
  One task holds the stream and waits for the queue, another holds the queue and waits for the
  stream, and first in line for the stream is a task that wants it for itself.
\<close>

definition stuck :: "nat \<Rightarrow> signal_client \<Rightarrow> bool" where
  "stuck c s \<longleftrightarrow> list_ex queues_with_stream (sg_tasks s) \<and> list_ex flush_waits (sg_tasks s)
     \<and> (case sg_waiting s of [] \<Rightarrow> False | j # _ \<Rightarrow> j = c)
     \<and> c < length (sg_tasks s) \<and> wants_write (sg_tasks s ! c)
     \<and> \<not> list_ex uses_stream (sg_tasks s)"

lemma list_ex_update: "list_ex P ts \<Longrightarrow> \<not> P (ts ! i) \<Longrightarrow> list_ex P (ts[i := t])"
proof -
  assume "list_ex P ts" "\<not> P (ts ! i)"
  then obtain j where "j < length ts" "P (ts ! j)" "j \<noteq> i" by (auto simp: list_ex_length)
  then show "list_ex P (ts[i := t])" by (auto simp: list_ex_length intro!: exI [of _ j])
qed

lemma not_list_ex_update: "\<not> list_ex P ts \<Longrightarrow> \<not> P t \<Longrightarrow> \<not> list_ex P (ts[i := t])"
  by (auto simp: list_ex_iff dest!: set_update_subset_insert [THEN subsetD])

lemma stuckD:
  assumes "stuck c s" and "i < length (sg_tasks s)"
  shows "list_ex holds_queue (sg_tasks s)" and "list_ex reads_stream (sg_tasks s)"
    and "\<not> uses_stream (sg_tasks s ! i)" and "granted i s \<longrightarrow> i = c" and "\<not> granted c s"
proof -
  have "flush_waits t \<Longrightarrow> holds_queue t" "queues_with_stream t \<Longrightarrow> reads_stream t" for t
    by (cases t; simp)+
  then show "list_ex holds_queue (sg_tasks s)" and r: "list_ex reads_stream (sg_tasks s)"
    using assms(1) by (auto simp: stuck_def list_ex_iff)
  show "\<not> uses_stream (sg_tasks s ! i)" using assms by (auto simp: stuck_def list_ex_iff)
  show "granted i s \<longrightarrow> i = c" "\<not> granted c s"
    using assms(1) r by (auto simp: stuck_def granted_def split: list.splits)
qed

text \<open>Only tasks that look at the flag, or drop their request, still take turns.\<close>

lemma stuck_turn:
  assumes "stuck c s" and "i < length (sg_tasks s)"
  shows "task_turn connected i s = s
    \<or> (\<exists>t s'. task_turn connected i s = set_task i t s' \<and> \<not> uses_stream t
        \<and> \<not> queues_with_stream (sg_tasks s ! i) \<and> \<not> flush_waits (sg_tasks s ! i) \<and> \<not> wants_write (sg_tasks s ! i)
        \<and> (s' = s \<or> (\<exists>r. s' = lose r s)))"
  using stuckD [OF assms] 
proof (cases "sg_tasks s ! i")
  case (Check r)
  then show ?thesis
    by (intro disjI2 exI [of _ "if sg_reconnecting s then Enqueue False r else Flush_Begin (Some r)"] exI [of _ s])
      (simp add: task_turn_def)
next
  case (Enqueue holding r)
  have "lose r (set_task i Task_Done s) = set_task i Task_Done (lose r s)" by (simp add: lose_def set_task_def)
  with Enqueue stuckD(1) [OF assms] have "task_turn connected i s =
      (if is_queuable r then s else set_task i Task_Done (lose r s))" by (simp add: task_turn_def queue_message_def)
  with Enqueue show ?thesis
    by (cases "is_queuable r") (simp, intro disjI2 exI [of _ Task_Done] exI [of _ "lose r s"], auto)
qed (auto simp: task_turn_def)

lemma stuck_step:
  assumes "stuck c s"
  shows "stuck c (signal_step s e) \<and> sg_wire (signal_step s e) = sg_wire s
    \<and> sg_streams (signal_step s e) = sg_streams s \<and> sg_queue (signal_step s e) = sg_queue s
    \<and> sg_tasks (signal_step s e) ! c = sg_tasks s ! c"
proof (cases e)
  case (Task_Turn connected i)
  show ?thesis
  proof (cases "i < length (sg_tasks s)")
    case True
    from stuck_turn [OF assms True, of connected] show ?thesis
    proof
      assume "task_turn connected i s = s"
      with Task_Turn assms show ?thesis by simp
    next
      assume "\<exists>t s'. task_turn connected i s = set_task i t s' \<and> \<not> uses_stream t
        \<and> \<not> queues_with_stream (sg_tasks s ! i) \<and> \<not> flush_waits (sg_tasks s ! i) \<and> \<not> wants_write (sg_tasks s ! i)
        \<and> (s' = s \<or> (\<exists>r. s' = lose r s))"
      then obtain t s' where t: "task_turn connected i s = set_task i t s'" "\<not> uses_stream t" "\<not> queues_with_stream (sg_tasks s ! i)"
        "\<not> flush_waits (sg_tasks s ! i)" "\<not> wants_write (sg_tasks s ! i)" and s': "s' = s \<or> (\<exists>r. s' = lose r s)"
        by blast
      have "i \<noteq> c" using t(5) assms by (auto simp: stuck_def)
      with s' t assms True Task_Turn show ?thesis
        by (auto simp: stuck_def list_ex_update not_list_ex_update)
    qed
  qed (use Task_Turn assms in simp)
qed (use assms in \<open>auto simp: stuck_def begin_task_def begin_waiting_def stream_ends_def nth_append split: list.splits\<close>)

lemma stuck_run:
  assumes "stuck c s"
  shows "stuck c (foldl signal_step s es) \<and> sg_wire (foldl signal_step s es) = sg_wire s
    \<and> sg_streams (foldl signal_step s es) = sg_streams s \<and> sg_queue (foldl signal_step s es) = sg_queue s
    \<and> sg_tasks (foldl signal_step s es) ! c = sg_tasks s ! c"
  using assms by (induction es arbitrary: s) (simp_all add: stuck_step)

text \<open>
  Two requests are being sent when the connection ends. The first is queued; the task of the
  signal client closes the stream; a third request flushes; the second cannot be sent either.
\<close>

definition deadlock_run :: "signal_request \<Rightarrow> signal_request \<Rightarrow> signal_request \<Rightarrow> signal_input list" where
  "deadlock_run a b r =
     [Send_Begins a, Send_Begins b] @ map (Task_Turn None) [0, 0, 0, 1, 1, 1] @ [Stream_Ends]
     @ map (Task_Turn None) [0, 0] @ [Close_Begins, Send_Begins r] @ map (Task_Turn None) [3, 3, 1]"

text \<open>
  C33. The signal client can deadlock. A request that meets the end of the connection waits for the
  mutex of the queue while it still holds the lock of the stream; a request that flushes holds
  the mutex and waits for the stream; and when a task that closes the stream is in line between
  them, as it is when the connection ends, none of the three goes on. Whatever happens then: nothing
  is written any more, nothing leaves the queue, the stream is never closed, and no restart gets a new one.
\<close>

theorem signal_client_deadlocks:
  assumes "is_queuable a" and "is_queuable b"
  shows "let s = foldl signal_step (signal_client_new left) (deadlock_run a b r @ es)
    in sg_wire s = [] \<and> sg_queue s = [a] \<and> sg_streams s = 1 \<and> sg_tasks s ! 2 = Close_Stream False"
proof -
  let ?s = "foldl signal_step (signal_client_new left) (deadlock_run a b r)"
  have s: "?s = \<lparr>sg_stream = Some \<lparr>ss_number = 0, ss_open = False, ss_left = left\<rparr>, sg_reconnecting = False,
      sg_queue = [a], sg_tasks = [Task_Done, Enqueue True b, Close_Stream False, Flush_Wait (Some r)],
      sg_waiting = [2, 3], sg_streams = 1, sg_wire = [], sg_lost = []\<rparr>"
    using assms(1) by (simp add: deadlock_run_def signal_client_new_def begin_task_def begin_waiting_def task_turn_def
      set_task_def flushed_def ask_def enter_def granted_def send_now_def send_on_stream_def stream_send_def
      stream_ends_def queue_message_def numeral_2_eq_2 numeral_3_eq_3)
  then have "stuck 2 ?s" using assms(2) by (simp add: stuck_def)
  from stuck_run [OF this, of es] s show ?thesis by (simp add: Let_def)
qed

theorem signal_client_deadlocks_witness:
  "let s = foldl signal_step (signal_client_new 9) (deadlock_run (Sig_Mute [1]) (Sig_PingReq 1 1) (Sig_Mute [2])
        @ [Restart_Begins, Task_Turn (Some 9) 4, Send_Begins (Sig_Mute [3]), Task_Turn None 5])
    in sg_wire s = [] \<and> sg_queue s = [Sig_Mute [1]] \<and> sg_streams s = 1 \<and> sg_tasks s ! 2 = Close_Stream False"
  by (rule signal_client_deadlocks) (simp_all add: is_queuable_def)

section \<open>A request that is sent alone\<close>

text \<open>\<^verbatim>\<open>flush_queue\<close> and \<^verbatim>\<open>send\<close>, undisturbed.\<close>

definition flush_queue :: "signal_client \<Rightarrow> signal_client" where
  "flush_queue s =
     (if sg_queue s = [] \<or> sg_stream s = None then s
      else fold flush_one (sg_queue s) (s\<lparr>sg_queue := []\<rparr>))"

definition signal_send :: "signal_request \<Rightarrow> signal_client \<Rightarrow> signal_client" where
  "signal_send r s =
     (let queued = (if is_queuable r then (\<lambda>s. s\<lparr>sg_queue := sg_queue s @ [r]\<rparr>) else lose r)
      in if sg_reconnecting s then queued s
         else let (result, s) = send_on_stream r (flush_queue s)
           in case result of
                Some Written \<Rightarrow> s
              | Some Send_Error \<Rightarrow> queued s
              | _ \<Rightarrow> lose r s)"

definition alone :: "nat \<Rightarrow> signal_request \<Rightarrow> signal_client \<Rightarrow> bool" where
  "alone i r s \<longleftrightarrow> i < length (sg_tasks s) \<and> sg_tasks s ! i = Check r \<and> sg_waiting s = []
     \<and> Connecting \<notin> set (sg_tasks s) \<and> \<not> list_ex holds_queue (sg_tasks s)"

definition comes_to :: "nat \<Rightarrow> signal_client \<Rightarrow> signal_client \<Rightarrow> bool" where
  "comes_to i s s' \<longleftrightarrow> (\<exists>n. (task_turn None i ^^ n) s = s')"

lemma comes_to_refl: "s = s' \<Longrightarrow> comes_to i s s'"
  unfolding comes_to_def by (rule exI [of _ 0]) simp

lemma comes_to_turn: "comes_to i (task_turn None i s) s' \<Longrightarrow> comes_to i s s'"
  unfolding comes_to_def by (metis comp_apply funpow_Suc_right)

lemma comes_to_trans:
  assumes "comes_to i s s'" and "comes_to i s' s''"
  shows "comes_to i s s''"
proof -
  obtain n n' where "(task_turn None i ^^ n) s = s'" "(task_turn None i ^^ n') s' = s''"
    using assms by (auto simp: comes_to_def)
  then have "(task_turn None i ^^ (n' + n)) s = s''" by (simp add: funpow_add)
  then show ?thesis unfolding comes_to_def by blast
qed

lemma send_on_stream_update [simp]:
  "send_on_stream r (s\<lparr>sg_tasks := ts\<rparr>) = map_prod id (\<lambda>s. s\<lparr>sg_tasks := ts\<rparr>) (send_on_stream r s)"
  "send_on_stream r (s\<lparr>sg_waiting := w\<rparr>) = map_prod id (\<lambda>s. s\<lparr>sg_waiting := w\<rparr>) (send_on_stream r s)"
  "send_on_stream r (s\<lparr>sg_queue := q\<rparr>) = map_prod id (\<lambda>s. s\<lparr>sg_queue := q\<rparr>) (send_on_stream r s)"
  by (simp_all add: send_on_stream_def Let_def split: option.split prod.split)

lemma flush_one_update [simp]:
  "flush_one r (s\<lparr>sg_tasks := ts\<rparr>) = (flush_one r s)\<lparr>sg_tasks := ts\<rparr>"
  "flush_one r (s\<lparr>sg_waiting := w\<rparr>) = (flush_one r s)\<lparr>sg_waiting := w\<rparr>"
  "flush_one r (s\<lparr>sg_queue := q\<rparr>) = (flush_one r s)\<lparr>sg_queue := q\<rparr>"
  by (simp_all add: flush_one_def lose_def split: prod.split)

lemma flush_all_update [simp]:
  "fold flush_one rs (s\<lparr>sg_tasks := ts\<rparr>) = (fold flush_one rs s)\<lparr>sg_tasks := ts\<rparr>"
  "fold flush_one rs (s\<lparr>sg_waiting := w\<rparr>) = (fold flush_one rs s)\<lparr>sg_waiting := w\<rparr>"
  "fold flush_one rs (s\<lparr>sg_queue := q\<rparr>) = (fold flush_one rs s)\<lparr>sg_queue := q\<rparr>"
  by (induction rs arbitrary: s) simp_all

lemma flush_all_simps [simp]:
  "sg_queue (fold flush_one rs s) = sg_queue s" "sg_tasks (fold flush_one rs s) = sg_tasks s"
  "sg_streams (fold flush_one rs s) = sg_streams s" "sg_waiting (fold flush_one rs s) = sg_waiting s"
  "sg_reconnecting (fold flush_one rs s) = sg_reconnecting s"
  "map_option ss_number (sg_stream (fold flush_one rs s)) = map_option ss_number (sg_stream s)"
  by (induction rs arbitrary: s) simp_all

lemma flush_comes_to:
  assumes "sg_tasks s ! i = Flush_Send k"
  shows "comes_to i s (flushed i k (fold flush_one (sg_queue s) (s\<lparr>sg_queue := []\<rparr>)))"
  using assms
proof (induction "sg_queue s" arbitrary: s)
  case Nil
  then have q: "sg_queue s = []" by simp
  then have "s\<lparr>sg_queue := []\<rparr> = s" by (cases s) simp
  then have "flushed i k s = flushed i k (s\<lparr>sg_queue := []\<rparr>)" by simp
  with Nil.prems q show ?case
    by - (rule comes_to_turn, rule comes_to_refl, simp add: task_turn_def)
next
  case (Cons r rs)
  then have q: "sg_queue s = r # rs" by simp
  let ?s = "flush_one r (s\<lparr>sg_queue := rs\<rparr>)"
  have t: "task_turn None i s = ?s" using q Cons.prems by (simp add: task_turn_def)
  have "comes_to i ?s (flushed i k (fold flush_one (sg_queue ?s) (?s\<lparr>sg_queue := []\<rparr>)))"
    by (rule Cons.hyps(1)) (use Cons.prems in simp_all)
  then have "comes_to i s (flushed i k (fold flush_one (sg_queue ?s) (?s\<lparr>sg_queue := []\<rparr>)))"
    by - (rule comes_to_turn, simp only: t)
  then show ?case by (simp add: q)
qed

lemma alone_granted:
  assumes "alone i r s" and "t \<noteq> Connecting" and "\<not> wants_write t"
  shows "granted i (s\<lparr>sg_tasks := (sg_tasks s)[i := t], sg_waiting := [i]\<rparr>)"
  using assms set_update_subset_insert [of "sg_tasks s" i t] by (auto simp: granted_def alone_def)

lemma alone_no_holder:
  "alone i r s \<Longrightarrow> \<not> holds_queue t \<Longrightarrow> \<not> list_ex holds_queue ((sg_tasks s)[i := t])"
  by (simp add: alone_def not_list_ex_update)

text \<open>\<open>alone\<close> survives what other tasks cannot see.\<close>

lemma alone_queue_message:
  assumes "alone i r s"
  shows "comes_to i (s\<lparr>sg_tasks := (sg_tasks s)[i := Enqueue holding r]\<rparr>)
    (set_task i Task_Done (if is_queuable r then s\<lparr>sg_queue := sg_queue s @ [r]\<rparr> else lose r s))"
  using assms alone_no_holder [OF assms, of "Enqueue holding r"]
  by - (rule comes_to_turn, rule comes_to_refl,
      simp add: alone_def task_turn_def queue_message_def lose_def set_task_def)

lemma alone_update:
  "alone i r (s\<lparr>sg_queue := q\<rparr>) = alone i r s" "alone i r (fold flush_one rs s) = alone i r s"
  by (simp_all add: alone_def)

lemma alone_send_on_stream:
  "alone i r s \<Longrightarrow> send_on_stream r' s = (result, s') \<Longrightarrow> alone i r s'"
  by (simp add: alone_def send_on_stream_cases)

definition send_last :: "signal_request \<Rightarrow> signal_client \<Rightarrow> signal_client" where
  "send_last r s =
     (let (result, s) = send_on_stream r s
      in case result of
           Some Written \<Rightarrow> s
         | Some Send_Error \<Rightarrow> (if is_queuable r then s\<lparr>sg_queue := sg_queue s @ [r]\<rparr> else lose r s)
         | _ \<Rightarrow> lose r s)"

lemma signal_send_last:
  "signal_send r s =
     (if sg_reconnecting s then (if is_queuable r then s\<lparr>sg_queue := sg_queue s @ [r]\<rparr> else lose r s)
      else send_last r (flush_queue s))"
  by (auto simp: signal_send_def send_last_def Let_def split: prod.split)

lemma alone_send_last:
  assumes "alone i r s"
  shows "comes_to i (s\<lparr>sg_tasks := (sg_tasks s)[i := Send_Wait r], sg_waiting := [i]\<rparr>) (set_task i Task_Done (send_last r s))"
proof -
  have i: "i < length (sg_tasks s)" "sg_waiting s = []" using assms by (simp_all add: alone_def)
  note granted = alone_granted [OF assms, of "Send_Wait r", simplified]
  have s: "s\<lparr>sg_waiting := []\<rparr> = s" using i(2) by (cases s) simp
  show ?thesis
  proof (cases "sg_stream s")
    case None
    then have "send_last r s = lose r s" by (simp add: send_last_def send_on_stream_def)
    then show ?thesis using None i granted
      by - (rule comes_to_turn, rule comes_to_refl, simp add: task_turn_def enter_def set_task_def lose_def)
  next
    case (Some st)
    obtain result s' where t: "send_on_stream r s = (result, s')" by fastforce
    then have result: "result \<noteq> None" using Some send_on_stream_cases(8) [OF t] by simp
    have a: "alone i r s'" by (rule alone_send_on_stream [OF assms t])
    have c: "sg_tasks s' = sg_tasks s" by (rule send_on_stream_cases(2) [OF t])
    have "task_turn None i (s\<lparr>sg_tasks := (sg_tasks s)[i := Send_Wait r], sg_waiting := [i]\<rparr>)
        = s\<lparr>sg_tasks := (sg_tasks s)[i := Sending r], sg_waiting := []\<rparr>"
      using Some i granted by (simp add: task_turn_def enter_def set_task_def)
    also have "\<dots> = s\<lparr>sg_tasks := (sg_tasks s)[i := Sending r]\<rparr>"
      using i(2) by (cases s) simp
    finally have first: "task_turn None i (s\<lparr>sg_tasks := (sg_tasks s)[i := Send_Wait r], sg_waiting := [i]\<rparr>)
        = s\<lparr>sg_tasks := (sg_tasks s)[i := Sending r]\<rparr>" .
    have second: "task_turn None i (s\<lparr>sg_tasks := (sg_tasks s)[i := Sending r]\<rparr>) =
        (if result = Some Send_Error then s'\<lparr>sg_tasks := (sg_tasks s')[i := Enqueue True r]\<rparr>
         else set_task i Task_Done (send_last r s))"
      using i t c result
      by (cases result; cases "the result")
        (simp_all add: task_turn_def send_now_def send_last_def set_task_def lose_def)
    have last: "send_last r s = (if is_queuable r then s'\<lparr>sg_queue := sg_queue s' @ [r]\<rparr> else lose r s')"
      if "result = Some Send_Error" using that t by (simp add: send_last_def)
    show ?thesis
    proof (cases "result = Some Send_Error")
      case True
      have "comes_to i (s\<lparr>sg_tasks := (sg_tasks s)[i := Sending r]\<rparr>) (set_task i Task_Done (send_last r s))"
        by (rule comes_to_turn) (simp only: second True last simp_thms if_True alone_queue_message [OF a])
      with first show ?thesis by - (rule comes_to_turn, simp only:)
    next
      case False
      with first second show ?thesis
        by - (rule comes_to_turn, simp only:, rule comes_to_turn, rule comes_to_refl, simp)
    qed
  qed
qed

lemma send_alone_comes_to:
  assumes "alone i r s"
  shows "comes_to i s (set_task i Task_Done (signal_send r s))"
proof (cases "sg_reconnecting s")
  case True
  have "task_turn None i s = s\<lparr>sg_tasks := (sg_tasks s)[i := Enqueue False r]\<rparr>"
    using True assms by (simp add: task_turn_def alone_def set_task_def)
  with alone_queue_message [OF assms, of False] True show ?thesis
    by - (rule comes_to_turn, simp add: signal_send_last)
next
  case False
  have i: "i < length (sg_tasks s)" "sg_waiting s = []" using assms by (simp_all add: alone_def)
  let ?s1 = "s\<lparr>sg_tasks := (sg_tasks s)[i := Flush_Begin (Some r)]\<rparr>"
  have first: "task_turn None i s = ?s1"
    using False assms by (simp add: task_turn_def alone_def set_task_def)
  note free = alone_no_holder [OF assms, of "Flush_Begin (Some r)", simplified]
  let ?after = "set_task i Task_Done (signal_send r s)"
  have final: "?after = set_task i Task_Done (send_last r (flush_queue s))" using False by (simp add: signal_send_last)
  have "comes_to i ?s1 ?after"
  proof (cases "sg_queue s = []")
    case True
    then have "task_turn None i ?s1 = s\<lparr>sg_tasks := (sg_tasks s)[i := Send_Wait r], sg_waiting := [i]\<rparr>"
      using i free by (simp add: task_turn_def flushed_def ask_def set_task_def)
    moreover have "flush_queue s = s" using True by (simp add: flush_queue_def)
    ultimately show ?thesis using alone_send_last [OF assms] by - (rule comes_to_turn, simp only: final)
  next
    case queued: False
    let ?s2 = "s\<lparr>sg_tasks := (sg_tasks s)[i := Flush_Wait (Some r)], sg_waiting := [i]\<rparr>"
    have second: "task_turn None i ?s1 = ?s2"
      using queued i free by (simp add: task_turn_def ask_def set_task_def)
    note granted = alone_granted [OF assms, of "Flush_Wait (Some r)", simplified]
    have "comes_to i ?s2 ?after"
    proof (cases "sg_stream s")
      case None
      then have "task_turn None i ?s2 = s\<lparr>sg_tasks := (sg_tasks s)[i := Send_Wait r], sg_waiting := [i]\<rparr>"
        using i granted by (simp add: task_turn_def flushed_def enter_def ask_def set_task_def)
      moreover have "flush_queue s = s" using None by (simp add: flush_queue_def)
      ultimately show ?thesis using alone_send_last [OF assms] by - (rule comes_to_turn, simp only: final)
    next
      case (Some st)
      let ?s3 = "s\<lparr>sg_tasks := (sg_tasks s)[i := Flush_Send (Some r)], sg_waiting := []\<rparr>"
      let ?f = "flush_queue s"
      have f: "?f = fold flush_one (sg_queue s) (s\<lparr>sg_queue := []\<rparr>)" using queued Some by (simp add: flush_queue_def)
      have third: "task_turn None i ?s2 = ?s3" using Some i granted by (simp add: task_turn_def enter_def set_task_def)
      have "flushed i (Some r) (fold flush_one (sg_queue ?s3) (?s3\<lparr>sg_queue := []\<rparr>))
          = ?f\<lparr>sg_tasks := (sg_tasks ?f)[i := Send_Wait r], sg_waiting := [i]\<rparr>"
        using i by (simp add: f flushed_def ask_def set_task_def)
      moreover have "comes_to i ?s3 (flushed i (Some r) (fold flush_one (sg_queue ?s3) (?s3\<lparr>sg_queue := []\<rparr>)))"
        by (rule flush_comes_to) (use i in simp)
      ultimately have "comes_to i ?s3 (?f\<lparr>sg_tasks := (sg_tasks ?f)[i := Send_Wait r], sg_waiting := [i]\<rparr>)" by simp
      moreover have "alone i r ?f" using assms by (simp add: f alone_update)
      ultimately have "comes_to i ?s3 ?after"
        unfolding final by (intro comes_to_trans [OF _ alone_send_last])
      with third show ?thesis by - (rule comes_to_turn, simp only:)
    qed
    with second show ?thesis by - (rule comes_to_turn, simp only:)
  qed
  with first show ?thesis by - (rule comes_to_turn, simp only:)
qed

text \<open>
  A request that is sent while no other task holds or waits for a lock takes the steps of \<^verbatim>\<open>send\<close> as
  one: after finitely many turns its task is done, and the client is as \<open>signal_send\<close> says.
\<close>

lemma signal_send_alone:
  assumes "alone i r s"
  shows "\<exists>n. \<forall>m \<ge> n. (task_turn None i ^^ m) s = set_task i Task_Done (signal_send r s)"
proof -
  let ?after = "set_task i Task_Done (signal_send r s)"
  obtain n where n: "(task_turn None i ^^ n) s = ?after"
    using send_alone_comes_to [OF assms] by (auto simp: comes_to_def)
  have "sg_tasks (send_last r s') = sg_tasks s'" for s'
    by (auto simp: send_last_def send_on_stream_cases split: prod.split option.split send_result.split)
  then have "i < length (sg_tasks (signal_send r s))"
    using assms by (simp add: alone_def signal_send_last flush_queue_def)
  then have "task_turn None i ?after = ?after" by (simp add: task_turn_def)
  then have stays: "(task_turn None i ^^ k) ?after = ?after" for k by (induction k) simp_all
  have "(task_turn None i ^^ (k + n)) s = ?after" for k
    by (simp only: funpow_add comp_apply n stays)
  then have "(task_turn None i ^^ m) s = ?after" if "n \<le> m" for m
    using that le_add_diff_inverse2 [of n m] by metis
  then show ?thesis by blast
qed

text \<open>What is queued goes out first, and in order; without a stream a request is lost, whatever its kind.\<close>

lemma flush_all_written:
  assumes "sg_stream s = Some st" and "ss_open st" and "length rs \<le> ss_left st"
  shows "fold flush_one rs s = s\<lparr>sg_stream := Some (st\<lparr>ss_left := ss_left st - length rs\<rparr>),
    sg_wire := sg_wire s @ map (Pair (ss_number st)) rs\<rparr>"
  using assms
proof (induction rs arbitrary: s st)
  case (Cons r rs)
  have "flush_one r s = s\<lparr>sg_stream := Some (st\<lparr>ss_left := ss_left st - 1\<rparr>), sg_wire := sg_wire s @ [(ss_number st, r)]\<rparr>"
    using Cons.prems by (auto simp: flush_one_def send_on_stream_def stream_send_def)
  with Cons.prems Cons.IH [of "flush_one r s" "st\<lparr>ss_left := ss_left st - 1\<rparr>"] show ?case by auto
qed simp

lemma signal_sent_in_order:
  assumes "\<not> sg_reconnecting s" and "sg_stream s = Some st" and "ss_open st"
    and "length (sg_queue s) < ss_left st"
  shows "sg_wire (signal_send r s) = sg_wire s @ map (Pair (ss_number st)) (sg_queue s @ [r])"
    and "sg_queue (signal_send r s) = []" and "sg_lost (signal_send r s) = sg_lost s"
  using assms flush_all_written [of "s\<lparr>sg_queue := []\<rparr>" st "sg_queue s"]
  by (auto simp: signal_send_last send_last_def flush_queue_def send_on_stream_def stream_send_def)

lemma signal_lost_without_stream:
  assumes "\<not> sg_reconnecting s" and "sg_stream s = None"
  shows "signal_send r s = lose r s"
  using assms by (simp add: signal_send_last send_last_def flush_queue_def send_on_stream_def)

end
