(* ===== verification/Spec2Isabelle.thy ===== *)
theory Spec2Isabelle
  imports Local_Manager Remote_Manager Room_Streams Session_Data Rpc Engine E2ee_Manager Room_Runs Signal_Client
begin

text \<open>
  \<^bold>\<open>A verification library for the LiveKit Rust SDK: its data path, its room and its engine.\<close>

  \<^bold>\<open>The program.\<close> A client of a LiveKit room exchanges data with other participants through a
  selective forwarding unit (SFU) in three ways, all modelled here. Data tracks
  (\<^verbatim>\<open>livekit-datatrack\<close>) carry frames that are cut into packets of their own format and sent
  without retransmission. Data packets (\<^verbatim>\<open>livekit/src/rtc_engine\<close>) are protocol messages sent
  over a lossy or a reliable data channel, the reliable ones with sequence numbers and retries.
  Data streams (\<^verbatim>\<open>livekit/src/room/data_stream\<close>) send texts, bytes and files of any size as a
  header, chunks and a trailer in reliable data packets. Remote procedure calls are data packets
  too. The engine (\<^verbatim>\<open>rtc_engine/mod.rs\<close>) keeps the session alive by resuming or restarting it; the
  room (\<^verbatim>\<open>room/mod.rs\<close>) takes its events, keeps the participants with their publications, and
  reports what happens to the user.

  \<^bold>\<open>Theories and sources.\<close>
  \<^item> \<open>Prelude\<close>: results with panics (\<open>rust\<close>), computations over a state (\<open>comp\<close>), clipping
    of integers, cuts of lists, and the locales \<open>event_machine\<close> (a step function with an invariant)
    and its relatives, which the managers interpret.
  \<^item> \<open>Buffers\<close>, \<open>Packets\<close>: \<^verbatim>\<open>packet/mod.rs\<close>, \<^verbatim>\<open>extension.rs\<close>, \<^verbatim>\<open>serialize.rs\<close>,
    \<^verbatim>\<open>deserialize.rs\<close>: buffers that panic when they run out, the writer and the reader of packets.
  \<^item> \<open>Handles\<close>, \<open>Clocks\<close>: \<^verbatim>\<open>packet/handle.rs\<close>, \<^verbatim>\<open>packet/time.rs\<close>, \<^verbatim>\<open>utils/counter.rs\<close>.
  \<^item> \<open>Packetizer\<close>, \<open>Depacketizer\<close>: \<^verbatim>\<open>local/packetizer.rs\<close>, \<^verbatim>\<open>remote/depacketizer.rs\<close>.
  \<^item> \<open>Tracks\<close>, \<open>Pipelines\<close>: \<^verbatim>\<open>track.rs\<close>, \<^verbatim>\<open>frame.rs\<close>, \<^verbatim>\<open>e2ee.rs\<close>, \<^verbatim>\<open>local/pipeline.rs\<close>,
    \<^verbatim>\<open>remote/pipeline.rs\<close>; the cipher of a track is an argument.
  \<^item> \<open>Track_Events\<close>, \<open>Track_Proto\<close>: \<^verbatim>\<open>events.rs\<close> and \<^verbatim>\<open>proto.rs\<close> of both sides.
  \<^item> \<open>Local_Manager\<close>, \<open>Remote_Manager\<close>: \<^verbatim>\<open>local/manager.rs\<close>, \<^verbatim>\<open>remote/manager.rs\<close>. The state is
    a record with the descriptors, the queues of events, and the tasks that the manager spawns;
    every input event is a function on it, and a run is a list of events and task turns.
  \<^item> \<open>Utf8\<close>: \<^verbatim>\<open>room/utils/utf8_chunk.rs\<close>. \<open>Room_Utils\<close>: \<^verbatim>\<open>ttl_map.rs\<close>, \<^verbatim>\<open>tx_queue.rs\<close>, \<^verbatim>\<open>mod.rs\<close>.
  \<^item> \<open>Data_Packets\<close>, \<open>Data_Streams\<close>: the messages and \<^verbatim>\<open>data_stream/mod.rs\<close>, \<^verbatim>\<open>take_cell.rs\<close>.
  \<^item> \<open>Outgoing_Streams\<close>, \<open>Incoming_Streams\<close>, \<open>Room_Streams\<close>: \<^verbatim>\<open>outgoing.rs\<close>, \<^verbatim>\<open>incoming.rs\<close>, and
    the handlers of the room in \<^verbatim>\<open>room/mod.rs\<close> and \<^verbatim>\<open>participant/mod.rs\<close>.
  \<^item> \<open>Data_Channels\<close>: \<^verbatim>\<open>dc_sender.rs\<close> and the interface \<open>backpressure\<close> of a bounded hand-over.
  \<^item> \<open>Session_Data\<close>: the part of \<^verbatim>\<open>rtc_session.rs\<close> that publishes, sends, retries and receives
    data packets. This theory joins it to the streams.
  \<^item> \<open>Rpc\<close>: \<^verbatim>\<open>participant/rpc.rs\<close> and the calls in \<^verbatim>\<open>participant/local_participant.rs\<close>, with their
    timers and the maps of pending calls.
  \<^item> \<open>Engine\<close>: \<^verbatim>\<open>rtc_engine/mod.rs\<close>: connecting, closing, and the task that reconnects, one turn of
    it at a time; sessions are numbers and the outcomes of their operations are part of the input.
  \<^item> \<open>E2ee_Manager\<close>: \<^verbatim>\<open>room/e2ee\<close>: the frame cryptors under participants and tracks, and the
    providers for data packets and data tracks.
  \<^item> \<open>Participants\<close>: \<^verbatim>\<open>participant/mod.rs\<close>, \<^verbatim>\<open>participant/remote_participant.rs\<close>,
    \<^verbatim>\<open>publication/\<close> and \<^verbatim>\<open>track/\<close>: the objects as values, with the calls of their handlers.
  \<^item> \<open>Room_Session\<close>: the room's state with participants as shared objects, one function per handler
    of \<^verbatim>\<open>room/mod.rs\<close>, and \<open>room_step\<close> over all its inputs. \<open>Room_Roster\<close>: its invariant, its
    events replayed, and the abstract roster. \<open>Room_Runs\<close>: whole runs, and the room together with
    the engine.
  \<^item> \<open>Signal_Client\<close>: of \<^verbatim>\<open>livekit-api/src/signal_client\<close>, sending, queueing, flushing, closing and
    restarting, one turn of a task at a time, with the locks of the stream and of the queue.

  \<^bold>\<open>How the parts interact.\<close> A local track's pipeline encrypts a frame, packetizes and serializes
  it; \<open>Data_Channels\<close> hands the packets to the channel. Received packets are deserialized, routed
  by handle to the task of a track, reassembled and decrypted (\<open>Remote_Manager\<close>, \<open>Pipelines\<close>). A
  stream's writer gives packets to the engine, which publishes them through the session's task;
  received data packets become session events, of which the stream events reach the manager of
  incoming streams and, through channels, the readers. The events of the engine are the inputs of
  the room (\<open>room_input_of\<close>); its participants call back on every change of their information and
  publications, which dispatches the room's events and makes or removes frame cryptors; the
  providers of \<open>E2ee_Manager\<close> are the ciphers that the session and the pipelines take as arguments.

  \<^bold>\<open>What the lemmas show.\<close> The packet format round-trips and its reader never panics; packetizing
  and reassembly are exact, bounded and account for every frame; frames survive the whole way.
  The managers keep their invariants on every run, from which routing, handles and shutdown
  follow. Streams are delivered unchanged and independently of each other, and reading one
  succeeds only when all of it arrived. Reliable packets leave in order, encryption of data
  packets is transparent, and the task of the data channels goes on. Calls end and return
  what their own answers say; a reconnection ends. The participants of the room are those of an
  abstract roster under the updates of the server, and its events tell who is present, in every
  run; frame cryptors are those of the tracks and follow the switch of the manager unless it comes
  between the two halves of a call. No request to the signal client is forgotten. Other properties
  state precisely where the code falls short: what is lost at limits, delivered in clear, cut off,
  retried wrongly, or waits for ever.

  \<^bold>\<open>Conventions.\<close> Machine integers are words where they can wrap, natural numbers where they
  count bytes of data that exists. A panic is the value \<open>Panic\<close> or \<open>None\<close>. Hash maps are
  functions to options; where the order of iteration matters it is an argument, and the
  properties hold for every order. Concurrent tasks are interleaved by lists of events. A handler
  runs to its end before another begins, except where its waits matter: the frame cryptors, the
  shutdown of the local manager, the signal client and the engine take their steps one at a time.
  A run ends with a handler that panics; arithmetic wraps as in a release, and where a check of
  overflow would panic (\<open>retry_warning\<close>) the build is a parameter. The locks of the asynchronous
  runtime are fair, as documented.

  \<^bold>\<open>Bounds and fuel.\<close> Loops over a queue get one turn more than the queue is long
  (\<open>read_loop\<close>, \<open>retry_loop\<close>), which the text at each says is enough; loops that may not end
  (\<open>utf8_chunks_from\<close>, \<open>txq_trim\<close>) are partial functions, with theorems that they return.

  \<^bold>\<open>Not modelled.\<close> Publishing media (the local participant's tracks, their options and encodings),
  the state sent to the server after a resume, and closing the room; of the engine and the session,
  negotiation, peer transports and the signalling of media; connecting of the signal client and its
  task for responses and pings; tokens and services;
  generated protocol code beyond the messages used; foreign function interfaces; and the bindings
  of the native media libraries, whose ciphers, tracks and channels are arguments here.
\<close>

section \<open>From the session to the streams\<close>

text \<open>
  The engine passes the events of data streams on (\<^verbatim>\<open>rtc_engine/mod.rs\<close>) and the room gives them
  to the manager of incoming streams (\<^verbatim>\<open>room/mod.rs\<close>).
\<close>

fun stream_event_of :: "session_event \<Rightarrow> stream_event option" where
  "stream_event_of (Ev_DataStreamHeader header identity t) = Some (Header_Event header identity t)"
| "stream_event_of (Ev_DataStreamChunk chunk identity t) = Some (Chunk_Event chunk t)"
| "stream_event_of (Ev_DataStreamTrailer trailer identity) = Some (Trailer_Event trailer)"
| "stream_event_of _ = None"

lemma update_packet_rx_state_emitted [simp]:
  "sr_emitted (update_packet_rx_state now p s) = sr_emitted s"
  by (simp add: update_packet_rx_state_def split: prod.split)

lemma on_rtc_data_chunk:
  assumes "decode raw = Some p" and "dp_value p = Some (Value_StreamChunk c)"
  shows "sr_emitted (snd (on_rtc_data decode decode_payload m now raw True Reliable s)) = sr_emitted s @
    [Ev_DataStreamChunk c (dp_participant_identity p) Enc_None]"
  using assms by (simp add: on_rtc_data_def emit_incoming_packet_def send_event_def
    participant_identity_try_from_def identity_or_empty_def)

text \<open>A chunk that is delivered a second time.\<close>

lemma chunk_twice:
  assumes "incoming_inv ic" and "ic_open_streams ic (sc_stream_id c) = Some d"
    and "spr_chunk_index (id_progress d) = sc_chunk_index c" and "id_encryption_type d = e2ee_type_from t"
    and "\<forall>n. spr_bytes_total (id_progress d) = Some n \<longrightarrow>
      spr_bytes_processed (id_progress d) + of_nat (length (sc_content c)) \<le> n"
    and "ch_rx (ic_chans ic ! id_chunk_tx d)"
  shows "let ic' = handle_chunk c t (handle_chunk c t ic)
    in ch_queue (ic_chans ic' ! id_chunk_tx d) = ch_queue (ic_chans ic ! id_chunk_tx d) @ [Ok (sc_content c), Err MissedChunk]
     \<and> ic_open_streams ic' (sc_stream_id c) = None"
proof -
  have k: "id_chunk_tx d < length (ic_chans ic)" using assms(1,2) by (rule incoming_invD)
  show ?thesis
    using assms k by (cases "spr_bytes_total (id_progress d)")
      (simp_all add: handle_chunk_def Let_def yield_chunk_def chunk_send_def close_stream_with_error_def
        close_stream_def set_chan_def not_less)
qed

text \<open>
  C40. A packet that the server retries breaks the stream it belongs to. The session recognises a
  packet whose sequence number it has seen and logs that it ignores it, but emits it all the
  same: the chunk reaches the stream twice, its reader gets the content and then an error for a
  missed chunk, and the stream is closed.
\<close>

theorem duplicate_chunk_breaks_stream:
  assumes "decode raw = Some p" and "dp_value p = Some (Value_StreamChunk c)"
    and "incoming_inv ic" and "ic_open_streams ic (sc_stream_id c) = Some d"
    and "spr_chunk_index (id_progress d) = sc_chunk_index c" and "id_encryption_type d = E2ee_None"
    and "\<forall>n. spr_bytes_total (id_progress d) = Some n \<longrightarrow>
      spr_bytes_processed (id_progress d) + of_nat (length (sc_content c)) \<le> n"
    and "ch_rx (ic_chans ic ! id_chunk_tx d)"
  shows "let s1 = snd (on_rtc_data decode decode_payload m earlier raw True Reliable s);
      s2 = snd (on_rtc_data decode decode_payload m later raw True Reliable s1);
      ic' = foldl (incoming_step of_millis now) ic
        (List.map_filter stream_event_of (drop (length (sr_emitted s)) (sr_emitted s2)))
    in ch_queue (ic_chans ic' ! id_chunk_tx d) = ch_queue (ic_chans ic ! id_chunk_tx d) @ [Ok (sc_content c), Err MissedChunk]
     \<and> ic_open_streams ic' (sc_stream_id c) = None"
proof -
  have "id_encryption_type d = e2ee_type_from Enc_None" by (simp add: assms(6))
  from chunk_twice [OF assms(3-5) this assms(7,8)] show ?thesis
    by (simp add: on_rtc_data_chunk [of decode raw p c, OF assms(1,2)] map_filter_simps Let_def)
qed

definition retried_chunk :: stream_chunk where
  "retried_chunk = \<lparr>sc_stream_id = ''s'', sc_chunk_index = 0, sc_content = [7, 8]\<rparr>"

definition retried_header :: stream_header where
  "retried_header = \<lparr>sh_stream_id = ''s'', sh_timestamp = 0, sh_topic = ''t'', sh_mime_type = [],
     sh_total_length = Some 2, sh_attributes = Map.empty, sh_content_header = Some (Byte_Header \<lparr>byh_name = ''f''\<rparr>)\<rparr>"

theorem duplicate_chunk_breaks_stream_witness:
  "let packet = data_packet_default\<lparr>dp_sequence := 5, dp_participant_sid := ''PA_x'',
        dp_value := Some (Value_StreamChunk retried_chunk)\<rparr>;
      ic = handle_header Some 0 retried_header ''bob'' Enc_None incoming_new;
      s1 = snd (on_rtc_data (\<lambda>raw. Some packet) (\<lambda>_. None) None 0 [1] True Reliable (session_rx_new 0));
      s2 = snd (on_rtc_data (\<lambda>raw. Some packet) (\<lambda>_. None) None 0 [1] True Reliable s1);
      ic' = foldl (incoming_step Some 0) ic (List.map_filter stream_event_of (drop 0 (sr_emitted s2)))
   in ch_queue (ic_chans ic' ! 0) = [Ok [7, 8], Err MissedChunk] \<and> ic_open_streams ic' ''s'' = None"
proof -
  let ?packet = "data_packet_default\<lparr>dp_sequence := 5, dp_participant_sid := ''PA_x'',
        dp_value := Some (Value_StreamChunk retried_chunk)\<rparr>"
  let ?ic = "handle_header Some 0 retried_header ''bob'' Enc_None incoming_new"
  have inv: "incoming_inv ?ic" by (intro incoming_inv_header incoming_inv_new)
  have open_stream: "ic_open_streams ?ic (sc_stream_id retried_chunk) =
      Some \<lparr>id_progress = progress_new (Some 2), id_chunk_tx = 0, id_encryption_type = E2ee_None\<rparr>"
    "ic_chans ?ic = [\<lparr>ch_queue = [], ch_tx = True, ch_rx = True\<rparr>]"
    by (simp_all add: handle_header_def retried_header_def retried_chunk_def incoming_new_def
      stream_info_try_from_with_encryption_def byte_info_from_headers_with_encryption_def any_reader_from_def)
  show ?thesis
    using duplicate_chunk_breaks_stream [where decode = "\<lambda>raw. Some ?packet" and p = ?packet and s = "session_rx_new 0"
        and c = retried_chunk and raw = "[1]" and now = 0 and of_millis = Some and m = None
        and decode_payload = "\<lambda>_. None" and earlier = 0 and later = 0, OF refl _ inv open_stream(1)]
    by (simp add: open_stream(2) progress_new_def retried_chunk_def session_rx_new_def)
qed

end
